(* ===== verification/Prelude.thy ===== *)
theory Prelude
  imports Complex_Main "HOL-Library.AList" "HOL-Library.List_Lexorder" "HOL-Library.Sublist"
begin

text \<open>
  What the components share: the types that stand for Python's built-in values, the string,
  dictionary and rounding functions of the standard library that the source uses, and the
  generic notion of a reachable state of a transition system with its invariant rule.

  A Python \<open>str\<close> is a list of Unicode code points (\<open>pystr\<close>), so that lengths, comparisons
  (lexicographic by code point, the order of \<open>HOL-Library.List_Lexorder\<close>) and UTF-8 sizes are
  those of Python; \<open>str ''abc''\<close> writes an ASCII literal. A Python \<open>float\<close> is a real number:
  IEEE rounding, NaN and infinities are not modelled. A Python \<open>int\<close> is an \<open>int\<close>. A \<open>dict\<close> is an
  association list in insertion order.
\<close>

section \<open>Collections of hints\<close>

named_theorems component_defs \<open>definitions of a component's operations, unfolded together\<close>
named_theorems frame_simps \<open>which fields an operation leaves alone\<close>
named_theorems invariant_intros \<open>every operation keeps the invariant\<close>

section \<open>Python's values\<close>

type_synonym codepoint = nat
type_synonym pystr = "codepoint list"
type_synonym pyfloat = real
type_synonym ('k, 'v) dict = "('k \<times> 'v) list"

definition str :: "string \<Rightarrow> pystr" where
  "str s = map of_char s"

lemma str_inject [simp]: "str s = str t \<longleftrightarrow> s = t"
  by (simp add: str_def inj_map_eq_map inj_of_char)

lemma length_str [simp]: "length (str s) = length s"
  by (simp add: str_def)

lemma str_eq_Nil [simp]: "str s = [] \<longleftrightarrow> s = []" "[] = str s \<longleftrightarrow> s = []"
  by (auto simp: str_def)

subsection \<open>Dictionaries\<close>

text \<open>
  \<open>d.get(k)\<close> is \<open>map_of d k\<close>, \<open>d[k] = v\<close> is \<open>AList.update k v d\<close> (an existing key keeps its
  place, a new one goes to the end), and the mutation of an object held under \<open>k\<close> is
  \<open>dict_modify k f d\<close>.
\<close>

definition dict_modify :: "'k \<Rightarrow> ('v \<Rightarrow> 'v) \<Rightarrow> ('k, 'v) dict \<Rightarrow> ('k, 'v) dict" where
  "dict_modify k f d = map (\<lambda>(k', v). if k' = k then (k', f v) else (k', v)) d"

definition dict_values :: "('k, 'v) dict \<Rightarrow> 'v list" where
  "dict_values d = map snd d"

lemma dict_modify_Nil [simp]: "dict_modify k f [] = []"
  by (simp add: dict_modify_def)

lemma dict_modify_Cons [simp]:
  "dict_modify k f ((k', v) # d) = (k', if k' = k then f v else v) # dict_modify k f d"
  by (simp add: dict_modify_def)

lemma keys_dict_modify [simp]: "map fst (dict_modify k f d) = map fst d"
  by (induction d) auto

lemma fst_set_dict_modify [simp]: "fst ` set (dict_modify k f d) = fst ` set d"
  by (metis keys_dict_modify list.set_map)

lemma map_of_dict_modify:
  "map_of (dict_modify k f d) k' = (if k' = k then map_option f (map_of d k) else map_of d k')"
  by (induction d) auto

lemma dict_modify_comp: "dict_modify k f (dict_modify k g d) = dict_modify k (f \<circ> g) d"
  by (induction d) auto

lemma dict_modify_id: "(\<And>v. map_of d k = Some v \<Longrightarrow> f v = v) \<Longrightarrow> distinct (map fst d) \<Longrightarrow>
    dict_modify k f d = d"
proof (induction d)
  case (Cons a d)
  obtain k' v where a: "a = (k', v)" by (cases a)
  show ?case
  proof (cases "k' = k")
    case True
    with Cons.prems a have "f v = v" and "k \<notin> fst ` set d" by auto
    then have "dict_modify k f d = d"
      by (auto simp: dict_modify_def intro!: map_idI split: prod.splits) (metis fst_conv imageI)
    with True \<open>f v = v\<close> a show ?thesis by simp
  next
    case False
    with Cons a show ?thesis by simp
  qed
qed simp

lemma dict_modify_missing: "map_of d k = None \<Longrightarrow> dict_modify k f d = d"
  by (induction d) (auto split: if_splits)

lemma in_set_dict_modify:
  "(k', v) \<in> set (dict_modify k f d) \<longleftrightarrow>
     (if k' = k then \<exists>w. (k, w) \<in> set d \<and> v = f w else (k', v) \<in> set d)"
  by (induction d) auto

lemma map_of_in_values: "map_of d k = Some v \<Longrightarrow> v \<in> set (dict_values d)"
  by (force simp: dict_values_def dest: map_of_SomeD)

subsection \<open>Strings\<close>

text \<open>The code points \<open>str.isspace\<close> holds of, which \<open>str.strip\<close> and \<open>int\<close> drop at both ends.\<close>

definition py_isspace :: "codepoint \<Rightarrow> bool" where
  "py_isspace c \<longleftrightarrow> 9 \<le> c \<and> c \<le> 13 \<or> 28 \<le> c \<and> c \<le> 32 \<or>
     c \<in> {133, 160, 5760, 8232, 8233, 8239, 8287, 12288} \<or> 8192 \<le> c \<and> c \<le> 8202"

definition py_strip :: "pystr \<Rightarrow> pystr" where
  "py_strip s = rev (dropWhile py_isspace (rev (dropWhile py_isspace s)))"

text \<open>\<open>s.split(c)\<close> for a one-character separator: always at least one piece.\<close>

fun split_on :: "codepoint \<Rightarrow> pystr \<Rightarrow> pystr list" where
  "split_on c [] = [[]]"
| "split_on c (x # xs) =
     (if x = c then [] # split_on c xs
      else (case split_on c xs of [] \<Rightarrow> [[x]] | p # ps \<Rightarrow> (x # p) # ps))"

text \<open>\<open>s.split(c, 1)\<close> where \<open>c in s\<close>: the text before the first \<open>c\<close> and the rest after it.\<close>

definition split_once :: "codepoint \<Rightarrow> pystr \<Rightarrow> pystr \<times> pystr" where
  "split_once c s = (takeWhile (\<lambda>x. x \<noteq> c) s, tl (dropWhile (\<lambda>x. x \<noteq> c) s))"

text \<open>\<open>needle in hay\<close> on strings: a contiguous occurrence.\<close>

fun py_contains :: "'a list \<Rightarrow> 'a list \<Rightarrow> bool" where
  "py_contains needle [] \<longleftrightarrow> needle = []"
| "py_contains needle (x # xs) \<longleftrightarrow> prefix needle (x # xs) \<or> py_contains needle xs"

lemma py_contains_iff_sublist: "py_contains needle hay \<longleftrightarrow> sublist needle hay"
  by (induction hay) (auto simp: sublist_Cons_right)

lemma split_on_ne [simp]: "split_on c s \<noteq> []"
  by (induction s) (auto split: list.splits)

lemma split_on_no_sep: "c \<notin> set s \<Longrightarrow> split_on c s = [s]"
  by (induction s) auto

lemma split_on_append_sep: "c \<notin> set s \<Longrightarrow> split_on c (s @ c # t) = s # split_on c t"
  by (induction s) auto

lemma split_once_sep: "c \<notin> set s \<Longrightarrow> split_once c (s @ c # t) = (s, t)"
proof -
  assume "c \<notin> set s"
  then have "takeWhile (\<lambda>x. x \<noteq> c) (s @ c # t) = s" "dropWhile (\<lambda>x. x \<noteq> c) (s @ c # t) = c # t"
    by (auto simp: takeWhile_append dropWhile_append)
  then show ?thesis by (simp add: split_once_def)
qed

lemma py_strip_trimmed:
  assumes "s \<noteq> []" "\<not> py_isspace (hd s)" "\<not> py_isspace (last s)"
  shows "py_strip s = s"
proof -
  have "dropWhile py_isspace s = s"
    using assms(1,2) by (cases s) auto
  moreover have "dropWhile py_isspace (rev s) = rev s"
    using assms(1,3) by (cases "rev s") (auto simp: hd_rev[symmetric])
  ultimately show ?thesis by (simp add: py_strip_def)
qed

subsection \<open>Rounding\<close>

text \<open>
  \<open>round(x, 2)\<close>: Python rounds the exact value of a float half to even in decimal. (The last step,
  the conversion of the rounded decimal to the nearest double, is below this model.)
\<close>

definition round_half_even :: "real \<Rightarrow> int" where
  "round_half_even x =
     (let f = \<lfloor>x\<rfloor>; d = x - of_int f
      in if d < 1/2 then f else if d > 1/2 then f + 1 else if even f then f else f + 1)"

definition py_round2 :: "pyfloat \<Rightarrow> pyfloat" where
  "py_round2 x = of_int (round_half_even (x * 100)) / 100"

lemma round_half_even_close: "\<bar>of_int (round_half_even x) - x\<bar> \<le> 1/2"
proof -
  obtain f :: int where f: "f = \<lfloor>x\<rfloor>" by simp
  then have "of_int f \<le> x" "x < of_int f + 1" by linarith+
  then show ?thesis by (auto simp: round_half_even_def Let_def abs_if f [symmetric])
qed

lemma py_round2_close: "\<bar>py_round2 x - x\<bar> \<le> 1/200"
  using round_half_even_close [of "x * 100"] by (simp add: py_round2_def field_simps abs_if split: if_splits)

section \<open>Removing a task from a list\<close>

definition without :: "nat \<Rightarrow> 'a list \<Rightarrow> 'a list" where
  "without i xs = take i xs @ drop (Suc i) xs"

lemma map_without: "map f (without i xs) = without i (map f xs)"
  by (simp add: without_def take_map drop_map)

lemma length_without: "i < length xs \<Longrightarrow> Suc (length (without i xs)) = length xs"
  by (simp add: without_def)

lemma set_without: "set (without i xs) \<subseteq> set xs"
  by (auto simp: without_def dest: in_set_takeD in_set_dropD)

section \<open>Reachable states and invariants\<close>

text \<open>
  A concurrent component is a transition system: the states it starts in and a labelled step
  relation, one step per stretch of code between two \<open>await\<close>s.
\<close>

inductive reachable :: "('s \<Rightarrow> bool) \<Rightarrow> ('s \<Rightarrow> 'e \<Rightarrow> 's \<Rightarrow> bool) \<Rightarrow> 's \<Rightarrow> bool"
  for init step where
  reachable_init: "init s \<Longrightarrow> reachable init step s"
| reachable_step: "reachable init step s \<Longrightarrow> step s e t \<Longrightarrow> reachable init step t"

text \<open>A run of a step function along given events.\<close>

fun run_steps :: "('s \<Rightarrow> 'e \<Rightarrow> 's option) \<Rightarrow> 's \<Rightarrow> 'e list \<Rightarrow> 's option" where
  "run_steps step s [] = Some s"
| "run_steps step s (e # es) = (case step s e of None \<Rightarrow> None | Some t \<Rightarrow> run_steps step t es)"

lemma reachable_run:
  "reachable init rel s \<Longrightarrow> (\<And>s e t. step s e = Some t \<Longrightarrow> rel s e t) \<Longrightarrow> run_steps step s es = Some t \<Longrightarrow>
     reachable init rel t"
proof (induction es arbitrary: s)
  case (Cons e es)
  then obtain u where "step s e = Some u" "run_steps step u es = Some t" by (auto split: option.splits)
  with Cons show ?case by (blast intro: reachable_step)
qed simp

lemma run_steps_append: "run_steps step s (es @ es') = Option.bind (run_steps step s es) (\<lambda>t. run_steps step t es')"
  by (induction es arbitrary: s) (auto split: option.split)

locale inductive_invariant =
  fixes init :: "'s \<Rightarrow> bool"
    and step :: "'s \<Rightarrow> 'e \<Rightarrow> 's \<Rightarrow> bool"
    and inv :: "'s \<Rightarrow> bool"
  assumes starts: "init s \<Longrightarrow> inv s"
    and kept: "inv s \<Longrightarrow> step s e t \<Longrightarrow> inv t"
begin

lemma holds: "reachable init step s \<Longrightarrow> inv s"
  by (induction rule: reachable.induct) (auto intro: starts kept)

end

end
