(* ===== verification/Config.thy ===== *)
theory Config
  imports Prelude "HOL-Library.Monad_Syntax"
begin

text \<open>
  The settings of both services: \<open>gateway/config.py\<close> and \<open>worker/config.py\<close>. The environment
  (\<open>os.environ\<close>) is a partial map; reading it may fail, because \<open>int\<close> raises \<open>ValueError\<close> on text
  that is no integer, and then the module does not import (\<open>None\<close>). The static worker list is
  parsed from one comma-separated string, as \<open>__post_init__\<close> does.
\<close>

section \<open>Python's \<open>int\<close> on strings\<close>

text \<open>
  \<open>int(s)\<close>: white space around, one sign, ASCII digits with single underscores between them (other
  Unicode decimal digits are not modelled), at most 4300 digits, the interpreter's default limit.
\<close>

fun py_digits :: "int \<Rightarrow> bool \<Rightarrow> pystr \<Rightarrow> int option" where
  "py_digits acc after_digit [] = (if after_digit then Some acc else None)"
| "py_digits acc after_digit (c # cs) =
     (if 48 \<le> c \<and> c \<le> 57 then py_digits (10 * acc + (int c - 48)) True cs
      else if c = 95 \<and> after_digit then py_digits acc False cs
      else None)"

definition py_int :: "pystr \<Rightarrow> int option" where
  "py_int s =
     (let t = py_strip s in
      if 4300 < length (filter (\<lambda>c. 48 \<le> c \<and> c \<le> 57) t) then None
      else case t of [] \<Rightarrow> None
        | c # cs \<Rightarrow> if c = 45 then map_option uminus (py_digits 0 False cs)
                   else if c = 43 then py_digits 0 False cs
                   else py_digits 0 False t)"

text \<open>Decimal notation, the specification of what \<open>int\<close> reads back.\<close>

fun decimal :: "nat \<Rightarrow> pystr" where
  "decimal n = (if n < 10 then [48 + n] else decimal (n div 10) @ [48 + n mod 10])"

declare decimal.simps [simp del]

lemma decimal_digits: "c \<in> set (decimal n) \<Longrightarrow> 48 \<le> c \<and> c \<le> 57"
proof (induction n rule: decimal.induct)
  case (1 n)
  then show ?case by (cases "n < 10") (auto simp: decimal.simps [of n])
qed

lemma decimal_ne [simp]: "decimal n \<noteq> []"
  by (subst decimal.simps) simp

lemma py_digits_append:
  "\<forall>c \<in> set s. 48 \<le> c \<and> c \<le> 57 \<Longrightarrow> s \<noteq> [] \<Longrightarrow>
     py_digits acc b (s @ t) =
       py_digits (fold (\<lambda>c a. 10 * a + (int c - 48)) s acc) True t"
proof (induction s arbitrary: acc b)
  case (Cons c s)
  let ?v = "10 * acc + (int c - 48)"
  have "py_digits acc b ((c # s) @ t) = py_digits ?v True (s @ t)"
    using Cons.prems by simp
  also have "\<dots> = py_digits (fold (\<lambda>c a. 10 * a + (int c - 48)) s ?v) True t"
    using Cons.IH [of ?v True] Cons.prems by (cases "s = []") simp_all
  finally show ?case by simp
qed simp

lemma fold_decimal:
  "fold (\<lambda>c a. 10 * a + (int c - 48)) (decimal n) acc = acc * 10 ^ length (decimal n) + int n"
proof (induction n arbitrary: acc rule: decimal.induct)
  case (1 n)
  show ?case
  proof (cases "n < 10")
    case True
    then show ?thesis by (simp add: decimal.simps [of n])
  next
    case False
    have "int (n div 10) * 10 + int (n mod 10) = int n"
      by (metis div_mult_mod_eq mult.commute of_nat_add of_nat_mult of_nat_numeral)
    with False 1 show ?thesis by (simp add: decimal.simps [of n] algebra_simps)
  qed
qed

lemma py_digits_decimal: "py_digits 0 False (decimal n) = Some (int n)"
  using py_digits_append [of "decimal n" 0 False "[]"] fold_decimal [of n 0] decimal_digits [of _ n]
  by simp

lemma decimal_not_space: "c \<in> set (decimal n) \<Longrightarrow> \<not> py_isspace c"
  using decimal_digits [of c n] by (auto simp: py_isspace_def)

lemma py_int_decimal:
  assumes "length (decimal n) \<le> 4300"
  shows "py_int (decimal n) = Some (int n)"
proof -
  have strip: "py_strip (decimal n) = decimal n"
    by (rule py_strip_trimmed)
      (simp_all add: decimal_not_space [OF hd_in_set] decimal_not_space [OF last_in_set])
  obtain c cs where d: "decimal n = c # cs" by (cases "decimal n") auto
  with decimal_digits [of c n] have "c \<noteq> 45" "c \<noteq> 43" by auto
  moreover have "length (filter (\<lambda>c. 48 \<le> c \<and> c \<le> 57) (decimal n)) \<le> 4300"
    using assms le_trans length_filter_le by blast
  ultimately show ?thesis
    using py_digits_decimal [of n]
    by (simp add: py_int_def Let_def d strip [unfolded d] del: py_digits.simps filter.simps)
qed

section \<open>The gateway's settings\<close>

record gateway_config =
  model_version :: pystr
  model_sha256 :: pystr
  http_max_body_bytes :: int
  max_inputs_per_request :: int
  max_input_bytes :: int
  max_total_input_bytes :: int
  min_timeout_ms :: int
  max_timeout_ms :: int
  default_timeout_ms :: int
  gateway_max_outstanding_per_worker :: int
  health_interval_ms :: int
  health_timeout_ms :: int
  health_failure_threshold :: int
  health_recovery_threshold :: int
  min_retry_budget_ms :: int
  workers_raw :: pystr
  configured_workers :: "(pystr, pystr) dict"

type_synonym environ = "string \<Rightarrow> pystr option"

definition getenv :: "environ \<Rightarrow> string \<Rightarrow> string \<Rightarrow> pystr" where
  "getenv env name dflt = (case env name of None \<Rightarrow> str dflt | Some v \<Rightarrow> v)"

definition getenv_int :: "environ \<Rightarrow> string \<Rightarrow> string \<Rightarrow> int option" where
  "getenv_int env name dflt = py_int (getenv env name dflt)"

text \<open>One item of the \<open>WORKERS\<close> list: \<open>44\<close> is the comma, \<open>61\<close> the equals sign.\<close>

definition parse_item :: "pystr \<Rightarrow> (pystr, pystr) dict \<Rightarrow> (pystr, pystr) dict" where
  "parse_item raw parsed =
     (let item = py_strip raw in
      if item = [] then parsed
      else if 61 \<in> set item
        then (let (wid, addr) = split_once 61 item in AList.update (py_strip wid) (py_strip addr) parsed)
        else AList.update item item parsed)"

definition parse_workers :: "pystr \<Rightarrow> (pystr, pystr) dict" where
  "parse_workers raw = fold parse_item (split_on 44 raw) []"

definition post_init :: "gateway_config \<Rightarrow> gateway_config" where
  "post_init c =
     (if configured_workers c = [] \<and> workers_raw c \<noteq> []
      then c\<lparr>configured_workers := parse_workers (workers_raw c)\<rparr> else c)"

definition load_gateway_config :: "environ \<Rightarrow> gateway_config option" where
  "load_gateway_config env = do {
     body \<leftarrow> getenv_int env ''HTTP_MAX_BODY_BYTES'' ''65536'';
     inputs \<leftarrow> getenv_int env ''MAX_INPUTS_PER_REQUEST'' ''8'';
     item_bytes \<leftarrow> getenv_int env ''MAX_INPUT_BYTES'' ''4096'';
     total_bytes \<leftarrow> getenv_int env ''MAX_TOTAL_INPUT_BYTES'' ''32768'';
     min_ms \<leftarrow> getenv_int env ''MIN_TIMEOUT_MS'' ''100'';
     max_ms \<leftarrow> getenv_int env ''MAX_TIMEOUT_MS'' ''10000'';
     default_ms \<leftarrow> getenv_int env ''DEFAULT_TIMEOUT_MS'' ''1000'';
     outstanding \<leftarrow> getenv_int env ''GATEWAY_MAX_OUTSTANDING_PER_WORKER'' ''32'';
     interval \<leftarrow> getenv_int env ''HEALTH_INTERVAL_MS'' ''1000'';
     health_ms \<leftarrow> getenv_int env ''HEALTH_TIMEOUT_MS'' ''250'';
     failures \<leftarrow> getenv_int env ''HEALTH_FAILURE_THRESHOLD'' ''3'';
     recovery \<leftarrow> getenv_int env ''HEALTH_RECOVERY_THRESHOLD'' ''2'';
     retry \<leftarrow> getenv_int env ''MIN_RETRY_BUDGET_MS'' ''50'';
     Some (post_init
       \<lparr>model_version = getenv env ''MODEL_VERSION'' ''tinybert-sst2-v1'',
        model_sha256 = getenv env ''MODEL_SHA256''
          ''23ea44ed3eb302e22045900ba8565dd672a9f4c127f5514ce182f01d83fe2e3a'',
        http_max_body_bytes = body, max_inputs_per_request = inputs, max_input_bytes = item_bytes,
        max_total_input_bytes = total_bytes, min_timeout_ms = min_ms, max_timeout_ms = max_ms,
        default_timeout_ms = default_ms, gateway_max_outstanding_per_worker = outstanding,
        health_interval_ms = interval, health_timeout_ms = health_ms,
        health_failure_threshold = failures, health_recovery_threshold = recovery,
        min_retry_budget_ms = retry,
        workers_raw = getenv env ''WORKERS''
          ''worker-1=worker-1:50051,worker-2=worker-2:50051,worker-3=worker-3:50051,worker-4=worker-4:50051'',
        configured_workers = []\<rparr>) }"

section \<open>The worker's settings\<close>

record worker_config =
  wc_worker_id :: pystr
  wc_model_version :: pystr
  wc_model_sha256 :: pystr
  wc_model_dir :: pystr
  wc_grpc_port :: int
  wc_metrics_port :: int
  wc_queue_capacity :: int
  wc_max_batch_requests :: int
  wc_max_batch_items :: int
  wc_max_batch_delay_ms :: int
  wc_max_tokens_per_input :: int
  wc_ort_intra_op_threads :: int
  wc_ort_inter_op_threads :: int

definition load_worker_config :: "environ \<Rightarrow> worker_config option" where
  "load_worker_config env = do {
     grpc \<leftarrow> getenv_int env ''WORKER_GRPC_PORT'' ''50051'';
     metrics \<leftarrow> getenv_int env ''WORKER_METRICS_PORT'' ''9100'';
     capacity \<leftarrow> getenv_int env ''WORKER_QUEUE_CAPACITY'' ''64'';
     requests \<leftarrow> getenv_int env ''MAX_BATCH_REQUESTS'' ''8'';
     items \<leftarrow> getenv_int env ''MAX_BATCH_ITEMS'' ''32'';
     delay \<leftarrow> getenv_int env ''MAX_BATCH_DELAY_MS'' ''5'';
     tokens \<leftarrow> getenv_int env ''MAX_TOKENS_PER_INPUT'' ''128'';
     intra \<leftarrow> getenv_int env ''ORT_INTRA_OP_THREADS'' ''1'';
     inter_op \<leftarrow> getenv_int env ''ORT_INTER_OP_THREADS'' ''1'';
     Some
       \<lparr>wc_worker_id = getenv env ''WORKER_ID'' ''worker-1'',
        wc_model_version = getenv env ''MODEL_VERSION'' ''tinybert-sst2-v1'',
        wc_model_sha256 = getenv env ''MODEL_SHA256''
          ''23ea44ed3eb302e22045900ba8565dd672a9f4c127f5514ce182f01d83fe2e3a'',
        wc_model_dir = getenv env ''MODEL_DIR'' ''artifacts/model'',
        wc_grpc_port = grpc, wc_metrics_port = metrics, wc_queue_capacity = capacity,
        wc_max_batch_requests = requests, wc_max_batch_items = items,
        wc_max_batch_delay_ms = delay, wc_max_tokens_per_input = tokens,
        wc_ort_intra_op_threads = intra, wc_ort_inter_op_threads = inter_op\<rparr> }"

section \<open>The worker list\<close>

text \<open>
  What an operator writes: \<open>id=address\<close> pairs separated by commas. A list is \<open>clean\<close> when the ids
  are distinct, no id or address holds a separator that would be read as one, and none has white
  space at its ends.
\<close>

definition clean_text :: "pystr \<Rightarrow> bool" where
  "clean_text s \<longleftrightarrow> s \<noteq> [] \<and> \<not> py_isspace (hd s) \<and> \<not> py_isspace (last s) \<and> 44 \<notin> set s"

definition clean_workers :: "(pystr, pystr) dict \<Rightarrow> bool" where
  "clean_workers ws \<longleftrightarrow> distinct (map fst ws) \<and>
     list_all (\<lambda>(w, a). clean_text w \<and> 61 \<notin> set w \<and> clean_text a) ws"

definition render_item :: "pystr \<times> pystr \<Rightarrow> pystr" where
  "render_item wa = fst wa @ 61 # snd wa"

fun render_workers :: "(pystr, pystr) dict \<Rightarrow> pystr" where
  "render_workers [] = []"
| "render_workers [wa] = render_item wa"
| "render_workers (wa # was) = render_item wa @ 44 # render_workers was"

lemma clean_strip: "clean_text s \<Longrightarrow> py_strip s = s"
  by (simp add: clean_text_def py_strip_trimmed)

lemma parse_render_item:
  assumes "clean_text w" "61 \<notin> set w" "clean_text a"
  shows "parse_item (render_item (w, a)) d = AList.update w a d"
proof -
  have "py_strip (w @ 61 # a) = w @ 61 # a"
    using assms by (intro py_strip_trimmed) (auto simp: clean_text_def)
  with assms show ?thesis
    by (simp add: parse_item_def render_item_def split_once_sep clean_strip)
qed

lemma split_render_workers:
  "list_all (\<lambda>(w, a). clean_text w \<and> 61 \<notin> set w \<and> clean_text a) ws \<Longrightarrow> ws \<noteq> [] \<Longrightarrow>
     split_on 44 (render_workers ws) = map render_item ws"
proof (induction ws rule: render_workers.induct)
  case (2 wa)
  then show ?case
    by (cases wa) (auto simp: render_item_def clean_text_def intro!: split_on_no_sep)
next
  case (3 wa wb ws)
  obtain w a where [simp]: "wa = (w, a)" by (cases wa)
  from 3 have "44 \<notin> set (render_item wa)" by (auto simp: render_item_def clean_text_def)
  with 3 show ?case by (simp add: split_on_append_sep)
qed simp

lemma update_new: "k \<notin> fst ` set d \<Longrightarrow> AList.update k v d = d @ [(k, v)]"
  by (induction d) auto

lemma fold_parse_rendered:
  "list_all (\<lambda>(w, a). clean_text w \<and> 61 \<notin> set w \<and> clean_text a) ws \<Longrightarrow>
     distinct (map fst (d @ ws)) \<Longrightarrow> fold parse_item (map render_item ws) d = d @ ws"
proof (induction ws arbitrary: d)
  case (Cons wa ws)
  obtain w a where [simp]: "wa = (w, a)" by (cases wa)
  from Cons.prems have "parse_item (render_item wa) d = d @ [wa]"
    by (auto simp: parse_render_item update_new)
  with Cons.IH [of "d @ [wa]"] Cons.prems show ?case by simp
qed simp

lemma parse_render_workers: "clean_workers ws \<Longrightarrow> ws \<noteq> [] \<Longrightarrow> parse_workers (render_workers ws) = ws"
  using fold_parse_rendered [of ws "[]"]
  by (simp add: clean_workers_def parse_workers_def split_render_workers)

text \<open>Whatever the text, the result is a dictionary: one entry per worker id, none of them blank.\<close>

lemma distinct_parse_item: "distinct (map fst d) \<Longrightarrow> distinct (map fst (parse_item raw d))"
  by (auto simp: parse_item_def Let_def distinct_update split: prod.splits)

lemma distinct_parse_workers [simp]: "distinct (map fst (parse_workers raw))"
proof -
  have "distinct (map fst d) \<Longrightarrow> distinct (map fst (fold parse_item items d))" for items d
    by (induction items arbitrary: d) (auto intro: distinct_parse_item)
  then show ?thesis by (simp add: parse_workers_def)
qed

text \<open>The text form of a worker id survives loading: the configuration's dictionary has distinct keys.\<close>

lemma distinct_post_init:
  "distinct (map fst (configured_workers c)) \<Longrightarrow> distinct (map fst (configured_workers (post_init c)))"
  by (simp add: post_init_def)

lemma load_gateway_config_distinct:
  "load_gateway_config env = Some c \<Longrightarrow> distinct (map fst (configured_workers c))"
  by (auto simp: load_gateway_config_def post_init_def bind_eq_Some_conv)

section \<open>The documented defaults\<close>

text \<open>The table of settings of the design document, for a process with no environment variable set.\<close>

definition documented_config :: gateway_config where
  "documented_config =
     \<lparr>model_version = str ''tinybert-sst2-v1'',
      model_sha256 = str ''23ea44ed3eb302e22045900ba8565dd672a9f4c127f5514ce182f01d83fe2e3a'',
      http_max_body_bytes = 65536, max_inputs_per_request = 8, max_input_bytes = 4096,
      max_total_input_bytes = 32768, min_timeout_ms = 100, max_timeout_ms = 10000,
      default_timeout_ms = 1000, gateway_max_outstanding_per_worker = 32, health_interval_ms = 1000,
      health_timeout_ms = 250, health_failure_threshold = 3, health_recovery_threshold = 2,
      min_retry_budget_ms = 50,
      workers_raw = str ''worker-1=worker-1:50051,worker-2=worker-2:50051,worker-3=worker-3:50051,worker-4=worker-4:50051'',
      configured_workers =
        [(str ''worker-1'', str ''worker-1:50051''), (str ''worker-2'', str ''worker-2:50051''),
         (str ''worker-3'', str ''worker-3:50051''), (str ''worker-4'', str ''worker-4:50051'')]\<rparr>"

definition documented_worker_config :: worker_config where
  "documented_worker_config =
     \<lparr>wc_worker_id = str ''worker-1'', wc_model_version = str ''tinybert-sst2-v1'',
      wc_model_sha256 = str ''23ea44ed3eb302e22045900ba8565dd672a9f4c127f5514ce182f01d83fe2e3a'',
      wc_model_dir = str ''artifacts/model'', wc_grpc_port = 50051, wc_metrics_port = 9100,
      wc_queue_capacity = 64, wc_max_batch_requests = 8, wc_max_batch_items = 32,
      wc_max_batch_delay_ms = 5, wc_max_tokens_per_input = 128, wc_ort_intra_op_threads = 1,
      wc_ort_inter_op_threads = 1\<rparr>"

lemma getenv_int_unset: "getenv_int (\<lambda>_. None) name dflt = py_int (str dflt)"
  by (simp add: getenv_int_def getenv_def)

lemma getenv_unset: "getenv (\<lambda>_. None) name dflt = str dflt"
  by (simp add: getenv_def)

lemma py_int_literals:
  "py_int (str ''65536'') = Some 65536" "py_int (str ''8'') = Some 8" "py_int (str ''4096'') = Some 4096"
  "py_int (str ''32768'') = Some 32768" "py_int (str ''100'') = Some 100"
  "py_int (str ''10000'') = Some 10000" "py_int (str ''1000'') = Some 1000"
  "py_int (str ''32'') = Some 32" "py_int (str ''250'') = Some 250" "py_int (str ''3'') = Some 3"
  "py_int (str ''2'') = Some 2" "py_int (str ''50'') = Some 50" "py_int (str ''50051'') = Some 50051"
  "py_int (str ''9100'') = Some 9100" "py_int (str ''64'') = Some 64" "py_int (str ''5'') = Some 5"
  "py_int (str ''128'') = Some 128" "py_int (str ''1'') = Some 1"
  by (simp_all add: py_int_def py_strip_def py_isspace_def str_def Let_def)

lemma documented_raw: "workers_raw documented_config = render_workers (configured_workers documented_config)"
  by (simp add: documented_config_def render_item_def str_def)

lemma documented_clean: "clean_workers (configured_workers documented_config)"
  by (simp add: documented_config_def clean_workers_def clean_text_def py_isspace_def str_def)

lemma load_defaults: "load_gateway_config (\<lambda>_. None) = Some documented_config"
proof -
  have raw: "parse_workers (workers_raw documented_config) = configured_workers documented_config"
    unfolding documented_raw by (rule parse_render_workers [OF documented_clean])
      (simp add: documented_config_def)
  have "load_gateway_config (\<lambda>_. None) =
      Some (post_init (documented_config\<lparr>configured_workers := []\<rparr>))"
    by (simp add: load_gateway_config_def getenv_int_unset getenv_unset py_int_literals documented_config_def)
  also have "post_init (documented_config\<lparr>configured_workers := []\<rparr>) = documented_config"
    using raw by (simp add: post_init_def documented_config_def)
  finally show ?thesis .
qed

lemma load_worker_defaults: "load_worker_config (\<lambda>_. None) = Some documented_worker_config"
  by (simp add: load_worker_config_def getenv_int_unset getenv_unset py_int_literals
      documented_worker_config_def)

end
