(* ===== verification/Json.thy ===== *)
theory Json
  imports Config
begin

text \<open>
  Python's \<open>json\<close> module, as far as the source relies on it: \<open>json.dumps\<close> with its defaults (the
  logger's lines, the benchmark's and the corpus's files, the failure scenario's requests) and
  \<open>json.loads\<close> (the same files read back, the bodies of requests). A number with a fraction or an
  exponent is a real; the text of a float, Python's \<open>repr\<close>, is the parameter \<open>float_repr\<close>. \<open>NaN\<close>,
  \<open>Infinity\<close> and \<open>-Infinity\<close>, which name no real number, are not modelled, nor is the interpreter's
  limit on nesting.
\<close>

section \<open>Values\<close>

datatype json =
    JNull
  | JBool bool
  | JInt int
  | JFloat pyfloat
  | JStr pystr
  | JArr "json list"
  | JObj "(pystr, json) dict"

section \<open>\<open>dumps\<close>\<close>

definition hex_digit :: "nat \<Rightarrow> codepoint" where
  "hex_digit n = (if n < 10 then 48 + n else 87 + n)"

definition hex4 :: "nat \<Rightarrow> pystr" where
  "hex4 n = map hex_digit [n div 4096 mod 16, n div 256 mod 16, n div 16 mod 16, n mod 16]"

text \<open>\<open>ensure_ascii\<close>: everything outside the printable ASCII characters is escaped.\<close>

definition escape :: "codepoint \<Rightarrow> pystr" where
  "escape c =
     (if c = 34 then [92, 34] else if c = 92 then [92, 92]
      else if c = 10 then [92, 110] else if c = 13 then [92, 114] else if c = 9 then [92, 116]
      else if c = 8 then [92, 98] else if c = 12 then [92, 102]
      else if 32 \<le> c \<and> c \<le> 126 then [c]
      else if c < 65536 then [92, 117] @ hex4 c
      else [92, 117] @ hex4 (55296 + (c - 65536) div 1024) @ [92, 117] @ hex4 (56320 + (c - 65536) mod 1024))"

definition dumps_str :: "pystr \<Rightarrow> pystr" where
  "dumps_str s = 34 # concat (map escape s) @ [34]"

definition int_repr :: "int \<Rightarrow> pystr" where
  "int_repr i = (if i < 0 then 45 # decimal (nat (- i)) else decimal (nat i))"

text \<open>\<open>", ".join(items)\<close>\<close>

fun join_items :: "pystr list \<Rightarrow> pystr" where
  "join_items [] = []"
| "join_items [x] = x"
| "join_items (x # y # xs) = x @ [44, 32] @ join_items (y # xs)"

fun dumps :: "(pyfloat \<Rightarrow> pystr) \<Rightarrow> json \<Rightarrow> pystr" where
  "dumps float_repr JNull = str ''null''"
| "dumps float_repr (JBool b) = (if b then str ''true'' else str ''false'')"
| "dumps float_repr (JInt i) = int_repr i"
| "dumps float_repr (JFloat x) = float_repr x"
| "dumps float_repr (JStr s) = dumps_str s"
| "dumps float_repr (JArr vs) = 91 # join_items (map (dumps float_repr) vs) @ [93]"
| "dumps float_repr (JObj d) =
     123 # join_items (map (\<lambda>(k, v). dumps_str k @ [58, 32] @ dumps float_repr v) d) @ [125]"

section \<open>\<open>loads\<close>\<close>

definition is_digit :: "codepoint \<Rightarrow> bool" where
  "is_digit c \<longleftrightarrow> 48 \<le> c \<and> c \<le> 57"

definition skip_ws :: "pystr \<Rightarrow> pystr" where
  "skip_ws s = dropWhile (\<lambda>c. c = 32 \<or> c = 9 \<or> c = 10 \<or> c = 13) s"

definition hex_value :: "codepoint \<Rightarrow> nat option" where
  "hex_value c =
     (if 48 \<le> c \<and> c \<le> 57 then Some (c - 48)
      else if 97 \<le> c \<and> c \<le> 102 then Some (c - 87)
      else if 65 \<le> c \<and> c \<le> 70 then Some (c - 55) else None)"

text \<open>The four digits of a \<open>\uXXXX\<close> escape, and a whole one that is a low surrogate.\<close>

fun take_u :: "pystr \<Rightarrow> (nat \<times> pystr) option" where
  "take_u (a # b # c # d # r) =
     (case (hex_value a, hex_value b, hex_value c, hex_value d) of
        (Some w, Some x, Some y, Some z) \<Rightarrow> Some (((w * 16 + x) * 16 + y) * 16 + z, r)
      | _ \<Rightarrow> None)"
| "take_u _ = None"

fun take_low :: "pystr \<Rightarrow> (nat \<times> pystr) option" where
  "take_low (a # b # s) =
     (if a = 92 \<and> b = 117
      then (case take_u s of
              Some (u, r) \<Rightarrow> if 56320 \<le> u \<and> u \<le> 57343 then Some (u, r) else None
            | None \<Rightarrow> None)
      else None)"
| "take_low _ = None"

definition unescape :: "codepoint \<Rightarrow> codepoint option" where
  "unescape e =
     map_of [(34, 34), (92, 92), (47, 47), (98, 8), (102, 12), (110, 10), (114, 13), (116, 9)] e"

lemma take_u_length: "take_u s = Some (u, r) \<Longrightarrow> length r < length s"
  by (induction s rule: take_u.induct) (auto split: option.splits)

lemma take_low_length: "take_low s = Some (u, r) \<Longrightarrow> length r < length s"
  by (induction s rule: take_low.induct) (auto split: option.splits if_splits dest: take_u_length)

text \<open>From behind the opening quote; \<open>strict\<close>, so a raw control character is an error.\<close>

function scan_string :: "pystr \<Rightarrow> (pystr \<times> pystr) option" where
  "scan_string [] = None"
| "scan_string (c # s) =
     (if c = 34 then Some ([], s)
      else if c = 92
      then (case s of
              [] \<Rightarrow> None
            | e # t \<Rightarrow>
                if e = 117
                then (case take_u t of
                        None \<Rightarrow> None
                      | Some (u, r) \<Rightarrow>
                          if 55296 \<le> u \<and> u \<le> 56319
                          then (case take_low r of
                                  Some (l, q) \<Rightarrow>
                                    map_option (apfst (Cons (65536 + (u - 55296) * 1024 + (l - 56320)))) (scan_string q)
                                | None \<Rightarrow> map_option (apfst (Cons u)) (scan_string r))
                          else map_option (apfst (Cons u)) (scan_string r))
                else (case unescape e of
                        None \<Rightarrow> None
                      | Some d \<Rightarrow> map_option (apfst (Cons d)) (scan_string t)))
      else if c < 32 then None
      else map_option (apfst (Cons c)) (scan_string s))"
  by pat_completeness auto
termination
  by (relation "measure length") (auto dest!: take_u_length take_low_length)

text \<open>
  A number: a minus, 0 or digits without a leading 0, then a fraction and an exponent where they are
  well formed. With neither it is an \<open>int\<close>, which \<open>int\<close> reads.
\<close>

definition digits_value :: "pystr \<Rightarrow> int" where
  "digits_value ds = fold (\<lambda>c a. 10 * a + (int c - 48)) ds 0"

definition scan_fraction :: "pystr \<Rightarrow> pystr \<times> pystr" where
  "scan_fraction s =
     (case s of
        [] \<Rightarrow> ([], s)
      | c # t \<Rightarrow> if c = 46 then (takeWhile is_digit t, if takeWhile is_digit t = [] then s else dropWhile is_digit t)
                 else ([], s))"

definition scan_exponent :: "pystr \<Rightarrow> int option \<times> pystr" where
  "scan_exponent s =
     (case s of
        [] \<Rightarrow> (None, s)
      | e # t \<Rightarrow>
          if e = 101 \<or> e = 69
          then (let (sign, u) = (case t of [] \<Rightarrow> (1, t) | c # r \<Rightarrow> if c = 45 then (- 1, r) else if c = 43 then (1, r) else (1, t));
                    ds = takeWhile is_digit u
                in if ds = [] then (None, s) else (Some (sign * digits_value ds), dropWhile is_digit u))
          else (None, s))"

definition float_value :: "bool \<Rightarrow> pystr \<Rightarrow> pystr \<Rightarrow> int \<Rightarrow> pyfloat" where
  "float_value neg ip fraction e =
     (if neg then - 1 else 1) * of_int (digits_value (ip @ fraction)) * 10 powi (e - int (length fraction))"

definition scan_number :: "pystr \<Rightarrow> (json \<times> pystr) option" where
  "scan_number s =
     (let (neg, t) = (case s of [] \<Rightarrow> (False, s) | c # r \<Rightarrow> if c = 45 then (True, r) else (False, s));
          ds = takeWhile is_digit t
      in case ds of
           [] \<Rightarrow> None
         | d # _ \<Rightarrow>
             (let ip = (if d = 48 then [48] else ds);
                  (fraction, u) = scan_fraction (drop (length ip) t);
                  (e, r) = scan_exponent u
              in if fraction = [] \<and> e = None
                 then map_option (\<lambda>i. (JInt (if neg then - i else i), r)) (py_int ip)
                 else Some (JFloat (float_value neg ip fraction (case e of None \<Rightarrow> 0 | Some k \<Rightarrow> k)), r)))"

text \<open>
  \<open>scan_once\<close>, \<open>JSONObject\<close> and \<open>JSONArray\<close>: two calls
  in a row are made on a shorter text, so a fuel above twice its length is enough (\<open>scan_fuel\<close>). A repeated key keeps its place and takes the last value, as in \<open>dict(pairs)\<close>.
\<close>

fun scan_value :: "nat \<Rightarrow> pystr \<Rightarrow> (json \<times> pystr) option"
and scan_elements :: "nat \<Rightarrow> pystr \<Rightarrow> json list \<Rightarrow> (json \<times> pystr) option"
and scan_members :: "nat \<Rightarrow> pystr \<Rightarrow> (pystr, json) dict \<Rightarrow> (json \<times> pystr) option" where
  "scan_value 0 s = None"
| "scan_value (Suc n) s =
     (case s of
        [] \<Rightarrow> None
      | c # t \<Rightarrow>
          if c = 34 then map_option (apfst JStr) (scan_string t)
          else if c = 123
          then (case skip_ws t of
                  [] \<Rightarrow> None
                | d # r \<Rightarrow> if d = 125 then Some (JObj [], r) else scan_members n (d # r) [])
          else if c = 91
          then (case skip_ws t of
                  [] \<Rightarrow> None
                | d # r \<Rightarrow> if d = 93 then Some (JArr [], r) else scan_elements n (d # r) [])
          else if prefix (str ''null'') s then Some (JNull, drop 4 s)
          else if prefix (str ''true'') s then Some (JBool True, drop 4 s)
          else if prefix (str ''false'') s then Some (JBool False, drop 5 s)
          else scan_number s)"
| "scan_elements 0 s acc = None"
| "scan_elements (Suc n) s acc =
     (case scan_value n s of
        None \<Rightarrow> None
      | Some (v, r) \<Rightarrow>
          (case skip_ws r of
             [] \<Rightarrow> None
           | d # q \<Rightarrow>
               if d = 93 then Some (JArr (acc @ [v]), q)
               else if d = 44 then scan_elements n (skip_ws q) (acc @ [v]) else None))"
| "scan_members 0 s acc = None"
| "scan_members (Suc n) s acc =
     (case s of
        [] \<Rightarrow> None
      | c # t \<Rightarrow>
          if c \<noteq> 34 then None
          else (case scan_string t of
             None \<Rightarrow> None
           | Some (k, r) \<Rightarrow>
               (case skip_ws r of
                  [] \<Rightarrow> None
                | d # q \<Rightarrow>
                    if d \<noteq> 58 then None
                    else (case scan_value n (skip_ws q) of
                       None \<Rightarrow> None
                     | Some (v, p) \<Rightarrow>
                         (case skip_ws p of
                            [] \<Rightarrow> None
                          | e # w \<Rightarrow>
                              if e = 125 then Some (JObj (AList.update k v acc), w)
                              else if e = 44 then scan_members n (skip_ws w) (AList.update k v acc)
                              else None)))))"

text \<open>White space, one value, white space, the end; a byte order mark is an error.\<close>

definition loads :: "pystr \<Rightarrow> json option" where
  "loads s =
     (if take 1 s = [65279] then None
      else case scan_value (Suc (2 * length s)) (skip_ws s) of
          None \<Rightarrow> None
        | Some (v, r) \<Rightarrow> if skip_ws r = [] then Some v else None)"

section \<open>Strings read back\<close>

lemma hex_value_digit [simp]: "n < 16 \<Longrightarrow> hex_value (hex_digit n) = Some n"
  by (simp add: hex_value_def hex_digit_def)

lemma take_u_hex4 [simp]: "n < 65536 \<Longrightarrow> take_u (hex4 n @ r) = Some (n, r)"
proof -
  assume "n < 65536"
  then have "n div 4096 < 16" by simp
  moreover have "((n div 4096 * 16 + n div 256 mod 16) * 16 + n div 16 mod 16) * 16 + n mod 16 = n"
  proof -
    have "n div 4096 * 16 + n div 256 mod 16 = n div 256" "n div 256 * 16 + n div 16 mod 16 = n div 16"
      "n div 16 * 16 + n mod 16 = n"
      using div_mult_mod_eq [of "n div 256" 16] div_mult_mod_eq [of "n div 16" 16] by (simp_all add: div_mult2_eq [symmetric])
    then show ?thesis by simp
  qed
  ultimately show ?thesis by (simp add: hex4_def)
qed

definition low_surrogate :: "codepoint \<Rightarrow> bool" where
  "low_surrogate c \<longleftrightarrow> 56320 \<le> c \<and> c \<le> 57343"

definition high_surrogate :: "codepoint \<Rightarrow> bool" where
  "high_surrogate c \<longleftrightarrow> 55296 \<le> c \<and> c \<le> 56319"

text \<open>A high surrogate in front of a low one is read back as one character.\<close>

fun unpaired :: "pystr \<Rightarrow> bool" where
  "unpaired [] \<longleftrightarrow> True"
| "unpaired [c] \<longleftrightarrow> c < 1114112"
| "unpaired (c # d # s) \<longleftrightarrow> c < 1114112 \<and> \<not> (high_surrogate c \<and> low_surrogate d) \<and> unpaired (d # s)"

lemma unpaired_Cons:
  "unpaired (c # s) \<longleftrightarrow> c < 1114112 \<and> (high_surrogate c \<longrightarrow> s = [] \<or> \<not> low_surrogate (hd s)) \<and> unpaired s"
  by (cases s) auto

lemma take_low_Cons: "a \<noteq> 92 \<Longrightarrow> take_low (a # s) = None"
  by (cases s) simp_all

lemma escape_cases:
  obtains "c \<in> {34, 92, 10, 13, 9, 8, 12}"
    | "32 \<le> c" "c \<le> 126" "c \<noteq> 34" "c \<noteq> 92" "escape c = [c]"
    | "c < 65536" "escape c = [92, 117] @ hex4 c"
    | "65536 \<le> c" "escape c = [92, 117] @ hex4 (55296 + (c - 65536) div 1024) @ [92, 117] @ hex4 (56320 + (c - 65536) mod 1024)"
  by (cases "c \<in> {34, 92, 10, 13, 9, 8, 12}"; cases "32 \<le> c \<and> c \<le> 126"; cases "c < 65536")
    (auto simp: escape_def)

lemma take_low_escape:
  assumes "\<not> low_surrogate c" "c < 1114112"
  shows "take_low (escape c @ s) = None"
proof (cases rule: escape_cases [of c])
  case 1
  then show ?thesis by (auto simp: escape_def)
next
  case 2
  then show ?thesis by (simp add: take_low_Cons)
next
  case 3
  with assms show ?thesis by (auto simp: low_surrogate_def)
next
  case 4
  with assms have "55296 + (c - 65536) div 1024 \<le> 56319" by simp
  with 4 show ?thesis by simp
qed

text \<open>One character, in front of a text that does not complete a surrogate pair.\<close>

lemma scan_escape:
  assumes "c < 1114112" "high_surrogate c \<longrightarrow> take_low s = None"
  shows "scan_string (escape c @ s) = map_option (apfst (Cons c)) (scan_string s)"
proof (cases rule: escape_cases [of c])
  case 1
  then show ?thesis by (auto simp: escape_def unescape_def)
next
  case 2
  then show ?thesis by simp
next
  case 3
  with assms show ?thesis by (auto simp: high_surrogate_def)
next
  case 4
  let ?d = "c - 65536"
  have "?d div 1024 \<le> 1023" "?d mod 1024 \<le> 1023" using assms(1) by auto
  moreover have "65536 + (?d div 1024 * 1024 + ?d mod 1024) = c" using 4(1) by simp
  ultimately show ?thesis using 4 by simp
qed

lemma scan_escapes:
  "unpaired s \<Longrightarrow> scan_string (concat (map escape s) @ 34 # rest) = Some (s, rest)"
proof (induction s)
  case (Cons c s)
  then have c: "c < 1114112" "high_surrogate c \<longrightarrow> s = [] \<or> \<not> low_surrogate (hd s)" "unpaired s"
    by (auto simp: unpaired_Cons)
  have "high_surrogate c \<longrightarrow> take_low (concat (map escape s) @ 34 # rest) = None"
  proof (cases s)
    case Nil
    then show ?thesis by (simp add: take_low_Cons)
  next
    case (Cons d t)
    with c show ?thesis by (auto simp: unpaired_Cons take_low_escape)
  qed
  with Cons.IH c show ?case by (simp add: scan_escape)
qed simp

section \<open>Numbers read back\<close>

text \<open>What follows a value in a document does not go on as a number.\<close>

definition stops :: "pystr \<Rightarrow> bool" where
  "stops s \<longleftrightarrow> (case s of [] \<Rightarrow> True | c # _ \<Rightarrow> \<not> is_digit c \<and> c \<notin> {46, 101, 69})"

lemma takeWhile_digits:
  "list_all is_digit ds \<Longrightarrow> stops rest \<Longrightarrow> takeWhile is_digit (ds @ rest) = ds \<and> dropWhile is_digit (ds @ rest) = rest"
  by (induction ds) (auto simp: stops_def split: list.splits)

lemma decimal_is_digit: "list_all is_digit (decimal n)"
  by (auto simp: list_all_iff is_digit_def dest: decimal_digits)

lemma decimal_zero: "decimal 0 = [48]"
  by (simp add: decimal.simps)

lemma decimal_hd: "0 < n \<Longrightarrow> hd (decimal n) \<noteq> 48"
proof (induction n rule: decimal.induct)
  case (1 n)
  show ?case
  proof (cases "n < 10")
    case True
    with "1.prems" show ?thesis by (simp add: decimal.simps [of n])
  next
    case False
    with 1 show ?thesis by (simp add: decimal.simps [of n])
  qed
qed

lemma scan_fraction_stops: "stops s \<Longrightarrow> scan_fraction s = ([], s)"
  by (auto simp: scan_fraction_def stops_def split: list.splits)

lemma scan_exponent_stops: "stops s \<Longrightarrow> scan_exponent s = (None, s)"
  by (auto simp: scan_exponent_def stops_def split: list.splits)

lemma scan_decimal:
  assumes "stops rest" "length (decimal n) \<le> 4300"
  shows "scan_number (decimal n @ rest) = Some (JInt (int n), rest)"
    "scan_number (45 # decimal n @ rest) = Some (JInt (- int n), rest)"
proof -
  obtain d ds where d: "decimal n = d # ds" by (cases "decimal n") auto
  have digits: "is_digit d" "list_all is_digit ds"
    using decimal_is_digit [of n] d by simp_all
  have zero: "d = 48 \<Longrightarrow> ds = []"
    using decimal_hd [of n] d by (cases "n = 0") (auto simp: decimal_zero)
  have "d \<noteq> 45" using digits(1) by (auto simp: is_digit_def)
  with digits zero takeWhile_digits [OF digits(2) assms(1)] py_int_decimal [OF assms(2)] assms(1)
  show "scan_number (decimal n @ rest) = Some (JInt (int n), rest)"
    "scan_number (45 # decimal n @ rest) = Some (JInt (- int n), rest)"
    by (auto simp: d scan_number_def Let_def scan_fraction_stops scan_exponent_stops)
qed

lemma scan_int_repr:
  "stops rest \<Longrightarrow> length (int_repr i) \<le> 4300 \<Longrightarrow> scan_number (int_repr i @ rest) = Some (JInt i, rest)"
  using scan_decimal [of rest "nat i"] scan_decimal [of rest "nat (- i)"] by (auto simp: int_repr_def)

section \<open>Documents read back\<close>

text \<open>
  The values \<open>dumps\<close> writes so that \<open>loads\<close> reads them back: no surrogate pairs in two halves, integers
  within the interpreter's limit, keys distinct, and floats whose text \<open>float_repr\<close> gives is a number
  literal for them.
\<close>

definition float_text :: "(pyfloat \<Rightarrow> pystr) \<Rightarrow> pyfloat \<Rightarrow> bool" where
  "float_text float_repr x \<longleftrightarrow>
     (\<forall>rest. stops rest \<longrightarrow> scan_number (float_repr x @ rest) = Some (JFloat x, rest))"

fun readable :: "(pyfloat \<Rightarrow> pystr) \<Rightarrow> json \<Rightarrow> bool" where
  "readable float_repr JNull \<longleftrightarrow> True"
| "readable float_repr (JBool b) \<longleftrightarrow> True"
| "readable float_repr (JInt i) \<longleftrightarrow> length (int_repr i) \<le> 4300"
| "readable float_repr (JFloat x) \<longleftrightarrow> float_text float_repr x"
| "readable float_repr (JStr s) \<longleftrightarrow> unpaired s"
| "readable float_repr (JArr vs) \<longleftrightarrow> (\<forall>v \<in> set vs. readable float_repr v)"
| "readable float_repr (JObj d) \<longleftrightarrow>
     distinct (map fst d) \<and> (\<forall>(k, v) \<in> set d. unpaired k \<and> readable float_repr v)"

lemma scan_number_hd: "scan_number s = Some y \<Longrightarrow> \<exists>c t. s = c # t \<and> (c = 45 \<or> is_digit c)"
  by (cases s) (auto simp: scan_number_def Let_def split: if_splits)

lemma scan_value_number: "scan_number s = Some y \<Longrightarrow> scan_value (Suc n) s = Some y"
  using scan_number_hd [of s y] by (auto simp: is_digit_def str_def prefix_def)

lemma skip_ws_id: "s \<noteq> [] \<Longrightarrow> hd s \<notin> {32, 9, 10, 13} \<Longrightarrow> skip_ws s = s"
  by (cases s) (auto simp: skip_ws_def)

lemma skip_ws_simps [simp]: "skip_ws [] = []" "skip_ws (32 # s) = skip_ws s"
  by (simp_all add: skip_ws_def)

lemma dumps_hd:
  assumes "readable float_repr j"
  shows "dumps float_repr j \<noteq> []" "hd (dumps float_repr j) \<notin> {32, 9, 10, 13, 93, 125, 65279}"
proof -
  have "dumps float_repr j \<noteq> [] \<and> hd (dumps float_repr j) \<notin> {32, 9, 10, 13, 93, 125, 65279}"
  proof (cases j)
    case (JInt i)
    then have "scan_number (int_repr i) = Some (JInt i, [])"
      using assms scan_int_repr [of "[]" i] by (simp add: stops_def)
    from scan_number_hd [OF this] JInt show ?thesis by (auto simp: is_digit_def)
  next
    case (JFloat x)
    then have "scan_number (float_repr x) = Some (JFloat x, [])"
      using assms by (auto simp: float_text_def stops_def dest: spec [of _ "[]"])
    from scan_number_hd [OF this] JFloat show ?thesis by (auto simp: is_digit_def)
  qed (auto simp: str_def dumps_str_def)
  then show "dumps float_repr j \<noteq> []" "hd (dumps float_repr j) \<notin> {32, 9, 10, 13, 93, 125, 65279}" by blast+
qed

lemma skip_ws_dumps: "readable float_repr j \<Longrightarrow> skip_ws (dumps float_repr j @ s) = dumps float_repr j @ s"
  using dumps_hd [of float_repr j] by (intro skip_ws_id) auto

definition reads_as :: "(pyfloat \<Rightarrow> pystr) \<Rightarrow> json \<Rightarrow> bool" where
  "reads_as float_repr v \<longleftrightarrow>
     (\<forall>n rest. stops rest \<longrightarrow> 2 * length (dumps float_repr v @ rest) < n \<longrightarrow>
        scan_value n (dumps float_repr v @ rest) = Some (v, rest))"

lemma reads_asD:
  "reads_as float_repr v \<Longrightarrow> stops rest \<Longrightarrow> 2 * length (dumps float_repr v @ rest) < n \<Longrightarrow>
     scan_value n (dumps float_repr v @ rest) = Some (v, rest)"
  by (simp add: reads_as_def)

lemma stops_punct: "c \<in> {44, 93, 125} \<Longrightarrow> stops (c # s)"
  by (auto simp: stops_def is_digit_def)

lemma scan_elements_dumps:
  "vs \<noteq> [] \<Longrightarrow> \<forall>v \<in> set vs. readable float_repr v \<and> reads_as float_repr v \<Longrightarrow>
     Suc (2 * length (join_items (map (dumps float_repr) vs) @ 93 # rest)) < n \<Longrightarrow>
     scan_elements n (join_items (map (dumps float_repr) vs) @ 93 # rest) acc = Some (JArr (acc @ vs), rest)"
proof (induction vs arbitrary: n acc rule: list_nonempty_induct)
  case (single v)
  then obtain m where n: "n = Suc m" by (cases n) auto
  with single have "scan_value m (dumps float_repr v @ 93 # rest) = Some (v, 93 # rest)"
    by (intro reads_asD) (auto simp: stops_punct)
  then show ?case by (simp add: n skip_ws_id)
next
  case (cons v vs)
  then obtain m where n: "n = Suc m" by (cases n) auto
  obtain w ws where vs: "vs = w # ws" using cons.hyps by (cases vs) auto
  let ?rest = "44 # 32 # join_items (map (dumps float_repr) vs) @ 93 # rest"
  have "scan_value m (dumps float_repr v @ ?rest) = Some (v, ?rest)"
    using cons.prems by (intro reads_asD) (auto simp: stops_punct n vs)
  moreover have "skip_ws (join_items (map (dumps float_repr) vs) @ 93 # rest) = join_items (map (dumps float_repr) vs) @ 93 # rest"
    using cons.prems skip_ws_dumps [of float_repr w] by (cases ws) (auto simp: vs)
  moreover have "scan_elements m (join_items (map (dumps float_repr) vs) @ 93 # rest) (acc @ [v]) = Some (JArr ((acc @ [v]) @ vs), rest)"
    using cons.prems by (intro cons.IH) (auto simp: n vs)
  ultimately show ?case by (simp add: n vs skip_ws_id)
qed

abbreviation member_text :: "(pyfloat \<Rightarrow> pystr) \<Rightarrow> pystr \<times> json \<Rightarrow> pystr" where
  "member_text float_repr kv \<equiv> (case kv of (k, v) \<Rightarrow> dumps_str k @ [58, 32] @ dumps float_repr v)"

lemma scan_key: "unpaired k \<Longrightarrow> \<exists>s. dumps_str k = 34 # s \<and> (\<forall>rest. scan_string (s @ rest) = Some (k, rest))"
  by (simp add: dumps_str_def scan_escapes)

lemma scan_members_dumps:
  "d \<noteq> [] \<Longrightarrow> \<forall>(k, v) \<in> set d. unpaired k \<and> readable float_repr v \<and> reads_as float_repr v \<Longrightarrow>
     distinct (map fst (acc @ d)) \<Longrightarrow>
     Suc (2 * length (join_items (map (member_text float_repr) d) @ 125 # rest)) < n \<Longrightarrow>
     scan_members n (join_items (map (member_text float_repr) d) @ 125 # rest) acc = Some (JObj (acc @ d), rest)"
proof (induction d arbitrary: n acc rule: list_nonempty_induct)
  case (single kv)
  obtain k v where kv: "kv = (k, v)" by (cases kv)
  obtain m where n: "n = Suc m" using single.prems by (cases n) auto
  obtain s where s: "dumps_str k = 34 # s" "\<And>rest. scan_string (s @ rest) = Some (k, rest)"
    using scan_key [of k] single.prems kv by auto
  have "scan_value m (dumps float_repr v @ 125 # rest) = Some (v, 125 # rest)"
    using single.prems by (intro reads_asD) (auto simp: stops_punct n kv)
  moreover have "skip_ws (dumps float_repr v @ 125 # rest) = dumps float_repr v @ 125 # rest"
    using single.prems by (intro skip_ws_dumps) (auto simp: kv)
  ultimately show ?case using single.prems by (simp add: n kv s skip_ws_id update_new)
next
  case (cons kv d)
  obtain k v where kv: "kv = (k, v)" by (cases kv)
  obtain m where n: "n = Suc m" using cons.prems by (cases n) auto
  obtain k' v' d' where d: "d = (k', v') # d'" using cons.hyps by (cases d) auto
  obtain s where s: "dumps_str k = 34 # s" "\<And>rest. scan_string (s @ rest) = Some (k, rest)"
    using scan_key [of k] cons.prems kv by auto
  let ?more = "join_items (map (member_text float_repr) d) @ 125 # rest"
  have "scan_value m (dumps float_repr v @ 44 # 32 # ?more) = Some (v, 44 # 32 # ?more)"
    using cons.prems by (intro reads_asD) (auto simp: stops_punct n kv d)
  moreover have "skip_ws (dumps float_repr v @ 44 # 32 # ?more) = dumps float_repr v @ 44 # 32 # ?more"
    using cons.prems by (intro skip_ws_dumps) (auto simp: kv)
  moreover have "skip_ws ?more = ?more"
    by (cases d') (auto simp: d dumps_str_def skip_ws_id)
  moreover have "scan_members m ?more (acc @ [(k, v)]) = Some (JObj ((acc @ [(k, v)]) @ d), rest)"
    using cons.prems by (intro cons.IH) (auto simp: n kv d)
  ultimately show ?case using cons.prems by (simp add: n kv d s skip_ws_id update_new)
qed

lemma join_items_hd: "x \<noteq> [] \<Longrightarrow> \<exists>t. join_items (x # xs) = hd x # t"
  by (cases xs; cases x) auto

lemma scan_dumps: "readable float_repr j \<Longrightarrow> reads_as float_repr j"
proof (induction float_repr j rule: dumps.induct)
  case (3 float_repr i)
  then show ?case
    by (auto simp: reads_as_def gr0_conv_Suc intro!: scan_value_number scan_int_repr dest!: less_imp_Suc_add)
next
  case (4 float_repr x)
  then show ?case
    by (auto simp: reads_as_def float_text_def gr0_conv_Suc intro!: scan_value_number dest!: less_imp_Suc_add)
next
  case (5 float_repr s)
  then show ?case
    by (auto simp: reads_as_def dumps_str_def scan_escapes dest!: less_imp_Suc_add)
next
  case (6 float_repr vs)
  show ?case
  proof (cases vs)
    case Nil
    then show ?thesis by (auto simp: reads_as_def skip_ws_id dest!: less_imp_Suc_add)
  next
    case (Cons v ws)
    with 6 have vs: "vs \<noteq> []" "\<forall>v \<in> set vs. readable float_repr v \<and> reads_as float_repr v" by auto
    obtain c t where c: "join_items (map (dumps float_repr) vs) = c # t" "c \<notin> {32, 9, 10, 13, 93}"
      using join_items_hd [of "dumps float_repr v" "map (dumps float_repr) ws"] dumps_hd [of float_repr v] vs Cons by auto
    show ?thesis unfolding reads_as_def
    proof (intro allI impI)
      fix n rest
      assume "2 * length (dumps float_repr (JArr vs) @ rest) < n"
      then obtain m where n: "n = Suc m" "Suc (2 * length (join_items (map (dumps float_repr) vs) @ 93 # rest)) < m"
        by (cases n) auto
      from scan_elements_dumps [OF vs n(2), of "[]"] c
      show "scan_value n (dumps float_repr (JArr vs) @ rest) = Some (JArr vs, rest)"
        by (simp add: n(1) skip_ws_id)
    qed
  qed
next
  case (7 float_repr d)
  show ?case
  proof (cases d)
    case Nil
    then show ?thesis by (auto simp: reads_as_def skip_ws_id dest!: less_imp_Suc_add)
  next
    case (Cons kv ws)
    from 7 have d: "\<forall>(k, v) \<in> set d. unpaired k \<and> readable float_repr v \<and> reads_as float_repr v" "distinct (map fst ([] @ d))"
      by auto
    have "d \<noteq> []" using Cons by simp
    obtain t where c: "join_items (map (member_text float_repr) d) = 34 # t"
      using join_items_hd [of "member_text float_repr kv" "map (member_text float_repr) ws"] Cons
      by (cases kv) (auto simp: dumps_str_def)
    show ?thesis unfolding reads_as_def
    proof (intro allI impI)
      fix n rest
      assume "2 * length (dumps float_repr (JObj d) @ rest) < n"
      then obtain m where n: "n = Suc m" "Suc (2 * length (join_items (map (member_text float_repr) d) @ 125 # rest)) < m"
        by (cases n) auto
      from scan_members_dumps [OF \<open>d \<noteq> []\<close> d n(2)] c
      show "scan_value n (dumps float_repr (JObj d) @ rest) = Some (JObj d, rest)"
        by (simp add: n(1) skip_ws_id)
    qed
  qed
next
  case (2 float_repr b)
  show ?case unfolding reads_as_def
  proof (intro allI impI)
    fix n rest
    assume "2 * length (dumps float_repr (JBool b) @ rest) < n"
    then obtain m where "n = Suc m" by (cases n) auto
    then show "scan_value n (dumps float_repr (JBool b) @ rest) = Some (JBool b, rest)"
      by (simp add: str_def)
  qed
qed (auto simp: reads_as_def str_def prefix_def dest!: less_imp_Suc_add)

text \<open>White space after the document, such as the newline that ends a line of a file, is skipped.\<close>

lemma loads_dumps:
  assumes "readable float_repr j" "skip_ws s = []"
  shows "loads (dumps float_repr j @ s) = Some j"
proof -
  have "stops s" using assms(2) by (cases s) (auto simp: skip_ws_def stops_def is_digit_def split: if_splits)
  then have "scan_value (Suc (2 * length (dumps float_repr j @ s))) (dumps float_repr j @ s) = Some (j, s)"
    using scan_dumps [OF assms(1)] by (intro reads_asD) auto
  moreover have "take 1 (dumps float_repr j @ s) \<noteq> [65279]"
    using dumps_hd [OF assms(1)] by (cases "dumps float_repr j") auto
  ultimately show ?thesis using assms by (simp add: loads_def skip_ws_dumps)
qed

section \<open>The output is printable ASCII\<close>

definition printable :: "pystr \<Rightarrow> bool" where
  "printable s \<longleftrightarrow> list_all (\<lambda>c. 32 \<le> c \<and> c \<le> 126) s"

lemma printable_simps [simp]:
  "printable []" "printable (c # s) \<longleftrightarrow> 32 \<le> c \<and> c \<le> 126 \<and> printable s"
  "printable (s @ t) \<longleftrightarrow> printable s \<and> printable t"
  by (auto simp: printable_def)

lemma printable_hex4: "printable (hex4 n)"
  by (auto simp: hex4_def hex_digit_def)

lemma printable_escape: "printable (escape c)"
  by (simp add: escape_def printable_hex4)

lemma printable_dumps_str: "printable (dumps_str s)"
  by (induction s) (auto simp: dumps_str_def printable_escape)

lemma printable_int_repr: "printable (int_repr i)"
  by (auto simp: int_repr_def printable_def list_all_iff dest: decimal_digits)

lemma printable_join: "\<forall>x \<in> set xs. printable x \<Longrightarrow> printable (join_items xs)"
  by (induction xs rule: join_items.induct) auto

fun floats :: "json \<Rightarrow> pyfloat set" where
  "floats (JFloat x) = {x}"
| "floats (JArr vs) = (\<Union>v \<in> set vs. floats v)"
| "floats (JObj d) = (\<Union>(k, v) \<in> set d. floats v)"
| "floats _ = {}"

lemma printable_dumps: "\<forall>x \<in> floats j. printable (float_repr x) \<Longrightarrow> printable (dumps float_repr j)"
proof (induction float_repr j rule: dumps.induct)
  case (6 float_repr vs)
  then show ?case by (auto intro!: printable_join)
next
  case (7 float_repr d)
  then show ?case by (force intro!: printable_join simp: printable_dumps_str)
qed (auto simp: str_def printable_int_repr printable_dumps_str)

section \<open>The fuel is enough\<close>

lemma skip_ws_length: "length (skip_ws s) \<le> length s"
  by (simp add: skip_ws_def length_dropWhile_le)

lemma scan_string_length: "scan_string s = Some (t, r) \<Longrightarrow> length r < length s"
proof (induction s arbitrary: t rule: measure_induct_rule [of length])
  case (less s)
  have IH: "scan_string s' = Some (t', r) \<Longrightarrow> length s' < length s \<longrightarrow> length r < length s'" for s' t'
    using less.IH by blast
  show ?case
    using less.prems by (cases s) (auto split: if_splits option.splits list.splits dest!: take_u_length take_low_length IH)
qed

lemma scan_fraction_length: "scan_fraction s = (f, r) \<Longrightarrow> length r \<le> length s"
  using length_dropWhile_le [of is_digit "tl s"]
  by (auto simp: scan_fraction_def split: list.splits if_splits)

lemma scan_exponent_length: "scan_exponent s = (e, r) \<Longrightarrow> length r \<le> length s"
proof -
  assume e: "scan_exponent s = (e, r)"
  have "length (dropWhile is_digit u) \<le> length u" for u by (rule length_dropWhile_le)
  note d = this this [THEN le_trans]
  from e show ?thesis
    by (auto simp: scan_exponent_def Let_def intro: le_SucI d split: list.splits if_splits)
qed

lemma scan_number_length: "scan_number s = Some (v, r) \<Longrightarrow> length r < length s"
proof -
  assume n: "scan_number s = Some (v, r)"
  have "takeWhile is_digit u = d # ds \<Longrightarrow> u \<noteq> [] \<and> length (drop (length (if d = 48 then [48] else d # ds)) u) < length u"
    for u d ds by (cases u) auto
  with n show ?thesis
    by (fastforce simp: scan_number_def Let_def split: list.splits if_splits prod.splits
        dest!: scan_fraction_length scan_exponent_length)
qed

lemma skip_ws_Cons: "skip_ws s = c # t \<Longrightarrow> length t < length s"
  using skip_ws_length [of s] by simp

lemma skip_ws_less: "n < length (skip_ws s) \<Longrightarrow> n < length s"
  using skip_ws_length [of s] by simp

lemma scan_length:
  "scan_value n s = Some (v, r) \<Longrightarrow> length r < length s"
  "scan_elements n s vs = Some (v, r) \<Longrightarrow> length r < length s"
  "scan_members n s d = Some (v, r) \<Longrightarrow> length r < length s"
proof (induction n arbitrary: s v r vs d)
  case (Suc n)
  {
    case 1
    then show ?case
      by (auto split: list.splits if_splits dest!: skip_ws_Cons Suc.IH scan_string_length scan_number_length)
  next
    case 2
    then show ?case
      by (auto split: list.splits if_splits option.splits dest!: skip_ws_Cons Suc.IH)
        (drule skip_ws_less, simp)
  next
    case 3
    then show ?case
      by (auto split: list.splits if_splits option.splits dest!: skip_ws_Cons Suc.IH scan_string_length)
        (drule skip_ws_less, (drule skip_ws_less)?, simp)+
  }
qed simp_all

lemma scan_fuel:
  "2 * length s < n \<Longrightarrow> 2 * length s < m \<Longrightarrow> scan_value n s = scan_value m s"
  "Suc (2 * length s) < n \<Longrightarrow> Suc (2 * length s) < m \<Longrightarrow> scan_elements n s vs = scan_elements m s vs"
  "Suc (2 * length s) < n \<Longrightarrow> Suc (2 * length s) < m \<Longrightarrow> scan_members n s d = scan_members m s d"
proof (induction n arbitrary: m s vs d)
  case (Suc n)
  {
    case 1
    then obtain k where m: "m = Suc k" by (cases m) auto
    have "scan_members n (c # r) [] = scan_members k (c # r) []" "scan_elements n (c # r) [] = scan_elements k (c # r) []"
      if "s = a # t" "skip_ws t = c # r" for a t c r
      using that 1 skip_ws_Cons [OF that(2)] by (intro Suc.IH; simp add: m)+
    then show ?case by (simp add: m split: list.splits)
  next
    case 2
    then obtain k where m: "m = Suc k" by (cases m) auto
    have v: "scan_value n s = scan_value k s" using 2 by (intro Suc.IH) (simp_all add: m)
    have "scan_elements n (skip_ws q) (vs @ [v]) = scan_elements k (skip_ws q) (vs @ [v])"
      if "scan_value k s = Some (v, r)" "skip_ws r = c # q" for v r c q
      using 2 scan_length(1) [OF that(1)] skip_ws_Cons [OF that(2)] skip_ws_length [of q]
      by (intro Suc.IH) (simp_all add: m)
    then show ?case by (simp add: m v split: option.splits list.splits)
  next
    case 3
    then obtain k where m: "m = Suc k" by (cases m) auto
    have v: "scan_value n (skip_ws q) = scan_value k (skip_ws q)"
      if "s = a # t" "scan_string t = Some (key, r)" "skip_ws r = c # q" for a t key r c q
      using that 3 scan_string_length [OF that(2)] skip_ws_Cons [OF that(3)] skip_ws_length [of q]
      by (intro Suc.IH) (simp_all add: m)
    moreover have "scan_members n (skip_ws w) d' = scan_members k (skip_ws w) d'"
      if "s = a # t" "scan_string t = Some (key, r)" "skip_ws r = c # q" "scan_value k (skip_ws q) = Some (v, p)"
        "skip_ws p = e # w" for a t key r c q v p e w d'
      using that 3 scan_string_length [OF that(2)] skip_ws_Cons [OF that(3)] skip_ws_length [of q]
        scan_length(1) [OF that(4)] skip_ws_Cons [OF that(5)] skip_ws_length [of w]
      by (intro Suc.IH) (simp_all add: m)
    ultimately show ?case by (simp add: m split: option.splits list.splits)
  }
qed simp_all

lemma loads_fuel:
  assumes "2 * length s < n"
  shows "loads s =
     (if take 1 s = [65279] then None
      else case scan_value n (skip_ws s) of
          None \<Rightarrow> None
        | Some (v, r) \<Rightarrow> if skip_ws r = [] then Some v else None)"
  using assms skip_ws_length [of s] scan_fuel(1) [of "skip_ws s" "Suc (2 * length s)" n]
  by (simp add: loads_def)

section \<open>Floats with two decimals\<close>

text \<open>Python's text for a multiple of 1/100 (below \<open>10 ^ 16\<close>, where it changes to an exponent).\<close>

definition cents_text :: "nat \<Rightarrow> pystr" where
  "cents_text k =
     decimal (k div 100) @ 46 # (if k mod 10 = 0 then [48 + k mod 100 div 10] else [48 + k mod 100 div 10, 48 + k mod 10])"

definition cents_repr :: "pyfloat \<Rightarrow> pystr" where
  "cents_repr x =
     (let k = \<lfloor>x * 100\<rfloor> in if k < 0 then 45 # cents_text (nat (- k)) else cents_text (nat k))"

lemma digits_value_decimal: "digits_value (decimal n @ ds) = fold (\<lambda>c a. 10 * a + (int c - 48)) ds (int n)"
  using fold_decimal [of n 0] by (simp add: digits_value_def)

lemma scan_number_fraction:
  assumes "list_all is_digit fs" "fs \<noteq> []" "stops rest"
  shows "scan_number (decimal n @ 46 # fs @ rest) = Some (JFloat (float_value False (decimal n) fs 0), rest)"
    "scan_number (45 # decimal n @ 46 # fs @ rest) = Some (JFloat (float_value True (decimal n) fs 0), rest)"
proof -
  obtain d ds where d: "decimal n = d # ds" by (cases "decimal n") auto
  have digits: "is_digit d" "list_all is_digit ds" using decimal_is_digit [of n] d by simp_all
  have zero: "d = 48 \<Longrightarrow> ds = []"
    using decimal_hd [of n] d by (cases "n = 0") (auto simp: decimal_zero)
  have int_part: "takeWhile is_digit (ds @ 46 # fs @ rest) = ds"
    using digits(2) by (induction ds) (auto simp: is_digit_def)
  have "scan_fraction (46 # fs @ rest) = (fs, rest)"
    using takeWhile_digits [OF assms(1,3)] assms(2) by (simp add: scan_fraction_def)
  moreover have "d \<noteq> 45" using digits(1) by (auto simp: is_digit_def)
  ultimately show "scan_number (decimal n @ 46 # fs @ rest) = Some (JFloat (float_value False (decimal n) fs 0), rest)"
    "scan_number (45 # decimal n @ 46 # fs @ rest) = Some (JFloat (float_value True (decimal n) fs 0), rest)"
    using digits zero int_part assms
    by (auto simp: d scan_number_def Let_def scan_exponent_stops)
qed

lemma nat_cents: "k = k div 100 * 100 + k mod 100 div 10 * 10 + k mod 10" for k :: nat
proof -
  have "k mod 100 mod 10 = k mod 10" by (rule mod_mod_cancel) simp
  then have "k mod 100 = k mod 100 div 10 * 10 + k mod 10" using div_mult_mod_eq [of "k mod 100" 10] by simp
  then show ?thesis using div_mult_mod_eq [of k 100] by linarith
qed

lemma real_cents: "real k = real (k div 100) * 100 + real (k mod 100 div 10) * 10 + real (k mod 10)"
  using arg_cong [OF nat_cents [of k], of real] by simp

lemma tenths_value:
  "float_value neg (decimal n) [48 + q] 0 = (if neg then - 1 else 1) * ((real n * 10 + real q) / 10)"
  by (simp add: float_value_def digits_value_decimal power_int_def field_simps)

lemma hundredths_value:
  "float_value neg (decimal n) [48 + q, 48 + r] 0
     = (if neg then - 1 else 1) * ((real n * 100 + real q * 10 + real r) / 100)"
  by (simp add: float_value_def digits_value_decimal power_int_def field_simps)

lemma scan_cents:
  assumes "stops rest"
  shows "scan_number (cents_text k @ rest) = Some (JFloat (real k / 100), rest)"
    "scan_number (45 # cents_text k @ rest) = Some (JFloat (- (real k / 100)), rest)"
proof -
  let ?n = "k div 100" and ?q = "k mod 100 div 10" and ?r = "k mod 10"
  have digits: "is_digit (48 + ?q)" "is_digit (48 + ?r)" by (auto simp: is_digit_def)
  have "scan_number (cents_text k @ rest) = Some (JFloat (real k / 100), rest)
      \<and> scan_number (45 # cents_text k @ rest) = Some (JFloat (- (real k / 100)), rest)"
  proof (cases "?r = 0")
    case True
    have "(real ?n * 10 + real ?q) / 10 = real k / 100" using real_cents [of k] True by simp
    with True digits scan_number_fraction [of "[48 + ?q]" rest ?n] assms show ?thesis
      by (simp add: cents_text_def tenths_value)
  next
    case False
    have "(real ?n * 100 + real ?q * 10 + real ?r) / 100 = real k / 100" using real_cents [of k] by simp
    with False digits scan_number_fraction [of "[48 + ?q, 48 + ?r]" rest ?n] assms show ?thesis
      by (simp add: cents_text_def hundredths_value)
  qed
  then show "scan_number (cents_text k @ rest) = Some (JFloat (real k / 100), rest)"
    "scan_number (45 # cents_text k @ rest) = Some (JFloat (- (real k / 100)), rest)" by blast+
qed

lemma float_text_cents: "float_text cents_repr (of_int k / 100)"
proof -
  have "scan_number (cents_repr (of_int k / 100) @ rest) = Some (JFloat (of_int k / 100), rest)"
    if "stops rest" for rest
    using scan_cents [OF that, of "nat k"] scan_cents [OF that, of "nat (- k)"]
    by (cases "k < 0") (auto simp: cents_repr_def)
  then show ?thesis by (simp add: float_text_def)
qed

lemma printable_cents: "printable (cents_repr x)"
proof -
  have "k mod 10 \<le> 9" "k mod 100 div 10 \<le> 9" for k :: nat by auto
  then have "printable (cents_text k)" for k
    by (auto simp: cents_text_def printable_def list_all_iff dest: decimal_digits intro: le_trans [OF add_left_mono])
  then show ?thesis by (simp add: cents_repr_def Let_def)
qed

end
