(* ===== verification/Logs.thy ===== *)
theory Logs
  imports Json
begin

text \<open>
  The structured logger of \<open>shared/logging.py\<close>: the record one call builds (the allow list of
  fields, the dropped \<open>None\<close>s), the severity it is emitted with, and the state of Python's logging
  registry that \<open>StructuredLogger.__init__\<close> sets up (one handler per logger name, level INFO).
  The stream holds the records; \<open>line_text\<close> is the text \<open>json.dumps\<close> makes of one.
\<close>

section \<open>Severities\<close>

datatype py_level = DEBUG | INFO | WARNING | ERROR | CRITICAL

fun levelno :: "py_level \<Rightarrow> nat" where
  "levelno DEBUG = 10"
| "levelno INFO = 20"
| "levelno WARNING = 30"
| "levelno ERROR = 40"
| "levelno CRITICAL = 50"

lemma levelno_inject: "levelno a = levelno b \<Longrightarrow> a = b"
  by (cases a; cases b) auto

text \<open>Severities are ordered by their numbers, which is how a logger's threshold compares them.\<close>

instantiation py_level :: linorder
begin

definition less_eq_py_level :: "py_level \<Rightarrow> py_level \<Rightarrow> bool" where
  "less_eq_py_level a b \<longleftrightarrow> levelno a \<le> levelno b"

definition less_py_level :: "py_level \<Rightarrow> py_level \<Rightarrow> bool" where
  "less_py_level a b \<longleftrightarrow> levelno a < levelno b"

instance
  by standard (auto simp: less_eq_py_level_def less_py_level_def intro: levelno_inject)

end

section \<open>Building the record\<close>

datatype log_value = VNone | VStr pystr | VInt int | VFloat pyfloat

type_synonym log_record = "(string, log_value) dict"

definition ALLOWED_LOG_FIELDS :: "string list" where
  "ALLOWED_LOG_FIELDS =
     [''timestamp'', ''level'', ''service'', ''event'', ''request_id'', ''worker_id'',
      ''model_version'', ''attempt'', ''error_code'', ''duration_ms'', ''queue_depth'',
      ''batch_requests'', ''batch_items'']"

text \<open>\<open>level.upper()\<close>, for the ASCII level names the callers pass.\<close>

definition ascii_upper :: "string \<Rightarrow> string" where
  "ascii_upper s =
     map (\<lambda>c. let n = of_char c :: nat in if 97 \<le> n \<and> n \<le> 122 then char_of (n - 32) else c) s"

definition add_field :: "string \<times> log_value \<Rightarrow> log_record \<Rightarrow> log_record" where
  "add_field kv r =
     (if fst kv \<in> set ALLOWED_LOG_FIELDS \<and> snd kv \<noteq> VNone then AList.update (fst kv) (snd kv) r else r)"

definition build_record ::
  "string \<Rightarrow> pystr \<Rightarrow> string \<Rightarrow> string \<Rightarrow> (string \<times> log_value) list \<Rightarrow> log_record" where
  "build_record service timestamp level event kwargs =
     fold add_field kwargs
       [(''timestamp'', VStr timestamp), (''level'', VStr (str (ascii_upper level))),
        (''service'', VStr (str service)), (''event'', VStr (str event))]"

definition emit_level :: "string \<Rightarrow> py_level" where
  "emit_level level =
     (if ascii_upper level = ''ERROR'' then ERROR
      else if ascii_upper level = ''WARNING'' then WARNING else INFO)"

section \<open>Python's logging registry\<close>

record py_logger =
  handlers :: nat
  threshold :: "py_level option"

record log_state =
  loggers :: "string \<Rightarrow> py_logger"
  stream :: "(py_level \<times> log_record) list"

definition fresh_logging :: log_state where
  "fresh_logging = \<lparr>loggers = (\<lambda>_. \<lparr>handlers = 0, threshold = None\<rparr>), stream = []\<rparr>"

text \<open>\<open>get_logger(name)\<close>: the constructor adds a handler and sets the level the first time only.\<close>

definition get_logger :: "string \<Rightarrow> log_state \<Rightarrow> log_state" where
  "get_logger name s =
     (let l = loggers s name
      in if handlers l = 0
         then s\<lparr>loggers := (loggers s)(name := l\<lparr>handlers := Suc (handlers l), threshold := Some INFO\<rparr>)\<rparr>
         else s)"

text \<open>A logger without a level of its own takes the root logger's, WARNING.\<close>

definition enabled :: "py_logger \<Rightarrow> py_level \<Rightarrow> bool" where
  "enabled l v \<longleftrightarrow> (case threshold l of None \<Rightarrow> WARNING | Some t \<Rightarrow> t) \<le> v"

definition log_line ::
  "string \<Rightarrow> pystr \<Rightarrow> string \<Rightarrow> string \<Rightarrow> (string \<times> log_value) list \<Rightarrow> log_state \<Rightarrow> log_state" where
  "log_line service timestamp level event kwargs s =
     (let l = loggers s service; v = emit_level level;
          r = build_record service timestamp level event kwargs
      in if enabled l v then s\<lparr>stream := stream s @ replicate (handlers l) (v, r)\<rparr> else s)"

section \<open>Redaction\<close>

lemma add_field_keys:
  "fst ` set r \<subseteq> set ALLOWED_LOG_FIELDS \<Longrightarrow> fst ` set (add_field kv r) \<subseteq> set ALLOWED_LOG_FIELDS"
  by (auto simp: add_field_def dom_update)

lemma fold_add_field_keys:
  "fst ` set r \<subseteq> set ALLOWED_LOG_FIELDS \<Longrightarrow> fst ` set (fold add_field kvs r) \<subseteq> set ALLOWED_LOG_FIELDS"
  by (induction kvs arbitrary: r) (simp_all add: add_field_keys)

lemma build_record_keys:
  "fst ` set (build_record service timestamp level event kwargs) \<subseteq> set ALLOWED_LOG_FIELDS"
  unfolding build_record_def by (rule fold_add_field_keys) (simp add: ALLOWED_LOG_FIELDS_def)

lemma map_of_add_field:
  "map_of (add_field (k', v) r) k =
     (if k = k' \<and> k' \<in> set ALLOWED_LOG_FIELDS \<and> v \<noteq> VNone then Some v else map_of r k)"
  by (simp add: add_field_def update_conv')

text \<open>Every value in the record is one of the four fixed ones or was passed under that key.\<close>

lemma fold_add_field_values:
  "map_of (fold add_field kvs r) k = Some v \<Longrightarrow>
     map_of r k = Some v \<or> (k, v) \<in> set kvs \<and> v \<noteq> VNone \<and> k \<in> set ALLOWED_LOG_FIELDS"
proof (induction kvs arbitrary: r)
  case (Cons kv kvs)
  obtain k' v' where kv: "kv = (k', v')" by (cases kv)
  from Cons.prems have "map_of (fold add_field kvs (add_field kv r)) k = Some v" by simp
  from Cons.IH [OF this] show ?case by (auto simp: kv map_of_add_field split: if_splits)
qed simp

lemma fold_add_field_missing:
  "k \<notin> set ALLOWED_LOG_FIELDS \<Longrightarrow> map_of (fold add_field kvs r) k = map_of r k"
  by (induction kvs arbitrary: r) (auto simp: add_field_def update_conv')

text \<open>The last allowed, non-None argument of a key wins.\<close>

lemma fold_add_field_last:
  "k \<in> set ALLOWED_LOG_FIELDS \<Longrightarrow> v \<noteq> VNone \<Longrightarrow> k \<notin> fst ` set post \<Longrightarrow>
     map_of (fold add_field (pre @ (k, v) # post) r) k = Some v"
proof -
  assume k: "k \<in> set ALLOWED_LOG_FIELDS" "v \<noteq> VNone" and post: "k \<notin> fst ` set post"
  from post have "map_of (fold add_field post r') k = map_of r' k" for r'
    by (induction post arbitrary: r') (auto simp: add_field_def update_conv')
  with k show ?thesis by (simp add: add_field_def update_conv')
qed

section \<open>One line per call\<close>

lemma get_logger_handlers:
  "handlers (loggers s name) \<le> 1 \<Longrightarrow> handlers (loggers (get_logger name s) name) = 1"
  by (auto simp: get_logger_def Let_def)

lemma get_logger_other: "name' \<noteq> name \<Longrightarrow> loggers (get_logger name s) name' = loggers s name'"
  by (simp add: get_logger_def Let_def)

lemma get_logger_idem: "get_logger name (get_logger name s) = get_logger name s"
  by (simp add: get_logger_def Let_def)

definition configured :: "py_logger \<Rightarrow> bool" where
  "configured l \<longleftrightarrow> handlers l = 1 \<and> threshold l = Some INFO"

definition pristine :: "py_logger \<Rightarrow> bool" where
  "pristine l \<longleftrightarrow> handlers l = 0"

lemma get_logger_configures:
  "configured (loggers s name) \<or> pristine (loggers s name) \<Longrightarrow>
     configured (loggers (get_logger name s) name)"
  by (auto simp: configured_def pristine_def get_logger_def Let_def)

lemma emit_level_enabled: "configured l \<Longrightarrow> enabled l (emit_level level)"
  by (simp add: configured_def enabled_def emit_level_def less_eq_py_level_def)

lemma log_line_configured:
  "configured (loggers s service) \<Longrightarrow>
     stream (log_line service timestamp level event kwargs s) =
       stream s @ [(emit_level level, build_record service timestamp level event kwargs)]"
  using emit_level_enabled [of "loggers s service" level]
  by (simp add: log_line_def Let_def configured_def)

section \<open>The text of a line\<close>

definition log_json :: "log_value \<Rightarrow> json" where
  "log_json v = (case v of VNone \<Rightarrow> JNull | VStr s \<Rightarrow> JStr s | VInt i \<Rightarrow> JInt i | VFloat x \<Rightarrow> JFloat x)"

definition record_json :: "log_record \<Rightarrow> json" where
  "record_json r = JObj (map (\<lambda>(k, v). (str k, log_json v)) r)"

definition line_text :: "(pyfloat \<Rightarrow> pystr) \<Rightarrow> log_record \<Rightarrow> pystr" where
  "line_text float_repr r = dumps float_repr (record_json r)"

text \<open>What a caller may pass: texts that survive a surrogate-pair escape, integers and floats with a text.\<close>

definition loggable :: "(pyfloat \<Rightarrow> pystr) \<Rightarrow> log_value \<Rightarrow> bool" where
  "loggable float_repr v \<longleftrightarrow> readable float_repr (log_json v) \<and> (\<forall>x \<in> floats (log_json v). printable (float_repr x))"

lemma distinct_add_field: "distinct (map fst r) \<Longrightarrow> distinct (map fst (add_field kv r))"
  by (simp add: add_field_def distinct_update)

lemma distinct_fold_add_field: "distinct (map fst r) \<Longrightarrow> distinct (map fst (fold add_field kvs r))"
  by (induction kvs arbitrary: r) (simp_all add: distinct_add_field)

lemma distinct_build_record: "distinct (map fst (build_record service timestamp level event kwargs))"
  unfolding build_record_def by (rule distinct_fold_add_field) simp

lemma in_build_record:
  assumes "(k, v) \<in> set (build_record service timestamp level event kwargs)"
  shows "v \<in> {VStr timestamp, VStr (str (ascii_upper level)), VStr (str service), VStr (str event)} \<or> (k, v) \<in> set kwargs"
proof -
  have "map_of (build_record service timestamp level event kwargs) k = Some v"
    using assms distinct_build_record by (simp add: map_of_is_SomeI)
  then show ?thesis
    unfolding build_record_def by (auto dest!: fold_add_field_values split: if_splits)
qed

lemma of_char_small: "(of_char c :: nat) < 256"
  using of_char_mod_256 [where 'a = nat, of c] by (metis mod_less_divisor zero_less_numeral)

lemma unpaired_small: "list_all (\<lambda>c. c < 256) s \<Longrightarrow> unpaired s"
  by (induction s) (auto simp: unpaired_Cons high_surrogate_def)

lemma unpaired_str [simp]: "unpaired (str s)"
  by (rule unpaired_small) (simp add: str_def list_all_iff of_char_small)

lemma loggable_str [simp]: "loggable float_repr (VStr (str s))"
  by (simp add: loggable_def log_json_def)

lemma record_json_readable:
  assumes "distinct (map fst r)" "\<forall>(k, v) \<in> set r. loggable float_repr v"
  shows "readable float_repr (record_json r)" "\<forall>x \<in> floats (record_json r). printable (float_repr x)"
proof -
  have "distinct (map fst (map (\<lambda>(k, v). (str k, log_json v)) r)) = distinct (map str (map fst r))"
    by (simp add: case_prod_unfold comp_def)
  also have "\<dots> = distinct (map fst r)" by (simp add: distinct_map inj_on_def)
  finally show "readable float_repr (record_json r)"
    using assms by (auto simp: record_json_def loggable_def)
  show "\<forall>x \<in> floats (record_json r). printable (float_repr x)"
    using assms(2) by (auto simp: record_json_def loggable_def)
qed

end
