(* ===== verification/Metrics.thy ===== *)
theory Metrics
  imports Logs
begin

text \<open>
  What the gateway shows of itself: the Prometheus counters, gauges and histogram of
  \<open>gateway/metrics.py\<close>, one field per metric and one function per update the source makes, and the
  calls to the structured logger. A labelled metric maps its label values to the child's value: a
  counter child starts at 0, a gauge child is \<open>None\<close> until its labels are first used. The histogram
  keeps the observations; its buckets only matter to the Prometheus server. The status label, the
  decimal text of the status code, is kept as the number.
\<close>

record obs =
  GATEWAY_REQUESTS_TOTAL :: "nat \<times> string \<Rightarrow> nat"
  GATEWAY_REQUEST_DURATION_SECONDS :: "pyfloat list"
  GATEWAY_ACTIVE_REQUESTS :: int
  GATEWAY_ROUTING_TOTAL :: "pystr \<Rightarrow> nat"
  GATEWAY_RETRIES_TOTAL :: "string \<Rightarrow> nat"
  GATEWAY_RPC_FAILURES_TOTAL :: "pystr \<times> string \<Rightarrow> nat"
  GATEWAY_WORKER_OUTSTANDING :: "pystr \<Rightarrow> int option"
  GATEWAY_WORKER_HEALTHY :: "pystr \<Rightarrow> int option"
  log_calls :: "(string \<times> string \<times> string \<times> (string \<times> log_value) list) list"

definition inc_requests_total :: "nat \<Rightarrow> string \<Rightarrow> 'a obs_scheme \<Rightarrow> 'a obs_scheme" where
  "inc_requests_total status code s =
     s\<lparr>GATEWAY_REQUESTS_TOTAL := (GATEWAY_REQUESTS_TOTAL s)
         ((status, code) := Suc (GATEWAY_REQUESTS_TOTAL s (status, code)))\<rparr>"

definition observe_duration :: "pyfloat \<Rightarrow> 'a obs_scheme \<Rightarrow> 'a obs_scheme" where
  "observe_duration d s =
     s\<lparr>GATEWAY_REQUEST_DURATION_SECONDS := GATEWAY_REQUEST_DURATION_SECONDS s @ [d]\<rparr>"

definition add_active :: "int \<Rightarrow> 'a obs_scheme \<Rightarrow> 'a obs_scheme" where
  "add_active k s = s\<lparr>GATEWAY_ACTIVE_REQUESTS := GATEWAY_ACTIVE_REQUESTS s + k\<rparr>"

definition inc_routing :: "pystr \<Rightarrow> 'a obs_scheme \<Rightarrow> 'a obs_scheme" where
  "inc_routing w s =
     s\<lparr>GATEWAY_ROUTING_TOTAL := (GATEWAY_ROUTING_TOTAL s)(w := Suc (GATEWAY_ROUTING_TOTAL s w))\<rparr>"

definition inc_retries :: "string \<Rightarrow> 'a obs_scheme \<Rightarrow> 'a obs_scheme" where
  "inc_retries result s =
     s\<lparr>GATEWAY_RETRIES_TOTAL := (GATEWAY_RETRIES_TOTAL s)(result := Suc (GATEWAY_RETRIES_TOTAL s result))\<rparr>"

definition inc_rpc_failures :: "pystr \<Rightarrow> string \<Rightarrow> 'a obs_scheme \<Rightarrow> 'a obs_scheme" where
  "inc_rpc_failures w c s =
     s\<lparr>GATEWAY_RPC_FAILURES_TOTAL := (GATEWAY_RPC_FAILURES_TOTAL s)
         ((w, c) := Suc (GATEWAY_RPC_FAILURES_TOTAL s (w, c)))\<rparr>"

definition set_outstanding_gauge :: "pystr \<Rightarrow> int \<Rightarrow> 'a obs_scheme \<Rightarrow> 'a obs_scheme" where
  "set_outstanding_gauge w v s =
     s\<lparr>GATEWAY_WORKER_OUTSTANDING := (GATEWAY_WORKER_OUTSTANDING s)(w \<mapsto> v)\<rparr>"

definition set_healthy_gauge :: "pystr \<Rightarrow> int \<Rightarrow> 'a obs_scheme \<Rightarrow> 'a obs_scheme" where
  "set_healthy_gauge w v s =
     s\<lparr>GATEWAY_WORKER_HEALTHY := (GATEWAY_WORKER_HEALTHY s)(w \<mapsto> v)\<rparr>"

definition log_call ::
  "string \<Rightarrow> string \<Rightarrow> string \<Rightarrow> (string \<times> log_value) list \<Rightarrow> 'a obs_scheme \<Rightarrow> 'a obs_scheme" where
  "log_call service level event kwargs s =
     s\<lparr>log_calls := log_calls s @ [(service, level, event, kwargs)]\<rparr>"

lemmas obs_defs [component_defs] =
  inc_requests_total_def observe_duration_def add_active_def inc_routing_def inc_retries_def
  inc_rpc_failures_def set_outstanding_gauge_def set_healthy_gauge_def log_call_def

text \<open>The records the logged calls render to, and the text they can carry.\<close>

definition rendered_logs :: "pystr \<Rightarrow> 'a obs_scheme \<Rightarrow> log_record list" where
  "rendered_logs timestamp s =
     map (\<lambda>(service, level, event, kwargs). build_record service timestamp level event kwargs) (log_calls s)"

lemma rendered_logs_keys:
  "r \<in> set (rendered_logs timestamp s) \<Longrightarrow> fst ` set r \<subseteq> set ALLOWED_LOG_FIELDS"
  using build_record_keys by (fastforce simp: rendered_logs_def)

end
