(* ===== verification/Proto.thy ===== *)
theory Proto
  imports Prelude
begin

text \<open>
  The messages gateway and worker exchange (\<open>proto/inference/v1/inference.proto\<close> and the generated
  \<open>inference_pb2\<close>), as Python sees them: plain records. Encoding them on the wire is the protobuf
  runtime's business. A proto3 enum field is an open integer, so \<open>WorkerState\<close> is an \<open>int\<close> with
  named values. \<open>grpc_status\<close> is \<open>grpc.StatusCode\<close>.
\<close>

abbreviation (input) "WORKER_STATE_UNSPECIFIED \<equiv> (0 :: int)"
abbreviation (input) "WORKER_STATE_STARTING \<equiv> (1 :: int)"
abbreviation (input) "WORKER_STATE_READY \<equiv> (2 :: int)"
abbreviation (input) "WORKER_STATE_DRAINING \<equiv> (3 :: int)"

record predict_request =
  rq_request_id :: pystr
  rq_model_version :: pystr
  rq_inputs :: "pystr list"

record worker_timing =
  wt_queue_ms :: pyfloat
  wt_preprocess_ms :: pyfloat
  wt_inference_ms :: pyfloat
  wt_postprocess_ms :: pyfloat
  wt_worker_total_ms :: pyfloat

record predict_response =
  rs_request_id :: pystr
  rs_model_version :: pystr
  rs_worker_id :: pystr
  rs_predictions :: "(pystr \<times> pyfloat) list"
  rs_timing :: worker_timing

record status_response =
  sr_worker_id :: pystr
  sr_model_version :: pystr
  sr_model_sha256 :: pystr
  sr_state :: int
  sr_queue_depth :: int
  sr_queue_capacity :: int
  sr_active_batches :: int

text \<open>A \<open>uint32\<close> field takes only these values: the protobuf runtime raises \<open>ValueError\<close> on others.\<close>

definition fits_uint32 :: "int \<Rightarrow> bool" where
  "fits_uint32 v \<longleftrightarrow> 0 \<le> v \<and> v < 2 ^ 32"

datatype grpc_status =
    OK | CANCELLED | UNKNOWN | INVALID_ARGUMENT | DEADLINE_EXCEEDED | NOT_FOUND | ALREADY_EXISTS
  | PERMISSION_DENIED | RESOURCE_EXHAUSTED | FAILED_PRECONDITION | ABORTED | OUT_OF_RANGE
  | UNIMPLEMENTED | INTERNAL | UNAVAILABLE | DATA_LOSS | UNAUTHENTICATED

fun status_name :: "grpc_status \<Rightarrow> string" where
  "status_name OK = ''OK''"
| "status_name CANCELLED = ''CANCELLED''"
| "status_name UNKNOWN = ''UNKNOWN''"
| "status_name INVALID_ARGUMENT = ''INVALID_ARGUMENT''"
| "status_name DEADLINE_EXCEEDED = ''DEADLINE_EXCEEDED''"
| "status_name NOT_FOUND = ''NOT_FOUND''"
| "status_name ALREADY_EXISTS = ''ALREADY_EXISTS''"
| "status_name PERMISSION_DENIED = ''PERMISSION_DENIED''"
| "status_name RESOURCE_EXHAUSTED = ''RESOURCE_EXHAUSTED''"
| "status_name FAILED_PRECONDITION = ''FAILED_PRECONDITION''"
| "status_name ABORTED = ''ABORTED''"
| "status_name OUT_OF_RANGE = ''OUT_OF_RANGE''"
| "status_name UNIMPLEMENTED = ''UNIMPLEMENTED''"
| "status_name INTERNAL = ''INTERNAL''"
| "status_name UNAVAILABLE = ''UNAVAILABLE''"
| "status_name DATA_LOSS = ''DATA_LOSS''"
| "status_name UNAUTHENTICATED = ''UNAUTHENTICATED''"

end
