(* ===== verification/Registry.thy ===== *)
theory Registry
  imports Config Metrics Proto
begin

text \<open>
  The worker registry of \<open>gateway/registry.py\<close>: the state kept for each configured worker, the health
  state machine driven by the status probes, the immediate ejection after a failed call, and the
  registry's start and stop. An operation that mutates one \<open>WorkerNode\<close> is written first as a
  function on the node; the registry operation applies it to the node in the dictionary and makes the
  metric and log updates that go with it. A poller's loop body is two steps, the code before the
  \<open>await\<close> of the status call and the code after it; neither yields to other tasks inside.
\<close>

section \<open>State\<close>

datatype health_state = STARTING | HEALTHY | UNHEALTHY | DRAINING

record worker_node =
  worker_id :: pystr
  address :: pystr
  state :: health_state
  outstanding_requests :: int
  consecutive_failures :: int
  consecutive_successes :: int
  last_successful_check :: pyfloat
  channel :: "pystr option"
  stub :: "pystr option"

definition new_worker_node :: "pystr \<Rightarrow> pystr \<Rightarrow> worker_node" where
  "new_worker_node wid addr =
     \<lparr>worker_id = wid, address = addr, state = STARTING, outstanding_requests = 0,
      consecutive_failures = 0, consecutive_successes = 0, last_successful_check = 0,
      channel = None, stub = None\<rparr>"

text \<open>\<open>get_stub\<close> opens the channel once; a stub is identified by the channel's target.\<close>

definition get_stub :: "worker_node \<Rightarrow> worker_node" where
  "get_stub n =
     (if stub n = None then n\<lparr>channel := Some (address n), stub := Some (address n)\<rparr> else n)"

definition close_node :: "worker_node \<Rightarrow> worker_node" where
  "close_node n = (if channel n \<noteq> None then n\<lparr>channel := None, stub := None\<rparr> else n)"

record registry = obs +
  workers :: "(pystr, worker_node) dict"
  poller_tasks :: "pystr list"
  stopping :: bool

definition init_workers :: "gateway_config \<Rightarrow> (pystr, worker_node) dict" where
  "init_workers c = map (\<lambda>(wid, addr). (wid, new_worker_node wid addr)) (configured_workers c)"

definition node :: "pystr \<Rightarrow> 'a registry_scheme \<Rightarrow> worker_node option" where
  "node wid s = map_of (workers s) wid"

definition upd_worker ::
  "pystr \<Rightarrow> (worker_node \<Rightarrow> worker_node) \<Rightarrow> 'a registry_scheme \<Rightarrow> 'a registry_scheme" where
  "upd_worker wid f s = s\<lparr>workers := dict_modify wid f (workers s)\<rparr>"

section \<open>Operations\<close>

definition is_any_worker_healthy :: "'a registry_scheme \<Rightarrow> bool" where
  "is_any_worker_healthy s \<longleftrightarrow> list_ex (\<lambda>w. state w = HEALTHY) (dict_values (workers s))"

definition mark_node :: "gateway_config \<Rightarrow> worker_node \<Rightarrow> worker_node" where
  "mark_node c n =
     n\<lparr>state := UNHEALTHY, consecutive_failures := health_failure_threshold c,
       consecutive_successes := 0\<rparr>"

definition mark_unhealthy_immediately ::
  "gateway_config \<Rightarrow> pystr \<Rightarrow> 'a registry_scheme \<Rightarrow> 'a registry_scheme" where
  "mark_unhealthy_immediately c wid s =
     (case node wid s of
        None \<Rightarrow> s
      | Some n \<Rightarrow>
          if state n = HEALTHY
          then log_call ''registry'' ''warning'' ''worker_marked_unhealthy'' [(''worker_id'', VStr wid)]
                 (set_healthy_gauge wid 0 (upd_worker wid (mark_node c) s))
          else s)"

text \<open>\<open>_record_probe_failure\<close>: the counters, and the ejection of a healthy worker at the threshold.\<close>

definition ejects :: "gateway_config \<Rightarrow> worker_node \<Rightarrow> bool" where
  "ejects c n \<longleftrightarrow> state n = HEALTHY \<and> health_failure_threshold c \<le> consecutive_failures n + 1"

definition failure_node :: "gateway_config \<Rightarrow> worker_node \<Rightarrow> worker_node" where
  "failure_node c n =
     (let n' = n\<lparr>consecutive_successes := 0, consecutive_failures := consecutive_failures n + 1\<rparr>
      in if ejects c n then n'\<lparr>state := UNHEALTHY\<rparr> else n')"

definition record_probe_failure ::
  "gateway_config \<Rightarrow> pystr \<Rightarrow> string \<Rightarrow> 'a registry_scheme \<Rightarrow> 'a registry_scheme" where
  "record_probe_failure c wid reason s =
     (case node wid s of
        None \<Rightarrow> s
      | Some n \<Rightarrow>
          (let s' = upd_worker wid (failure_node c) s
           in if ejects c n
              then log_call ''registry'' ''warning'' ''worker_ejected''
                     [(''worker_id'', VStr wid), (''reason'', VStr (str reason))]
                     (set_healthy_gauge wid 0 s')
              else s'))"

text \<open>A compatible status: the counters, and the two ways to become healthy.\<close>

definition starts_up :: "worker_node \<Rightarrow> bool" where
  "starts_up n \<longleftrightarrow> state n = STARTING \<and> 1 \<le> consecutive_successes n + 1"

definition recovers :: "gateway_config \<Rightarrow> worker_node \<Rightarrow> bool" where
  "recovers c n \<longleftrightarrow> state n = UNHEALTHY \<and> health_recovery_threshold c \<le> consecutive_successes n + 1"

definition success_node :: "gateway_config \<Rightarrow> pyfloat \<Rightarrow> worker_node \<Rightarrow> worker_node" where
  "success_node c now n =
     (let n' = n\<lparr>consecutive_failures := 0, consecutive_successes := consecutive_successes n + 1,
                 last_successful_check := now\<rparr>
      in if starts_up n \<or> recovers c n then n'\<lparr>state := HEALTHY\<rparr> else n')"

definition draining_node :: "worker_node \<Rightarrow> worker_node" where
  "draining_node n = n\<lparr>state := DRAINING, consecutive_failures := 0, consecutive_successes := 0\<rparr>"

datatype probe_result = ProbeResponse status_response | ProbeRaised

definition compatible :: "gateway_config \<Rightarrow> status_response \<Rightarrow> bool" where
  "compatible c r \<longleftrightarrow> sr_model_version r = model_version c \<and> sr_model_sha256 r = model_sha256 c \<and>
     sr_state r \<in> {WORKER_STATE_READY, WORKER_STATE_STARTING}"

text \<open>The loop body of \<open>_poll_worker_health\<close>, before and after the \<open>await\<close> of \<open>GetStatus\<close>.\<close>

definition poll_begin :: "pystr \<Rightarrow> 'a registry_scheme \<Rightarrow> 'a registry_scheme" where
  "poll_begin wid s = upd_worker wid get_stub s"

definition poll_timeout :: "gateway_config \<Rightarrow> pyfloat" where
  "poll_timeout c = of_int (health_timeout_ms c) / 1000"

definition poll_end ::
  "gateway_config \<Rightarrow> pystr \<Rightarrow> probe_result \<Rightarrow> pyfloat \<Rightarrow> 'a registry_scheme \<Rightarrow> 'a registry_scheme" where
  "poll_end c wid p now s =
     (case p of
        ProbeRaised \<Rightarrow> record_probe_failure c wid ''rpc_failed'' s
      | ProbeResponse r \<Rightarrow>
          if sr_state r = WORKER_STATE_DRAINING
          then set_healthy_gauge wid 0 (upd_worker wid draining_node s)
          else if compatible c r
          then (case node wid s of
                  None \<Rightarrow> s
                | Some n \<Rightarrow>
                    (let s' = upd_worker wid (success_node c now) s
                     in if starts_up n
                        then log_call ''registry'' ''info'' ''worker_healthy'' [(''worker_id'', VStr wid)]
                               (set_healthy_gauge wid 1 s')
                        else if recovers c n
                        then log_call ''registry'' ''info'' ''worker_recovered'' [(''worker_id'', VStr wid)]
                               (set_healthy_gauge wid 1 s')
                        else s'))
          else record_probe_failure c wid ''incompatible_status'' s)"

definition start_registry :: "'a registry_scheme \<Rightarrow> 'a registry_scheme" where
  "start_registry s = s\<lparr>stopping := False, poller_tasks := poller_tasks s @ map fst (workers s)\<rparr>"

definition stop_registry :: "'a registry_scheme \<Rightarrow> 'a registry_scheme" where
  "stop_registry s =
     s\<lparr>stopping := True, poller_tasks := [],
       workers := map (\<lambda>(wid, n). (wid, close_node n)) (workers s)\<rparr>"

section \<open>The health machine of one node\<close>

text \<open>
  What one probe does to its node, and to a node that sees a sequence of probes. A probe counts as a
  success, a failure, or a report that the worker drains.
\<close>

datatype probe_class = Succeeded | Failed | Drains

definition classify :: "gateway_config \<Rightarrow> probe_result \<Rightarrow> probe_class" where
  "classify c p =
     (case p of ProbeRaised \<Rightarrow> Failed
      | ProbeResponse r \<Rightarrow> if sr_state r = WORKER_STATE_DRAINING then Drains
                          else if compatible c r then Succeeded else Failed)"

definition probe_node :: "gateway_config \<Rightarrow> probe_result \<times> pyfloat \<Rightarrow> worker_node \<Rightarrow> worker_node" where
  "probe_node c pt =
     (case classify c (fst pt) of
        Succeeded \<Rightarrow> success_node c (snd pt) | Failed \<Rightarrow> failure_node c | Drains \<Rightarrow> draining_node)"

lemmas node_defs [component_defs] =
  new_worker_node_def get_stub_def close_node_def mark_node_def failure_node_def success_node_def
  draining_node_def

lemma node_frame [frame_simps]:
  "worker_id (get_stub n) = worker_id n" "worker_id (close_node n) = worker_id n"
  "worker_id (mark_node c n) = worker_id n" "worker_id (failure_node c n) = worker_id n"
  "worker_id (success_node c now n) = worker_id n" "worker_id (draining_node n) = worker_id n"
  "outstanding_requests (get_stub n) = outstanding_requests n"
  "outstanding_requests (close_node n) = outstanding_requests n"
  "outstanding_requests (mark_node c n) = outstanding_requests n"
  "outstanding_requests (failure_node c n) = outstanding_requests n"
  "outstanding_requests (success_node c now n) = outstanding_requests n"
  "outstanding_requests (draining_node n) = outstanding_requests n"
  by (simp_all add: node_defs Let_def)

lemma node_conn_frame [frame_simps]:
  "state (get_stub n) = state n" "state (close_node n) = state n"
  "consecutive_failures (get_stub n) = consecutive_failures n"
  "consecutive_successes (get_stub n) = consecutive_successes n"
  "consecutive_failures (close_node n) = consecutive_failures n"
  "consecutive_successes (close_node n) = consecutive_successes n"
  by (simp_all add: node_defs)

lemma node_state [simp]:
  "state (mark_node c n) = UNHEALTHY"
  "state (failure_node c n) = (if ejects c n then UNHEALTHY else state n)"
  "state (success_node c now n) = (if starts_up n \<or> recovers c n then HEALTHY else state n)"
  "state (draining_node n) = DRAINING"
  by (simp_all add: node_defs Let_def)

lemma node_counters [simp]:
  "consecutive_failures (failure_node c n) = consecutive_failures n + 1"
  "consecutive_successes (failure_node c n) = 0"
  "consecutive_failures (success_node c now n) = 0"
  "consecutive_successes (success_node c now n) = consecutive_successes n + 1"
  "consecutive_failures (draining_node n) = 0"
  "consecutive_successes (draining_node n) = 0"
  by (simp_all add: node_defs Let_def)

subsection \<open>The machine as a function of the probe history\<close>

text \<open>
  The specification reads the history of probe classes, most recent first, without counters: the
  current run of failures, the current run of successes, and the state these runs lead to.
\<close>

definition run_length :: "probe_class \<Rightarrow> probe_class list \<Rightarrow> nat" where
  "run_length k h = length (takeWhile (\<lambda>x. x = k) h)"

fun health_spec :: "int \<Rightarrow> int \<Rightarrow> probe_class list \<Rightarrow> health_state" where
  "health_spec fail_at recover_at [] = STARTING"
| "health_spec fail_at recover_at (k # h) =
     (case (k, health_spec fail_at recover_at h) of
        (Drains, _) \<Rightarrow> DRAINING
      | (_, DRAINING) \<Rightarrow> DRAINING
      | (Succeeded, STARTING) \<Rightarrow> HEALTHY
      | (Succeeded, UNHEALTHY) \<Rightarrow>
          if recover_at \<le> int (run_length Succeeded (k # h)) then HEALTHY else UNHEALTHY
      | (Failed, HEALTHY) \<Rightarrow>
          if fail_at \<le> int (run_length Failed (k # h)) then UNHEALTHY else HEALTHY
      | (_, s) \<Rightarrow> s)"

definition node_after :: "gateway_config \<Rightarrow> worker_node \<Rightarrow> (probe_result \<times> pyfloat) list \<Rightarrow> worker_node" where
  "node_after c n pts = fold (probe_node c) pts n"

definition history :: "gateway_config \<Rightarrow> (probe_result \<times> pyfloat) list \<Rightarrow> probe_class list" where
  "history c pts = rev (map (classify c \<circ> fst) pts)"

lemma run_length_Cons: "run_length k (x # h) = (if x = k then Suc (run_length k h) else 0)"
  by (simp add: run_length_def)

lemma node_after_snoc: "node_after c n (pts @ [pt]) = probe_node c pt (node_after c n pts)"
  by (simp add: node_after_def)

lemma history_snoc: "history c (pts @ [pt]) = classify c (fst pt) # history c pts"
  by (simp add: history_def)

lemma node_after_spec:
  "let n = node_after c (new_worker_node wid addr) pts; h = history c pts in
     consecutive_failures n = int (run_length Failed h) \<and>
     consecutive_successes n = int (run_length Succeeded h) \<and>
     state n = health_spec (health_failure_threshold c) (health_recovery_threshold c) h"
proof (induction pts rule: rev_induct)
  case Nil
  show ?case
    by (simp add: node_after_def history_def run_length_def new_worker_node_def)
next
  case (snoc pt pts)
  then show ?case
    by (cases "classify c (fst pt)")
      (auto simp: Let_def node_after_snoc history_snoc probe_node_def run_length_Cons ejects_def
        starts_up_def recovers_def split: health_state.splits)
qed

subsection \<open>Runs of probes\<close>

definition all_class :: "gateway_config \<Rightarrow> probe_class \<Rightarrow> (probe_result \<times> pyfloat) list \<Rightarrow> bool" where
  "all_class c k pts \<longleftrightarrow> list_all (\<lambda>pt. classify c (fst pt) = k) pts"

lemma failures_run:
  "all_class c Failed pts \<Longrightarrow> state n = HEALTHY \<Longrightarrow>
     consecutive_failures (node_after c n pts) = consecutive_failures n + int (length pts) \<and>
     state (node_after c n pts) =
       (if pts \<noteq> [] \<and> health_failure_threshold c \<le> consecutive_failures n + int (length pts)
        then UNHEALTHY else HEALTHY)"
proof (induction pts rule: rev_induct)
  case (snoc pt pts)
  then show ?case
    by (auto simp: all_class_def node_after_snoc probe_node_def ejects_def node_after_def)
qed (simp add: node_after_def)

lemma successes_run:
  "all_class c Succeeded pts \<Longrightarrow> state n = UNHEALTHY \<Longrightarrow>
     consecutive_successes (node_after c n pts) = consecutive_successes n + int (length pts) \<and>
     state (node_after c n pts) =
       (if pts \<noteq> [] \<and> health_recovery_threshold c \<le> consecutive_successes n + int (length pts)
        then HEALTHY else UNHEALTHY)"
proof (induction pts rule: rev_induct)
  case (snoc pt pts)
  then show ?case
    by (auto simp: all_class_def node_after_snoc probe_node_def recovers_def starts_up_def
        node_after_def)
qed (simp add: node_after_def)

text \<open>No probe and no immediate ejection takes a node out of DRAINING.\<close>

lemma draining_probe: "state n = DRAINING \<Longrightarrow> state (probe_node c pt n) = DRAINING"
  by (auto simp: probe_node_def ejects_def starts_up_def recovers_def split: probe_class.splits)

lemma draining_absorbs: "state n = DRAINING \<Longrightarrow> state (node_after c n pts) = DRAINING"
  by (induction pts rule: rev_induct) (auto simp: node_after_snoc draining_probe, simp add: node_after_def)

section \<open>The registry's operations on the dictionary\<close>

lemma node_upd_worker [simp]:
  "node wid' (upd_worker wid f s) = (if wid' = wid then map_option f (node wid s) else node wid' s)"
  by (simp add: node_def upd_worker_def map_of_dict_modify)

lemma keys_upd_worker [simp]: "map fst (workers (upd_worker wid f s)) = map fst (workers s)"
  by (simp add: upd_worker_def)

lemma upd_worker_frame [frame_simps]:
  "poller_tasks (upd_worker wid f s) = poller_tasks s" "stopping (upd_worker wid f s) = stopping s"
  "GATEWAY_WORKER_HEALTHY (upd_worker wid f s) = GATEWAY_WORKER_HEALTHY s"
  "GATEWAY_WORKER_OUTSTANDING (upd_worker wid f s) = GATEWAY_WORKER_OUTSTANDING s"
  "log_calls (upd_worker wid f s) = log_calls s"
  "registry.more (upd_worker wid f s) = registry.more s"
  by (simp_all add: upd_worker_def)

lemma obs_workers [simp]:
  "workers (log_call a b e d s) = workers s" "workers (set_healthy_gauge wid v s) = workers s"
  "workers (set_outstanding_gauge wid v s) = workers s" "workers (inc_routing wid s) = workers s"
  "workers (inc_retries r s) = workers s" "workers (inc_rpc_failures wid r s) = workers s"
  "workers (inc_requests_total n q s) = workers s" "workers (add_active k s) = workers s"
  "workers (observe_duration x s) = workers s"
  by (simp_all add: obs_defs)

lemma obs_node [simp]:
  "node wid' (log_call a b e d s) = node wid' s" "node wid' (set_healthy_gauge wid v s) = node wid' s"
  "node wid' (set_outstanding_gauge wid v s) = node wid' s" "node wid' (inc_routing wid s) = node wid' s"
  "node wid' (inc_retries r s) = node wid' s" "node wid' (inc_rpc_failures wid r s) = node wid' s"
  "node wid' (inc_requests_total n q s) = node wid' s" "node wid' (add_active k s) = node wid' s"
  "node wid' (observe_duration x s) = node wid' s"
  by (simp_all add: node_def)

lemma obs_more [simp]:
  "registry.more (log_call a b e d s) = registry.more s"
  "registry.more (set_healthy_gauge wid v s) = registry.more s"
  by (simp_all add: obs_defs)

lemma obs_gauge [simp]:
  "GATEWAY_WORKER_HEALTHY (log_call a b e d s) = GATEWAY_WORKER_HEALTHY s"
  "GATEWAY_WORKER_HEALTHY (set_healthy_gauge wid v s) = (GATEWAY_WORKER_HEALTHY s)(wid \<mapsto> v)"
  "GATEWAY_WORKER_HEALTHY (set_outstanding_gauge wid v s) = GATEWAY_WORKER_HEALTHY s"
  "GATEWAY_WORKER_HEALTHY (inc_routing wid s) = GATEWAY_WORKER_HEALTHY s"
  "GATEWAY_WORKER_HEALTHY (inc_retries r s) = GATEWAY_WORKER_HEALTHY s"
  "GATEWAY_WORKER_HEALTHY (inc_rpc_failures wid r s) = GATEWAY_WORKER_HEALTHY s"
  by (simp_all add: obs_defs)

text \<open>One poll does to its node what the node machine says and leaves the other nodes alone.\<close>

lemma node_record_probe_failure:
  "node wid' (record_probe_failure c wid reason s) =
     (if wid' = wid then map_option (failure_node c) (node wid s) else node wid' s)"
  by (auto simp: record_probe_failure_def Let_def split: option.splits)

lemma node_poll_end:
  "node wid' (poll_end c wid p now s) =
     (if wid' = wid then map_option (probe_node c (p, now)) (node wid s) else node wid' s)"
  by (auto simp: poll_end_def probe_node_def classify_def node_record_probe_failure Let_def
      split: probe_result.splits option.splits)

lemma node_mark:
  "node wid' (mark_unhealthy_immediately c wid s) =
     (if wid' = wid then map_option (\<lambda>n. if state n = HEALTHY then mark_node c n else n) (node wid s)
      else node wid' s)"
  by (auto simp: mark_unhealthy_immediately_def split: option.splits)

lemma keys_poll [simp]:
  "map fst (workers (poll_begin wid s)) = map fst (workers s)"
  "map fst (workers (record_probe_failure c wid reason s)) = map fst (workers s)"
  "map fst (workers (poll_end c wid p now s)) = map fst (workers s)"
  "map fst (workers (mark_unhealthy_immediately c wid s)) = map fst (workers s)"
  by (auto simp: poll_begin_def record_probe_failure_def poll_end_def mark_unhealthy_immediately_def
      Let_def split: option.splits probe_result.splits)

lemma probe_node_frame [frame_simps]:
  "worker_id (probe_node c pt n) = worker_id n"
  "outstanding_requests (probe_node c pt n) = outstanding_requests n"
  by (auto simp: probe_node_def frame_simps split: probe_class.splits)

section \<open>The registry's invariant\<close>

text \<open>
  Every node sits under its own id, its counters describe one run of probes, its stub and channel
  come and go together, and the health gauge shows 1 exactly for the healthy workers.
\<close>

definition node_ok :: "pystr \<Rightarrow> int option \<Rightarrow> worker_node \<Rightarrow> bool" where
  "node_ok wid gauge n \<longleftrightarrow> worker_id n = wid \<and> 0 \<le> consecutive_successes n \<and>
     (consecutive_successes n = 0 \<or> consecutive_failures n = 0) \<and>
     (stub n = None \<longleftrightarrow> channel n = None) \<and> (gauge = Some 1 \<longleftrightarrow> state n = HEALTHY)"

definition registry_wf :: "'a registry_scheme \<Rightarrow> bool" where
  "registry_wf s \<longleftrightarrow> distinct (map fst (workers s)) \<and>
     (\<forall>wid n. node wid s = Some n \<longrightarrow> node_ok wid (GATEWAY_WORKER_HEALTHY s wid) n)"

lemma registry_wfD:
  "registry_wf s \<Longrightarrow> node wid s = Some n \<Longrightarrow> node_ok wid (GATEWAY_WORKER_HEALTHY s wid) n"
  by (simp add: registry_wf_def)

lemma registry_wf_worker_id: "registry_wf s \<Longrightarrow> node wid s = Some n \<Longrightarrow> worker_id n = wid"
  by (auto dest: registry_wfD simp: node_ok_def)

lemma node_in_values:
  "registry_wf s \<Longrightarrow> n \<in> set (dict_values (workers s)) \<longleftrightarrow> node (worker_id n) s = Some n"
proof -
  assume wf: "registry_wf s"
  then have "distinct (map fst (workers s))" by (simp add: registry_wf_def)
  then have "n \<in> set (dict_values (workers s)) \<longleftrightarrow> (\<exists>wid. node wid s = Some n)"
    by (force simp: dict_values_def node_def)
  also have "\<dots> \<longleftrightarrow> node (worker_id n) s = Some n"
    using registry_wf_worker_id [OF wf] by blast
  finally show ?thesis .
qed

lemma registry_wf_modify:
  assumes wf: "registry_wf s" and keys: "map fst (workers t) = map fst (workers s)"
    and nodes: "\<And>w. node w t = (if w = wid then map_option f (node wid s) else node w s)"
    and gauges: "\<And>w. w \<noteq> wid \<Longrightarrow> GATEWAY_WORKER_HEALTHY t w = GATEWAY_WORKER_HEALTHY s w"
    and ok: "\<And>n. node wid s = Some n \<Longrightarrow> node_ok wid (GATEWAY_WORKER_HEALTHY s wid) n \<Longrightarrow>
               node_ok wid (GATEWAY_WORKER_HEALTHY t wid) (f n)"
  shows "registry_wf t"
  unfolding registry_wf_def
proof (intro conjI allI impI)
  show "distinct (map fst (workers t))" using wf keys by (simp add: registry_wf_def)
  fix w n assume n: "node w t = Some n"
  show "node_ok w (GATEWAY_WORKER_HEALTHY t w) n"
  proof (cases "w = wid")
    case True
    with n nodes [of w] have "map_option f (node wid s) = Some n" by simp
    then obtain m where m: "node wid s = Some m" "n = f m" by auto
    with ok [OF m(1) registry_wfD [OF wf m(1)]] True show ?thesis by simp
  next
    case False
    with n nodes [of w] gauges [OF False] registry_wfD [OF wf, of w n] show ?thesis by simp
  qed
qed

text \<open>The gauge after a probe: the same case split as the node's.\<close>

definition probe_gauge ::
  "gateway_config \<Rightarrow> probe_result \<Rightarrow> worker_node \<Rightarrow> int option \<Rightarrow> int option" where
  "probe_gauge c p n g =
     (case classify c p of
        Drains \<Rightarrow> Some 0
      | Failed \<Rightarrow> if ejects c n then Some 0 else g
      | Succeeded \<Rightarrow> if starts_up n \<or> recovers c n then Some 1 else g)"

lemma gauge_poll_end:
  "node wid s = Some n \<Longrightarrow> GATEWAY_WORKER_HEALTHY (poll_end c wid p now s) =
     (GATEWAY_WORKER_HEALTHY s)(wid := probe_gauge c p n (GATEWAY_WORKER_HEALTHY s wid))"
  by (auto simp: poll_end_def probe_gauge_def classify_def record_probe_failure_def Let_def frame_simps
      split: probe_result.splits)

lemma gauge_poll_end_other:
  "w \<noteq> wid \<Longrightarrow> GATEWAY_WORKER_HEALTHY (poll_end c wid p now s) w = GATEWAY_WORKER_HEALTHY s w"
  by (auto simp: poll_end_def record_probe_failure_def Let_def frame_simps
      split: probe_result.splits option.splits)

lemma gauge_mark:
  "GATEWAY_WORKER_HEALTHY (mark_unhealthy_immediately c wid s) =
     (case node wid s of
        None \<Rightarrow> GATEWAY_WORKER_HEALTHY s
      | Some n \<Rightarrow> if state n = HEALTHY then (GATEWAY_WORKER_HEALTHY s)(wid \<mapsto> 0)
                  else GATEWAY_WORKER_HEALTHY s)"
  by (auto simp: mark_unhealthy_immediately_def frame_simps split: option.splits)

lemma node_ok_probe:
  "node_ok wid g n \<Longrightarrow> node_ok wid (probe_gauge c p n g) (probe_node c (p, now) n)"
  by (cases "classify c p")
    (auto simp: node_ok_def probe_gauge_def probe_node_def ejects_def starts_up_def recovers_def
      failure_node_def success_node_def draining_node_def Let_def)

lemma registry_wf_poll_begin [invariant_intros]: "registry_wf s \<Longrightarrow> registry_wf (poll_begin wid s)"
  by (rule registry_wf_modify [where s = s and wid = wid and f = get_stub])
    (auto simp: poll_begin_def frame_simps node_ok_def get_stub_def)

lemma registry_wf_mark [invariant_intros]:
  assumes "registry_wf s"
  shows "registry_wf (mark_unhealthy_immediately c wid s)"
  using assms
proof (rule registry_wf_modify)
  show "node w (mark_unhealthy_immediately c wid s) =
      (if w = wid then map_option (\<lambda>n. if state n = HEALTHY then mark_node c n else n) (node wid s)
       else node w s)" for w by (rule node_mark)
qed (auto simp: gauge_mark node_ok_def mark_node_def split: option.splits)

lemma registry_wf_poll_end [invariant_intros]:
  assumes "registry_wf s"
  shows "registry_wf (poll_end c wid p now s)"
  using assms
proof (rule registry_wf_modify)
  show "node w (poll_end c wid p now s) =
      (if w = wid then map_option (probe_node c (p, now)) (node wid s) else node w s)" for w
    by (rule node_poll_end)
qed (simp_all add: gauge_poll_end gauge_poll_end_other node_ok_probe)

lemma registry_wf_start [invariant_intros]: "registry_wf s \<Longrightarrow> registry_wf (start_registry s)"
  by (simp add: registry_wf_def start_registry_def node_def)

lemma map_of_map_values: "map_of (map (\<lambda>(k, v). (k, f v)) d) k = map_option f (map_of d k)"
  by (induction d) auto

lemma map_fst_map_values: "map fst (map (\<lambda>(k, v). (k, f v)) d) = map fst d"
  by (induction d) auto

lemma node_ok_close: "node_ok wid g n \<Longrightarrow> node_ok wid g (close_node n)"
  by (simp add: node_ok_def close_node_def)

lemma registry_wf_stop [invariant_intros]: "registry_wf s \<Longrightarrow> registry_wf (stop_registry s)"
  unfolding registry_wf_def
  by (auto simp: stop_registry_def node_def map_of_map_values map_fst_map_values
      simp del: map_map intro!: node_ok_close)

end
