(* ===== verification/Errors.thy ===== *)
theory Errors
  imports Prelude
begin

text \<open>
  The application errors of \<open>shared/errors.py\<close>, one constructor per subclass of \<open>AppError\<close> with
  the message it was raised with, and what each carries: its stable code, its HTTP status and the
  body \<open>to_dict\<close> renders. \<open>exn\<close> is what a Python call may raise: an application error, the
  cancellation of its task, or any other exception, named by its class.
\<close>

section \<open>The error classes\<close>

datatype app_error =
    InvalidRequestError string
  | UnsupportedModelError string
  | RequestTooLargeError string
  | GatewayAtCapacityError string
  | WorkerQueueFullError string
  | NoHealthyWorkerError string
  | WorkerUnavailableError string
  | ServiceDrainingError string
  | DeadlineExceededError string
  | InternalServerError string

text \<open>The default of each class's \<open>message\<close> parameter.\<close>

definition InvalidRequestError_default :: app_error where
  "InvalidRequestError_default = InvalidRequestError ''Invalid request.''"
definition UnsupportedModelError_default :: app_error where
  "UnsupportedModelError_default = UnsupportedModelError ''Unsupported model version.''"
definition RequestTooLargeError_default :: app_error where
  "RequestTooLargeError_default = RequestTooLargeError ''Request body or payload limit exceeded.''"
definition GatewayAtCapacityError_default :: app_error where
  "GatewayAtCapacityError_default = GatewayAtCapacityError ''All healthy workers are saturated.''"
definition WorkerQueueFullError_default :: app_error where
  "WorkerQueueFullError_default = WorkerQueueFullError ''Worker queue full.''"
definition NoHealthyWorkerError_default :: app_error where
  "NoHealthyWorkerError_default = NoHealthyWorkerError ''No compatible worker is available.''"
definition WorkerUnavailableError_default :: app_error where
  "WorkerUnavailableError_default = WorkerUnavailableError ''Worker unavailable.''"
definition ServiceDrainingError_default :: app_error where
  "ServiceDrainingError_default = ServiceDrainingError ''Service is shutting down.''"
definition DeadlineExceededError_default :: app_error where
  "DeadlineExceededError_default = DeadlineExceededError ''Deadline exceeded.''"
definition InternalServerError_default :: app_error where
  "InternalServerError_default = InternalServerError ''An unexpected internal error occurred.''"

lemmas error_defaults [component_defs] =
  InvalidRequestError_default_def UnsupportedModelError_default_def
  RequestTooLargeError_default_def GatewayAtCapacityError_default_def
  WorkerQueueFullError_default_def NoHealthyWorkerError_default_def
  WorkerUnavailableError_default_def ServiceDrainingError_default_def
  DeadlineExceededError_default_def InternalServerError_default_def

fun err_code :: "app_error \<Rightarrow> string" where
  "err_code (InvalidRequestError m) = ''INVALID_REQUEST''"
| "err_code (UnsupportedModelError m) = ''UNSUPPORTED_MODEL''"
| "err_code (RequestTooLargeError m) = ''REQUEST_TOO_LARGE''"
| "err_code (GatewayAtCapacityError m) = ''GATEWAY_AT_CAPACITY''"
| "err_code (WorkerQueueFullError m) = ''WORKER_QUEUE_FULL''"
| "err_code (NoHealthyWorkerError m) = ''NO_HEALTHY_WORKER''"
| "err_code (WorkerUnavailableError m) = ''WORKER_UNAVAILABLE''"
| "err_code (ServiceDrainingError m) = ''SERVICE_DRAINING''"
| "err_code (DeadlineExceededError m) = ''DEADLINE_EXCEEDED''"
| "err_code (InternalServerError m) = ''INTERNAL_ERROR''"

fun err_status :: "app_error \<Rightarrow> nat" where
  "err_status (InvalidRequestError m) = 400"
| "err_status (UnsupportedModelError m) = 400"
| "err_status (RequestTooLargeError m) = 413"
| "err_status (GatewayAtCapacityError m) = 429"
| "err_status (WorkerQueueFullError m) = 429"
| "err_status (NoHealthyWorkerError m) = 503"
| "err_status (WorkerUnavailableError m) = 503"
| "err_status (ServiceDrainingError m) = 503"
| "err_status (DeadlineExceededError m) = 504"
| "err_status (InternalServerError m) = 500"

fun err_message :: "app_error \<Rightarrow> string" where
  "err_message (InvalidRequestError m) = m"
| "err_message (UnsupportedModelError m) = m"
| "err_message (RequestTooLargeError m) = m"
| "err_message (GatewayAtCapacityError m) = m"
| "err_message (WorkerQueueFullError m) = m"
| "err_message (NoHealthyWorkerError m) = m"
| "err_message (WorkerUnavailableError m) = m"
| "err_message (ServiceDrainingError m) = m"
| "err_message (DeadlineExceededError m) = m"
| "err_message (InternalServerError m) = m"

record error_body =
  eb_code :: string
  eb_message :: string

definition to_dict :: "app_error \<Rightarrow> error_body" where
  "to_dict e = \<lparr>eb_code = err_code e, eb_message = err_message e\<rparr>"

datatype exn = App app_error | PyExn string | Cancelled

section \<open>What the codes determine\<close>

text \<open>The stable code identifies the class, so with the message it identifies the error.\<close>

lemma app_error_eq_iff: "e = e' \<longleftrightarrow> err_code e = err_code e' \<and> err_message e = err_message e'"
  by (cases e; cases e') auto

lemma to_dict_inject: "to_dict e = to_dict e' \<longleftrightarrow> e = e'"
  by (simp add: to_dict_def app_error_eq_iff)

text \<open>Statuses are determined by the codes, so a reader of the body can recover the status.\<close>

fun status_of_code :: "string \<Rightarrow> nat" where
  "status_of_code c =
     (if c \<in> {''INVALID_REQUEST'', ''UNSUPPORTED_MODEL''} then 400
      else if c = ''REQUEST_TOO_LARGE'' then 413
      else if c \<in> {''GATEWAY_AT_CAPACITY'', ''WORKER_QUEUE_FULL''} then 429
      else if c \<in> {''NO_HEALTHY_WORKER'', ''WORKER_UNAVAILABLE'', ''SERVICE_DRAINING''} then 503
      else if c = ''DEADLINE_EXCEEDED'' then 504
      else 500)"

lemma err_status_of_code: "err_status e = status_of_code (err_code e)"
  by (cases e) simp_all

lemma err_status_range: "err_status e \<in> {400, 413, 429, 500, 503, 504}"
  by (cases e) simp_all

end
