(* ===== verification/Reservation.thy ===== *)
theory Reservation
  imports Errors
begin

text \<open>
  The interface between the gateway's client and its scheduler: a reservation is taken by \<open>select\<close>,
  given back by \<open>release\<close>, and counted per worker by \<open>reserved\<close>. The client proves once, from these
  laws, that its calls keep the counts equal to the calls in flight (the ledger); the scheduler
  discharges the laws. The extension adds the ejection of a worker, which must not touch the counts.
\<close>

text \<open>The counts agree with a list of calls in flight, each named by its worker.\<close>

definition ledger :: "(pystr \<Rightarrow> 's \<Rightarrow> int) \<Rightarrow> 's \<Rightarrow> pystr list \<Rightarrow> bool" where
  "ledger reserved s ws \<longleftrightarrow> (\<forall>w. reserved w s = int (count_list ws w))"

lemma ledgerD: "ledger reserved s ws \<Longrightarrow> reserved w s = int (count_list ws w)"
  by (simp add: ledger_def)

lemma count_list_remove1: "count_list (remove1 w ws) v = count_list ws v - (if v = w then 1 else 0)"
  by (induction ws) (auto simp: count_list_0_iff)

lemma count_list_pos: "0 < count_list ws w \<longleftrightarrow> w \<in> set ws"
  by (simp add: neq0_conv [symmetric] count_list_0_iff del: neq0_conv)

lemma ledger_cong: "(\<And>w. reserved w t = reserved w s) \<Longrightarrow> ledger reserved t ws \<longleftrightarrow> ledger reserved s ws"
  by (simp add: ledger_def)

locale reservations =
  fixes select :: "pystr set \<Rightarrow> 's \<Rightarrow> (app_error + pystr) \<times> 's"
    and release :: "pystr \<Rightarrow> 's \<Rightarrow> 's"
    and reserved :: "pystr \<Rightarrow> 's \<Rightarrow> int"
    and limit :: int
    and invar :: "'s \<Rightarrow> bool"
  assumes select_reserves:
      "invar s \<Longrightarrow> select X s = (Inr w, t) \<Longrightarrow> reserved v t = reserved v s + (if v = w then 1 else 0)"
    and select_excludes: "invar s \<Longrightarrow> select X s = (Inr w, t) \<Longrightarrow> w \<notin> X"
    and select_limit: "invar s \<Longrightarrow> select X s = (Inr w, t) \<Longrightarrow> reserved w s < limit"
    and select_fails: "select X s = (Inl e, t) \<Longrightarrow> t = s"
    and release_returns:
      "invar s \<Longrightarrow> 0 < reserved w s \<Longrightarrow>
         reserved v (release w s) = reserved v s - (if v = w then 1 else 0)"
    and invar_select: "invar s \<Longrightarrow> invar (snd (select X s))"
    and invar_release: "invar s \<Longrightarrow> invar (release w s)"
begin

lemma ledger_select:
  "invar s \<Longrightarrow> ledger reserved s ws \<Longrightarrow> select X s = (Inr w, t) \<Longrightarrow> ledger reserved t (w # ws)"
  using select_reserves by (simp add: ledger_def)

lemma ledger_release:
  assumes "invar s" "ledger reserved s ws" "w \<in> set ws"
  shows "ledger reserved (release w s) (remove1 w ws)"
proof -
  have pos: "0 < count_list ws w" using assms(3) by (simp add: count_list_pos)
  with assms(2) have "0 < reserved w s" by (simp add: ledger_def)
  with assms pos show ?thesis by (auto simp: ledger_def release_returns count_list_remove1)
qed

lemma bounded_select:
  assumes "invar s" "select X s = (Inr w, t)" "\<And>v. reserved v s \<le> limit"
  shows "reserved v t \<le> limit"
  using select_reserves [OF assms(1,2), of v] select_limit [OF assms(1,2)] assms(3) [of v]
  by (auto split: if_splits)

lemma bounded_release:
  assumes "invar s" "0 < reserved w s" "\<And>v. reserved v s \<le> limit"
  shows "reserved v (release w s) \<le> limit"
  using release_returns [OF assms(1,2), of v] assms(3) [of v] by (auto split: if_splits)

text \<open>A reservation taken and given back leaves every count as it was.\<close>

lemma select_release:
  assumes "invar s" "select X s = (Inr w, t)" "0 \<le> reserved w s"
  shows "reserved v (release w t) = reserved v s"
proof -
  have "invar t" using invar_select [OF assms(1), of X] assms(2) by simp
  moreover have "0 < reserved w t" using select_reserves [OF assms(1,2), of w] assms(3) by simp
  ultimately show ?thesis
    using release_returns [of t w v] select_reserves [OF assms(1,2), of v] by simp
qed

end

locale ejecting_reservations = reservations select release reserved limit invar
  for select :: "pystr set \<Rightarrow> 's \<Rightarrow> (app_error + pystr) \<times> 's"
    and release :: "pystr \<Rightarrow> 's \<Rightarrow> 's"
    and reserved :: "pystr \<Rightarrow> 's \<Rightarrow> int"
    and limit :: int
    and invar :: "'s \<Rightarrow> bool" +
  fixes eject :: "pystr \<Rightarrow> 's \<Rightarrow> 's"
  assumes eject_reserved: "reserved v (eject w s) = reserved v s"
    and invar_eject: "invar s \<Longrightarrow> invar (eject w s)"
begin

lemma ledger_eject: "ledger reserved (eject w s) ws \<longleftrightarrow> ledger reserved s ws"
  by (simp add: ledger_def eject_reserved)

lemma ledger_eject_release:
  assumes "invar s" "ledger reserved s ws" "w \<in> set ws"
  shows "ledger reserved (release w (eject v s)) (remove1 w ws)"
  using assms by (intro ledger_release) (simp_all add: ledger_eject invar_eject)

end

end
