(* ===== verification/Scheduler.thy ===== *)
theory Scheduler
  imports Registry Reservation
begin

text \<open>
  The scheduler of \<open>gateway/scheduler.py\<close>: least outstanding requests, ties broken by a rotating cursor
  over worker-id order, and the reservation counts. Both operations hold an \<open>asyncio.Lock\<close> and do not
  \<open>await\<close> inside it, so no other task can hold the lock when one of them starts: each is one atomic
  step.
\<close>

section \<open>Operations\<close>

record sched = registry +
  cursor :: nat

definition healthy_workers :: "'a sched_scheme \<Rightarrow> worker_node list" where
  "healthy_workers s = filter (\<lambda>w. state w = HEALTHY) (dict_values (workers s))"

definition eligible_workers :: "gateway_config \<Rightarrow> pystr set \<Rightarrow> 'a sched_scheme \<Rightarrow> worker_node list" where
  "eligible_workers c exclude_ids s =
     filter (\<lambda>w. worker_id w \<notin> exclude_ids \<and>
                 outstanding_requests w < gateway_max_outstanding_per_worker c) (healthy_workers s)"

definition least_loaded :: "worker_node list \<Rightarrow> worker_node list" where
  "least_loaded eligible =
     (let min_outstanding = min_list (map outstanding_requests eligible)
      in sort_key worker_id (filter (\<lambda>w. outstanding_requests w = min_outstanding) eligible))"

definition reserve :: "worker_node \<Rightarrow> worker_node" where
  "reserve n = n\<lparr>outstanding_requests := outstanding_requests n + 1\<rparr>"

definition unreserve :: "worker_node \<Rightarrow> worker_node" where
  "unreserve n = n\<lparr>outstanding_requests := outstanding_requests n - 1\<rparr>"

definition select_worker ::
  "gateway_config \<Rightarrow> pystr set \<Rightarrow> 'a sched_scheme \<Rightarrow> (app_error + pystr) \<times> 'a sched_scheme" where
  "select_worker c exclude_ids s =
     (if healthy_workers s = [] then (Inl NoHealthyWorkerError_default, s)
      else
        let eligible = eligible_workers c exclude_ids s in
        if eligible = [] then (Inl GatewayAtCapacityError_default, s)
        else
          let candidates = least_loaded eligible;
              selected = candidates ! (cursor s mod length candidates);
              wid = worker_id selected;
              s1 = s\<lparr>cursor := (cursor s + 1) mod length candidates\<rparr>;
              s2 = upd_worker wid reserve s1
          in (Inr wid,
              inc_routing wid (set_outstanding_gauge wid (outstanding_requests selected + 1) s2)))"

definition release_worker :: "pystr \<Rightarrow> 'a sched_scheme \<Rightarrow> 'a sched_scheme" where
  "release_worker wid s =
     (case node wid s of
        None \<Rightarrow> s
      | Some n \<Rightarrow>
          if 0 < outstanding_requests n
          then set_outstanding_gauge wid (outstanding_requests n - 1) (upd_worker wid unreserve s)
          else s)"

definition reserved :: "pystr \<Rightarrow> 'a registry_scheme \<Rightarrow> int" where
  "reserved wid s = (case node wid s of None \<Rightarrow> 0 | Some n \<Rightarrow> outstanding_requests n)"

section \<open>The candidates\<close>

lemma reserve_simps [simp]:
  "outstanding_requests (reserve n) = outstanding_requests n + 1"
  "outstanding_requests (unreserve n) = outstanding_requests n - 1"
  "worker_id (reserve n) = worker_id n" "worker_id (unreserve n) = worker_id n"
  "state (reserve n) = state n" "state (unreserve n) = state n"
  "unreserve (reserve n) = n"
  by (simp_all add: reserve_def unreserve_def)

lemma node_ok_reserve [simp]:
  "node_ok wid g (reserve n) \<longleftrightarrow> node_ok wid g n" "node_ok wid g (unreserve n) \<longleftrightarrow> node_ok wid g n"
  by (simp_all add: node_ok_def reserve_def unreserve_def)

lemma min_list_in: "xs \<noteq> [] \<Longrightarrow> min_list xs \<in> set (xs :: 'a::linorder list)"
  by (simp add: min_list_Min)

lemma min_list_le: "x \<in> set xs \<Longrightarrow> min_list xs \<le> (x :: 'a::linorder)"
  by (cases "xs = []") (simp_all add: min_list_Min)

lemma set_least_loaded:
  "set (least_loaded ws) =
     {w \<in> set ws. outstanding_requests w = min_list (map outstanding_requests ws)}"
  by (simp add: least_loaded_def Let_def)

lemma least_loaded_ne: "ws \<noteq> [] \<Longrightarrow> least_loaded ws \<noteq> []"
proof -
  assume "ws \<noteq> []"
  then have "min_list (map outstanding_requests ws) \<in> outstanding_requests ` set ws"
    using min_list_in [of "map outstanding_requests ws"] by simp
  then have "set (least_loaded ws) \<noteq> {}" by (auto simp: set_least_loaded)
  then show ?thesis by auto
qed

lemma sorted_least_loaded: "sorted (map worker_id (least_loaded ws))"
  by (simp add: least_loaded_def Let_def)

lemma least_loaded_min:
  "w \<in> set (least_loaded ws) \<Longrightarrow> v \<in> set ws \<Longrightarrow> outstanding_requests w \<le> outstanding_requests v"
  by (auto simp: set_least_loaded intro: min_list_le)

lemma set_eligible:
  "w \<in> set (eligible_workers c X s) \<longleftrightarrow>
     w \<in> set (dict_values (workers s)) \<and> state w = HEALTHY \<and> worker_id w \<notin> X \<and>
     outstanding_requests w < gateway_max_outstanding_per_worker c"
  by (auto simp: eligible_workers_def healthy_workers_def)

lemma healthy_workers_Nil: "healthy_workers s = [] \<longleftrightarrow> \<not> is_any_worker_healthy s"
  by (auto simp: healthy_workers_def is_any_worker_healthy_def filter_empty_conv list_ex_iff)

section \<open>What selecting and releasing do\<close>

definition cursor_at :: "nat \<Rightarrow> 'a sched_scheme \<Rightarrow> 'a sched_scheme" where
  "cursor_at k s = s\<lparr>cursor := k\<rparr>"

lemma cursor_at_simps [simp]:
  "workers (cursor_at k s) = workers s" "node w (cursor_at k s) = node w s"
  "GATEWAY_WORKER_HEALTHY (cursor_at k s) = GATEWAY_WORKER_HEALTHY s" "cursor (cursor_at k s) = k"
  by (simp_all add: cursor_at_def node_def)

definition reservation_made :: "pystr \<Rightarrow> int \<Rightarrow> 'a sched_scheme \<Rightarrow> 'a sched_scheme" where
  "reservation_made wid v s = inc_routing wid (set_outstanding_gauge wid v (upd_worker wid reserve s))"

lemma select_workerE:
  assumes sel: "select_worker c X s = (Inr wid, t)" and wf: "registry_wf s"
  obtains n k where "node wid s = Some n" "n \<in> set (least_loaded (eligible_workers c X s))"
    "state n = HEALTHY" "wid \<notin> X" "outstanding_requests n < gateway_max_outstanding_per_worker c"
    "t = reservation_made wid (outstanding_requests n + 1) (cursor_at k s)"
    "k < length (least_loaded (eligible_workers c X s))"
proof -
  let ?e = "eligible_workers c X s"
  let ?cs = "least_loaded ?e"
  let ?n = "?cs ! (cursor s mod length ?cs)"
  let ?k = "(cursor s + 1) mod length ?cs"
  from sel have e: "?e \<noteq> []"
    and t: "wid = worker_id ?n" "t = reservation_made wid (outstanding_requests ?n + 1) (cursor_at ?k s)"
    by (auto simp: select_worker_def Let_def reservation_made_def cursor_at_def split: if_splits)
  from e have len: "0 < length ?cs" by (simp add: least_loaded_ne)
  then have in_cs: "?n \<in> set ?cs" by simp
  then have in_e: "?n \<in> set ?e" by (simp add: set_least_loaded)
  then have "node wid s = Some ?n"
    using node_in_values [OF wf] t(1) by (auto simp: set_eligible)
  moreover have "?k < length ?cs" using len by simp
  ultimately show ?thesis using that t in_cs in_e by (auto simp: set_eligible)
qed

lemma node_reservation_made:
  "node w (reservation_made wid v s) = (if w = wid then map_option reserve (node wid s) else node w s)"
  by (simp add: reservation_made_def)

lemma reservation_made_frame [frame_simps]:
  "map fst (workers (reservation_made wid v s)) = map fst (workers s)"
  "GATEWAY_WORKER_HEALTHY (reservation_made wid v s) = GATEWAY_WORKER_HEALTHY s"
  "cursor (reservation_made wid v s) = cursor s"
  by (simp_all add: reservation_made_def frame_simps) (simp add: obs_defs upd_worker_def)

lemma node_release_worker:
  "node w (release_worker wid s) =
     (if w = wid then map_option (\<lambda>n. if 0 < outstanding_requests n then unreserve n else n) (node wid s)
      else node w s)"
  by (auto simp: release_worker_def split: option.splits)

lemma release_worker_frame [frame_simps]:
  "map fst (workers (release_worker wid s)) = map fst (workers s)"
  "GATEWAY_WORKER_HEALTHY (release_worker wid s) = GATEWAY_WORKER_HEALTHY s"
  by (auto simp: release_worker_def frame_simps split: option.splits)

lemma cursor_release_worker [simp]: "cursor (release_worker wid s) = cursor s"
  by (auto simp: release_worker_def obs_defs upd_worker_def split: option.splits)

section \<open>The scheduler's invariant\<close>

text \<open>The registry is well formed and no worker has a negative number of reservations.\<close>

definition sched_wf :: "'a sched_scheme \<Rightarrow> bool" where
  "sched_wf s \<longleftrightarrow> registry_wf s \<and> (\<forall>w. 0 \<le> reserved w s)"

lemma sched_wfD: "sched_wf s \<Longrightarrow> registry_wf s" "sched_wf s \<Longrightarrow> 0 \<le> reserved w s"
  by (simp_all add: sched_wf_def)

lemma registry_wf_cursor_at [simp]: "registry_wf (cursor_at k s) = registry_wf s"
  by (simp add: registry_wf_def)

lemma registry_wf_reservation [invariant_intros]:
  "registry_wf s \<Longrightarrow> registry_wf (reservation_made wid v s)"
  by (rule registry_wf_modify [where s = s and wid = wid and f = reserve])
    (auto simp: node_reservation_made frame_simps)

lemma registry_wf_release [invariant_intros]:
  assumes "registry_wf s"
  shows "registry_wf (release_worker wid s)"
  using assms
proof (rule registry_wf_modify)
  show "node w (release_worker wid s) =
      (if w = wid then map_option (\<lambda>n. if 0 < outstanding_requests n then unreserve n else n) (node wid s)
       else node w s)" for w by (rule node_release_worker)
qed (auto simp: frame_simps)

lemma reserved_reservation_made:
  "node wid s = Some n \<Longrightarrow> reserved w (reservation_made wid v s) = reserved w s + (if w = wid then 1 else 0)"
  by (auto simp: reserved_def node_reservation_made split: option.splits)

lemma reserved_release:
  "0 < reserved wid s \<Longrightarrow> reserved w (release_worker wid s) = reserved w s - (if w = wid then 1 else 0)"
  by (auto simp: reserved_def node_release_worker split: option.splits)

lemma reserved_cursor_at [simp]: "reserved w (cursor_at k s) = reserved w s"
  by (simp add: reserved_def)

lemma select_fails: "select_worker c X s = (Inl e, t) \<Longrightarrow> t = s"
  by (auto simp: select_worker_def Let_def split: if_splits)

lemma select_reserves:
  assumes "registry_wf s" "select_worker c X s = (Inr wid, t)"
  shows "reserved w t = reserved w s + (if w = wid then 1 else 0)"
  using assms(2,1) by (rule select_workerE) (simp add: reserved_reservation_made)

lemma sched_wf_select [invariant_intros]:
  assumes wf: "sched_wf s"
  shows "sched_wf (snd (select_worker c X s))"
proof (cases "select_worker c X s")
  case (Pair r t)
  show ?thesis
  proof (cases r)
    case (Inl e)
    with Pair have "t = s" by (simp add: select_fails)
    with Pair wf show ?thesis by simp
  next
    case (Inr wid)
    with Pair have sel: "select_worker c X s = (Inr wid, t)" by simp
    moreover have "registry_wf s" using wf by (rule sched_wfD)
    ultimately have "registry_wf t"
      by (rule select_workerE)
        (use \<open>registry_wf s\<close> in \<open>simp add: registry_wf_reservation\<close>)
    with select_reserves [OF \<open>registry_wf s\<close> sel] wf Pair show ?thesis
      by (simp add: sched_wf_def)
  qed
qed

lemma sched_wf_release [invariant_intros]:
  assumes "sched_wf s"
  shows "sched_wf (release_worker wid s)"
proof (cases "0 < reserved wid s")
  case True
  with assms show ?thesis
    by (auto simp: sched_wf_def reserved_release registry_wf_release intro: order_trans)
next
  case False
  then have "release_worker wid s = s"
    by (auto simp: release_worker_def reserved_def split: option.splits)
  with assms show ?thesis by simp
qed

lemma reserved_registry_ops [simp]:
  "reserved w (poll_begin wid s) = reserved w s"
  "reserved w (poll_end c wid p now s) = reserved w s"
  "reserved w (mark_unhealthy_immediately c wid s) = reserved w s"
  by (auto simp: reserved_def poll_begin_def node_poll_end node_mark frame_simps split: option.splits)

lemma sched_wf_registry_ops [invariant_intros]:
  "sched_wf s \<Longrightarrow> sched_wf (poll_begin wid s)"
  "sched_wf s \<Longrightarrow> sched_wf (poll_end c wid p now s)"
  "sched_wf s \<Longrightarrow> sched_wf (mark_unhealthy_immediately c wid s)"
  by (simp_all add: sched_wf_def invariant_intros)

section \<open>The scheduler provides the reservation interface\<close>

interpretation sched: ejecting_reservations
  "select_worker c" release_worker reserved "gateway_max_outstanding_per_worker c" sched_wf
  "mark_unhealthy_immediately c"
  for c
proof unfold_locales
  fix s :: "'a sched_scheme" and X w t v
  assume "sched_wf s" and sel: "select_worker c X s = (Inr w, t)"
  then have wf: "registry_wf s" by (simp add: sched_wf_def)
  with sel show "reserved v t = reserved v s + (if v = w then 1 else 0)"
    by (simp add: select_reserves)
  from sel wf show "w \<notin> X" by (rule select_workerE)
  from sel wf show "reserved w s < gateway_max_outstanding_per_worker c"
    by (rule select_workerE) (simp add: reserved_def)
qed (auto simp: select_fails reserved_release invariant_intros)

section \<open>Who is selected\<close>

text \<open>A worker that may be chosen: healthy, not excluded, below its reservation limit.\<close>

definition selectable :: "gateway_config \<Rightarrow> pystr set \<Rightarrow> pystr \<Rightarrow> 'a registry_scheme \<Rightarrow> bool" where
  "selectable c X w s \<longleftrightarrow> (\<exists>n. node w s = Some n \<and> state n = HEALTHY \<and> w \<notin> X \<and>
     outstanding_requests n < gateway_max_outstanding_per_worker c)"

lemma in_eligible_iff:
  assumes "registry_wf s"
  shows "n \<in> set (eligible_workers c X s) \<longleftrightarrow>
    node (worker_id n) s = Some n \<and> selectable c X (worker_id n) s"
  using node_in_values [OF assms, of n] by (auto simp: set_eligible selectable_def)

lemma eligible_Nil_iff:
  assumes "registry_wf s"
  shows "eligible_workers c X s = [] \<longleftrightarrow> (\<forall>w. \<not> selectable c X w s)"
proof
  assume e: "eligible_workers c X s = []"
  show "\<forall>w. \<not> selectable c X w s"
  proof (intro allI notI)
    fix w assume "selectable c X w s"
    then obtain n where "node w s = Some n" and sel: "selectable c X w s" by (auto simp: selectable_def)
    then have "n \<in> set (eligible_workers c X s)"
      using in_eligible_iff [OF assms, of n c X] registry_wf_worker_id [OF assms, of w n] by simp
    with e show False by simp
  qed
next
  assume "\<forall>w. \<not> selectable c X w s"
  then have "\<not> (\<exists>n. n \<in> set (eligible_workers c X s))"
    using in_eligible_iff [OF assms, of _ c X] by blast
  then show "eligible_workers c X s = []" by (cases "eligible_workers c X s") auto
qed

lemma is_any_worker_healthy_iff:
  assumes "registry_wf s"
  shows "is_any_worker_healthy s \<longleftrightarrow> (\<exists>w n. node w s = Some n \<and> state n = HEALTHY)"
proof -
  have "is_any_worker_healthy s \<longleftrightarrow> (\<exists>n. node (worker_id n) s = Some n \<and> state n = HEALTHY)"
    using node_in_values [OF assms] by (auto simp: is_any_worker_healthy_def list_ex_iff)
  also have "\<dots> \<longleftrightarrow> (\<exists>w n. node w s = Some n \<and> state n = HEALTHY)"
    using registry_wf_worker_id [OF assms] by metis
  finally show ?thesis .
qed

lemma select_worker_cases:
  assumes "registry_wf s"
  shows "fst (select_worker c X s) =
    (if \<not> is_any_worker_healthy s then Inl NoHealthyWorkerError_default
     else if \<forall>w. \<not> selectable c X w s then Inl GatewayAtCapacityError_default
     else fst (select_worker c X s))"
  and "(\<exists>w. selectable c X w s) \<Longrightarrow> \<exists>w. fst (select_worker c X s) = Inr w"
  and "is_any_worker_healthy s \<Longrightarrow> (\<exists>w. selectable c X w s) \<Longrightarrow>
    \<exists>w. fst (select_worker c X s) = Inr w \<and> selectable c X w s"
proof -
  have healthy: "selectable c X w s \<Longrightarrow> healthy_workers s \<noteq> []" for w
    using is_any_worker_healthy_iff [OF assms] by (auto simp: selectable_def healthy_workers_Nil)
  note e = eligible_Nil_iff [OF assms, of c X]
  show "fst (select_worker c X s) =
    (if \<not> is_any_worker_healthy s then Inl NoHealthyWorkerError_default
     else if \<forall>w. \<not> selectable c X w s then Inl GatewayAtCapacityError_default
     else fst (select_worker c X s))"
    by (simp add: select_worker_def healthy_workers_Nil e)
  show ex: "\<exists>w. fst (select_worker c X s) = Inr w" if "\<exists>w. selectable c X w s"
    using that healthy e by (auto simp: select_worker_def Let_def)
  show "\<exists>w. fst (select_worker c X s) = Inr w \<and> selectable c X w s"
    if "\<exists>w. selectable c X w s"
  proof -
    from ex [OF that] obtain w t where sel: "select_worker c X s = (Inr w, t)"
      by (cases "select_worker c X s") auto
    from sel assms have "selectable c X w s"
      by (rule select_workerE) (auto simp: selectable_def)
    with sel show ?thesis by auto
  qed
qed

lemma select_outcome:
  assumes "sched_wf s"
  shows "case select_worker c X s of
      (Inl e, t) \<Rightarrow> t = s \<and> (\<forall>w. \<not> selectable c X w s) \<and>
        e = (if \<exists>w n. node w s = Some n \<and> state n = HEALTHY then GatewayAtCapacityError_default
             else NoHealthyWorkerError_default)
    | (Inr w, t) \<Rightarrow> selectable c X w s \<and>
        (\<forall>v. selectable c X v s \<longrightarrow> reserved w s \<le> reserved v s) \<and>
        (\<forall>v. reserved v t = reserved v s + (if v = w then 1 else 0))"
proof (cases "select_worker c X s")
  case (Pair r t)
  have wf: "registry_wf s" using assms by (rule sched_wfD)
  show ?thesis
  proof (cases r)
    case (Inl e)
    have "\<forall>w. \<not> selectable c X w s"
      using select_worker_cases(2) [OF wf, of c X] Pair Inl by auto
    with Pair Inl select_fails [of c X s e t] is_any_worker_healthy_iff [OF wf]
      select_worker_cases(1) [OF wf, of c X] show ?thesis by auto
  next
    case (Inr w)
    with Pair have sel: "select_worker c X s = (Inr w, t)" by simp
    from sel wf obtain n where n: "node w s = Some n" "n \<in> set (least_loaded (eligible_workers c X s))"
      "state n = HEALTHY" "w \<notin> X" "outstanding_requests n < gateway_max_outstanding_per_worker c"
      by (rule select_workerE)
    have "reserved w s \<le> reserved v s" if v: "selectable c X v s" for v
    proof -
      obtain m where m: "node v s = Some m" using v by (auto simp: selectable_def)
      then have "worker_id m = v" using wf by (intro registry_wf_worker_id)
      with m v have "m \<in> set (eligible_workers c X s)" by (simp add: in_eligible_iff [OF wf])
      with least_loaded_min [OF n(2)] n(1) m show ?thesis by (simp add: reserved_def)
    qed
    with Pair Inr n select_reserves [OF wf sel] show ?thesis by (auto simp: selectable_def)
  qed
qed

section \<open>Rotation among tied workers\<close>

text \<open>A request served while nothing else happens: a reservation made and given back.\<close>

definition serve :: "gateway_config \<Rightarrow> 'a sched_scheme \<Rightarrow> pystr option \<times> 'a sched_scheme" where
  "serve c s =
     (case select_worker c {} s of
        (Inl e, t) \<Rightarrow> (None, t)
      | (Inr w, t) \<Rightarrow> (Some w, release_worker w t))"

fun serve_many :: "gateway_config \<Rightarrow> nat \<Rightarrow> 'a sched_scheme \<Rightarrow> pystr option list" where
  "serve_many c 0 s = []"
| "serve_many c (Suc k) s = (let (r, t) = serve c s in r # serve_many c k t)"

lemma serve_restores:
  assumes wf: "sched_wf s" and ne: "eligible_workers c {} s \<noteq> []"
  defines "cs \<equiv> least_loaded (eligible_workers c {} s)"
  shows "fst (serve c s) = Some (worker_id (cs ! (cursor s mod length cs))) \<and>
    workers (snd (serve c s)) = workers s \<and>
    GATEWAY_WORKER_HEALTHY (snd (serve c s)) = GATEWAY_WORKER_HEALTHY s \<and>
    cursor (snd (serve c s)) = (cursor s + 1) mod length cs"
proof -
  let ?n = "cs ! (cursor s mod length cs)"
  let ?k = "(cursor s + 1) mod length cs"
  let ?w = "worker_id ?n"
  have rwf: "registry_wf s" using wf by (rule sched_wfD)
  have "healthy_workers s \<noteq> []" using ne by (auto simp: eligible_workers_def)
  then have sel: "select_worker c {} s =
      (Inr ?w, reservation_made ?w (outstanding_requests ?n + 1) (cursor_at ?k s))"
    using ne by (simp add: select_worker_def Let_def reservation_made_def cursor_at_def cs_def)
  have "0 < length cs" using ne by (simp add: cs_def least_loaded_ne)
  then have "?n \<in> set cs" by simp
  then have "?n \<in> set (eligible_workers c {} s)"
    using set_least_loaded [of "eligible_workers c {} s"] unfolding cs_def by blast
  then have n: "node ?w s = Some ?n" by (simp add: in_eligible_iff [OF rwf])
  then have pos: "0 \<le> outstanding_requests ?n" using wf by (auto simp: sched_wf_def reserved_def dest: spec [of _ ?w])
  let ?t = "reservation_made ?w (outstanding_requests ?n + 1) (cursor_at ?k s)"
  have "node ?w ?t = Some (reserve ?n)" using n by (simp add: node_reservation_made)
  then have rel: "release_worker ?w ?t =
      set_outstanding_gauge ?w (outstanding_requests ?n) (upd_worker ?w unreserve ?t)"
    using pos by (simp add: release_worker_def)
  have "workers (upd_worker ?w unreserve ?t) = workers s"
  proof -
    have "workers (upd_worker ?w unreserve ?t) = dict_modify ?w (unreserve \<circ> reserve) (workers s)"
      by (simp add: upd_worker_def reservation_made_def dict_modify_comp cursor_at_def)
    also have "\<dots> = workers s"
      by (rule dict_modify_id) (use rwf in \<open>auto simp: registry_wf_def\<close>)
    finally show ?thesis .
  qed
  then have "workers (release_worker ?w ?t) = workers s" by (simp only: rel obs_workers)
  moreover have "serve c s = (Some ?w, release_worker ?w ?t)" by (simp only: serve_def sel prod.case sum.case)
  ultimately show ?thesis by (simp add: frame_simps)
qed

lemma eligible_cong:
  "workers t = workers s \<Longrightarrow> eligible_workers c X t = eligible_workers c X s"
  by (simp add: eligible_workers_def healthy_workers_def)

lemma sched_wf_cong:
  "workers t = workers s \<Longrightarrow> GATEWAY_WORKER_HEALTHY t = GATEWAY_WORKER_HEALTHY s \<Longrightarrow>
     sched_wf t \<longleftrightarrow> sched_wf s"
  by (simp add: sched_wf_def registry_wf_def reserved_def node_def)

lemma serve_many_rotates:
  assumes "sched_wf s" "eligible_workers c {} s \<noteq> []"
  defines "cs \<equiv> least_loaded (eligible_workers c {} s)"
  shows "serve_many c k s =
    map (\<lambda>i. Some (worker_id (cs ! ((cursor s + i) mod length cs)))) [0..<k]"
  using assms(1,2) unfolding cs_def
proof (induction k arbitrary: s)
  case (Suc k)
  let ?cs = "least_loaded (eligible_workers c {} s)"
  let ?t = "snd (serve c s)"
  note r = serve_restores [OF Suc.prems]
  then have same: "workers ?t = workers s" "eligible_workers c {} ?t = eligible_workers c {} s"
    using eligible_cong [of ?t s] by auto
  moreover have "sched_wf ?t" using sched_wf_cong [of ?t s] r Suc.prems(1) by simp
  ultimately have "serve_many c k ?t =
      map (\<lambda>i. Some (worker_id (?cs ! ((cursor ?t + i) mod length ?cs)))) [0..<k]"
    using Suc.IH [of ?t] Suc.prems(2) by simp
  moreover have "(cursor ?t + i) mod length ?cs = (cursor s + Suc i) mod length ?cs" for i
    using r by (simp add: mod_simps)
  ultimately show ?case
    using r by (simp add: split_beta upt_conv_Cons map_Suc_upt [symmetric] del: upt_Suc)
qed simp

end
