(* ===== verification/Client.thy ===== *)
theory Client
  imports Scheduler
begin

text \<open>
  The gateway's client, \<open>gateway/client.py\<close>: the two attempts of \<open>predict\<close>, the deadline budget they
  share, the retry rule, the mapping of gRPC errors and the release of the reservation in the
  \<open>finally\<close> block. One attempt is two stretches of code around the \<open>await\<close> of the call:
  \<open>attempt_begin\<close> up to it and \<open>attempt_end\<close> from it to the end of the loop body. What happens at the
  \<open>await\<close> comes from an \<open>attempt_env\<close>: the clock readings, the outcome of the call, and what other
  tasks do to the gateway's state meanwhile.
\<close>

section \<open>The code\<close>

text \<open>
  What the awaited call gives: a response, an \<open>AioRpcError\<close> with its code and details, any other
  exception, or the cancellation of the task.
\<close>

datatype rpc_outcome =
    RpcResponse predict_response
  | RpcError grpc_status "pystr option"
  | RpcRaised string
  | RpcCancelled

record prediction_result =
  pr_worker_id :: pystr
  pr_attempts :: nat
  pr_predictions :: "(pystr \<times> pyfloat) list"
  pr_timing :: "(string, pyfloat) dict"

text \<open>The local variables of \<open>predict\<close>.\<close>

record call =
  call_request :: predict_request
  gateway_deadline :: pyfloat
  exclude_ids :: "pystr set"

definition map_rpc_error :: "grpc_status \<Rightarrow> pystr option \<Rightarrow> app_error" where
  "map_rpc_error code rpc_details =
     (let details = (case rpc_details of None \<Rightarrow> [] | Some d \<Rightarrow> d) in
      if code = INVALID_ARGUMENT
        then (if py_contains (str ''UNSUPPORTED_MODEL'') details then UnsupportedModelError_default
              else InvalidRequestError_default)
      else if code = RESOURCE_EXHAUSTED then WorkerQueueFullError_default
      else if code = FAILED_PRECONDITION then WorkerUnavailableError_default
      else if code = DEADLINE_EXCEEDED then DeadlineExceededError_default
      else if code = INTERNAL then InternalServerError_default
      else InternalServerError (''gRPC error: '' @ status_name code))"

definition make_result :: "nat \<Rightarrow> pystr \<Rightarrow> predict_response \<Rightarrow> prediction_result" where
  "make_result attempt wid resp =
     \<lparr>pr_worker_id = wid, pr_attempts = attempt, pr_predictions = rs_predictions resp,
      pr_timing =
        [(''queue'', wt_queue_ms (rs_timing resp)), (''preprocess'', wt_preprocess_ms (rs_timing resp)),
         (''inference'', wt_inference_ms (rs_timing resp)),
         (''postprocess'', wt_postprocess_ms (rs_timing resp)),
         (''worker_total'', wt_worker_total_ms (rs_timing resp))]\<rparr>"

text \<open>From the top of the loop body to the call: the worker and the timeout of the call, or an error.\<close>

definition attempt_begin ::
  "gateway_config \<Rightarrow> pyfloat \<Rightarrow> call \<Rightarrow> 'a sched_scheme \<Rightarrow>
     (app_error + pystr \<times> pyfloat) \<times> 'a sched_scheme" where
  "attempt_begin c now k s =
     (let remaining = gateway_deadline k - now in
      if remaining \<le> 0
      then (Inl (DeadlineExceededError ''Gateway deadline exceeded before RPC dispatch.''), s)
      else case select_worker c (exclude_ids k) s of
          (Inl e, t) \<Rightarrow> (Inl e, t)
        | (Inr wid, t) \<Rightarrow> (Inr (wid, remaining), upd_worker wid get_stub t))"

datatype attempt_result = Returned prediction_result | Raised exn | Retry "pystr set"

text \<open>The \<open>try\<close> block's outcome, before \<open>finally\<close>.\<close>

definition handle_outcome ::
  "gateway_config \<Rightarrow> nat \<Rightarrow> pyfloat \<Rightarrow> call \<Rightarrow> pystr \<Rightarrow> rpc_outcome \<Rightarrow> 'a sched_scheme \<Rightarrow>
     attempt_result \<times> 'a sched_scheme" where
  "handle_outcome c attempt now k wid out s =
     (case out of
        RpcResponse resp \<Rightarrow> (Returned (make_result attempt wid resp), s)
      | RpcRaised e \<Rightarrow> (Raised (PyExn e), s)
      | RpcCancelled \<Rightarrow> (Raised Cancelled, s)
      | RpcError code details \<Rightarrow>
          (let s1 = inc_rpc_failures wid (status_name code) s in
           if code = UNAVAILABLE
           then let s2 = mark_unhealthy_immediately c wid s1;
                    remaining_after = gateway_deadline k - now in
                if attempt = 1 \<and> of_int (min_retry_budget_ms c) \<le> remaining_after * 1000
                then (Retry (insert wid (exclude_ids k)), inc_retries ''attempted'' s2)
                else (Raised (App (WorkerUnavailableError
                        ''Worker unavailable and retry budget exhausted.'')),
                      inc_retries ''failed'' s2)
           else (Raised (App (map_rpc_error code details)), s1)))"

definition attempt_end ::
  "gateway_config \<Rightarrow> nat \<Rightarrow> pyfloat \<Rightarrow> call \<Rightarrow> pystr \<Rightarrow> rpc_outcome \<Rightarrow> 'a sched_scheme \<Rightarrow>
     attempt_result \<times> 'a sched_scheme" where
  "attempt_end c attempt now k wid out s =
     (let (r, t) = handle_outcome c attempt now k wid out s in (r, release_worker wid t))"

text \<open>The loop, and the statement after it.\<close>

record 's attempt_env =
  env_begin :: pyfloat
  env_rpc :: "pystr \<Rightarrow> pyfloat \<Rightarrow> rpc_outcome"
  env_during :: "'s \<Rightarrow> 's"
  env_end :: pyfloat

fun run_attempts ::
  "gateway_config \<Rightarrow> (nat \<Rightarrow> 'a sched_scheme attempt_env) \<Rightarrow> call \<Rightarrow> nat list \<Rightarrow> 'a sched_scheme \<Rightarrow>
     (exn + prediction_result) \<times> 'a sched_scheme" where
  "run_attempts c env k [] s =
     (Inl (App (WorkerUnavailableError ''Prediction failed after retries.'')), s)"
| "run_attempts c env k (attempt # rest) s =
     (case attempt_begin c (env_begin (env attempt)) k s of
        (Inl e, t) \<Rightarrow> (Inl (App e), t)
      | (Inr (wid, remaining), t) \<Rightarrow>
          (case attempt_end c attempt (env_end (env attempt)) k wid
                  (env_rpc (env attempt) wid remaining) (env_during (env attempt) t) of
             (Returned r, u) \<Rightarrow> (Inr r, u)
           | (Raised e, u) \<Rightarrow> (Inl e, u)
           | (Retry x, u) \<Rightarrow> run_attempts c env (k\<lparr>exclude_ids := x\<rparr>) rest u))"

definition start_call :: "pyfloat \<Rightarrow> pystr \<Rightarrow> pystr list \<Rightarrow> pystr \<Rightarrow> int \<Rightarrow> call" where
  "start_call now request_id inputs version timeout_ms =
     \<lparr>call_request = \<lparr>rq_request_id = request_id, rq_model_version = version, rq_inputs = inputs\<rparr>,
      gateway_deadline = now + of_int timeout_ms / 1000, exclude_ids = {}\<rparr>"

definition predict ::
  "gateway_config \<Rightarrow> (nat \<Rightarrow> 'a sched_scheme attempt_env) \<Rightarrow> pyfloat \<Rightarrow> pystr \<Rightarrow> pystr list \<Rightarrow> pystr \<Rightarrow>
     int \<Rightarrow> 'a sched_scheme \<Rightarrow> (exn + prediction_result) \<times> 'a sched_scheme" where
  "predict c env now request_id inputs version timeout_ms s =
     run_attempts c env (start_call now request_id inputs version timeout_ms) [1, 2] s"

lemmas client_defs [component_defs] = attempt_begin_def attempt_end_def handle_outcome_def

section \<open>One attempt\<close>

lemma attempt_beginE:
  assumes "attempt_begin c now k s = (Inr (wid, remaining), t)"
  obtains u where "select_worker c (exclude_ids k) s = (Inr wid, u)" "t = upd_worker wid get_stub u"
    "remaining = gateway_deadline k - now" "0 < remaining"
  using assms by (auto simp: attempt_begin_def Let_def split: if_splits prod.splits sum.splits)

lemma attempt_begin_fails: "attempt_begin c now k s = (Inl e, t) \<Longrightarrow> t = s"
  by (auto simp: attempt_begin_def Let_def dest: select_fails split: if_splits prod.splits sum.splits)

lemma attempt_begin_error:
  "attempt_begin c now k s = (Inl e, t) \<Longrightarrow>
     e \<in> {DeadlineExceededError ''Gateway deadline exceeded before RPC dispatch.'',
          NoHealthyWorkerError_default, GatewayAtCapacityError_default}"
  by (auto simp: attempt_begin_def select_worker_def Let_def split: if_splits prod.splits sum.splits)

lemma handle_outcome_retry:
  "handle_outcome c attempt now k wid out s = (Retry x, t) \<longleftrightarrow>
     (\<exists>details. out = RpcError UNAVAILABLE details) \<and> attempt = 1 \<and>
     of_int (min_retry_budget_ms c) \<le> (gateway_deadline k - now) * 1000 \<and>
     x = insert wid (exclude_ids k) \<and>
     t = inc_retries ''attempted''
           (mark_unhealthy_immediately c wid (inc_rpc_failures wid (status_name UNAVAILABLE) s))"
  by (auto simp: handle_outcome_def Let_def split: rpc_outcome.splits)

lemma reserved_obs [simp]:
  "reserved w (inc_retries r s) = reserved w s" "reserved w (inc_rpc_failures v r s) = reserved w s"
  "reserved w (upd_worker v get_stub s) = reserved w s"
  by (auto simp: reserved_def frame_simps split: option.splits)

lemma reserved_handle_outcome:
  "reserved w (snd (handle_outcome c attempt now k wid out s)) = reserved w s"
  by (auto simp: handle_outcome_def Let_def split: rpc_outcome.splits)

lemma sched_wf_obs [invariant_intros]:
  "sched_wf s \<Longrightarrow> sched_wf (inc_retries r s)" "sched_wf s \<Longrightarrow> sched_wf (inc_rpc_failures w v s)"
  by (simp_all add: sched_wf_def registry_wf_def)

lemma sched_wf_get_stub [invariant_intros]: "sched_wf s \<Longrightarrow> sched_wf (upd_worker w get_stub s)"
  using sched_wf_registry_ops(1) [of s w] by (simp add: poll_begin_def)

lemma sched_wf_handle_outcome [invariant_intros]:
  "sched_wf s \<Longrightarrow> sched_wf (snd (handle_outcome c attempt now k wid out s))"
  by (auto simp: handle_outcome_def Let_def invariant_intros split: rpc_outcome.splits)

lemma sched_wf_attempt_begin [invariant_intros]:
  assumes "sched_wf s"
  shows "sched_wf (snd (attempt_begin c now k s))"
proof (cases "select_worker c (exclude_ids k) s")
  case (Pair r t)
  with sched_wf_select [OF assms, of c "exclude_ids k"] have "sched_wf t" by simp
  with Pair assms show ?thesis
    by (auto simp: attempt_begin_def Let_def sched_wf_get_stub split: sum.splits)
qed

lemma sched_wf_attempt_end [invariant_intros]:
  "sched_wf s \<Longrightarrow> sched_wf (snd (attempt_end c attempt now k wid out s))"
  using sched_wf_handle_outcome [of s c attempt now k wid out]
  by (auto simp: attempt_end_def split: prod.splits intro: invariant_intros)

text \<open>The ledger of calls in flight: an attempt that begins adds its worker, one that ends removes it.\<close>

lemma ledger_attempt_begin:
  assumes "sched_wf s" "ledger reserved s ws" "attempt_begin c now k s = (Inr (wid, remaining), t)"
  shows "ledger reserved t (wid # ws)"
  using assms(3)
proof (rule attempt_beginE)
  fix u
  assume "select_worker c (exclude_ids k) s = (Inr wid, u)" "t = upd_worker wid get_stub u"
  with sched.ledger_select [OF assms(1,2)] show ?thesis by (simp add: ledger_def)
qed

lemma ledger_attempt_end:
  assumes "sched_wf s" "ledger reserved s ws" "wid \<in> set ws"
  shows "ledger reserved (snd (attempt_end c attempt now k wid out s)) (remove1 wid ws)"
proof -
  let ?t = "snd (handle_outcome c attempt now k wid out s)"
  have "ledger reserved ?t ws"
    using assms(2) by (simp add: ledger_def reserved_handle_outcome)
  then have "ledger reserved (release_worker wid ?t) (remove1 wid ws)"
    using assms by (intro sched.ledger_release) (auto intro: invariant_intros)
  then show ?thesis by (simp add: attempt_end_def split_beta)
qed

section \<open>The calls one prediction makes\<close>

text \<open>The workers called and the timeouts passed, in order: the trace of \<open>run_attempts\<close>.\<close>

fun rpc_trace ::
  "gateway_config \<Rightarrow> (nat \<Rightarrow> 'a sched_scheme attempt_env) \<Rightarrow> call \<Rightarrow> nat list \<Rightarrow> 'a sched_scheme \<Rightarrow>
     (pystr \<times> pyfloat) list" where
  "rpc_trace c env k [] s = []"
| "rpc_trace c env k (attempt # rest) s =
     (case attempt_begin c (env_begin (env attempt)) k s of
        (Inl e, t) \<Rightarrow> []
      | (Inr (wid, remaining), t) \<Rightarrow>
          (wid, remaining) #
          (case attempt_end c attempt (env_end (env attempt)) k wid
                  (env_rpc (env attempt) wid remaining) (env_during (env attempt) t) of
             (Retry x, u) \<Rightarrow> rpc_trace c env (k\<lparr>exclude_ids := x\<rparr>) rest u
           | _ \<Rightarrow> []))"

definition predict_trace ::
  "gateway_config \<Rightarrow> (nat \<Rightarrow> 'a sched_scheme attempt_env) \<Rightarrow> pyfloat \<Rightarrow> pystr \<Rightarrow> pystr list \<Rightarrow> pystr \<Rightarrow>
     int \<Rightarrow> 'a sched_scheme \<Rightarrow> (pystr \<times> pyfloat) list" where
  "predict_trace c env now request_id inputs version timeout_ms s =
     rpc_trace c env (start_call now request_id inputs version timeout_ms) [1, 2] s"

text \<open>Other tasks may do what they like at an \<open>await\<close> as long as they keep the scheduler's invariant.\<close>

definition env_ok :: "(nat \<Rightarrow> 'a sched_scheme attempt_env) \<Rightarrow> bool" where
  "env_ok env \<longleftrightarrow> (\<forall>i s. sched_wf s \<longrightarrow> sched_wf (env_during (env i) s))"

lemma env_okD: "env_ok env \<Longrightarrow> sched_wf s \<Longrightarrow> sched_wf (env_during (env i) s)"
  by (simp add: env_ok_def)

lemma length_rpc_trace: "length (rpc_trace c env k attempts s) \<le> length attempts"
  by (induction attempts arbitrary: k s) (auto split: prod.splits sum.splits attempt_result.splits)

lemma attempt_end_retry:
  "attempt_end c attempt now k wid out s = (Retry x, u) \<Longrightarrow>
     (\<exists>details. out = RpcError UNAVAILABLE details) \<and> attempt = 1 \<and> x = insert wid (exclude_ids k) \<and>
     of_int (min_retry_budget_ms c) \<le> (gateway_deadline k - now) * 1000"
  by (auto simp: attempt_end_def handle_outcome_retry split: prod.splits)

lemma rpc_trace_excludes:
  assumes "sched_wf s" "env_ok env"
  shows "distinct (map fst (rpc_trace c env k attempts s)) \<and>
    fst ` set (rpc_trace c env k attempts s) \<inter> exclude_ids k = {}"
  using assms(1)
proof (induction attempts arbitrary: k s)
  case (Cons attempt rest)
  show ?case
  proof (cases "attempt_begin c (env_begin (env attempt)) k s")
    case (Pair r t)
    show ?thesis
    proof (cases r)
      case (Inr wr)
      obtain wid remaining where wr: "wr = (wid, remaining)" by (cases wr)
      with Pair Inr have beg: "attempt_begin c (env_begin (env attempt)) k s = (Inr (wid, remaining), t)"
        by simp
      then have fresh: "wid \<notin> exclude_ids k"
        by (rule attempt_beginE) (rule sched.select_excludes [OF Cons.prems])
      let ?t = "env_during (env attempt) t"
      let ?fin = "attempt_end c attempt (env_end (env attempt)) k wid (env_rpc (env attempt) wid remaining) ?t"
      have "sched_wf t" using sched_wf_attempt_begin [OF Cons.prems, of c "env_begin (env attempt)" k] beg by simp
      then have wf: "sched_wf (snd ?fin)" using assms(2) by (intro sched_wf_attempt_end env_okD)
      show ?thesis
      proof (cases "\<exists>x u. ?fin = (Retry x, u)")
        case True
        then obtain x u where e: "?fin = (Retry x, u)" by blast
        with attempt_end_retry [OF e] wf Cons.IH [of u "k\<lparr>exclude_ids := x\<rparr>"]
        show ?thesis using beg fresh by auto
      next
        case False
        then show ?thesis
          using beg fresh by (auto split: prod.splits attempt_result.splits)
      qed
    qed (use Pair in auto)
  qed
qed simp

lemma rpc_trace_timeouts:
  "(wid, remaining) \<in> set (rpc_trace c env k attempts s) \<Longrightarrow>
     0 < remaining \<and> (\<exists>i \<in> set attempts. remaining = gateway_deadline k - env_begin (env i))"
proof (induction attempts arbitrary: k s)
  case (Cons attempt rest)
  show ?case
  proof (cases "attempt_begin c (env_begin (env attempt)) k s")
    case (Pair r t)
    with Cons show ?thesis
      by (fastforce split: sum.splits prod.splits attempt_result.splits elim!: attempt_beginE)
  qed
qed simp

section \<open>The outcome of a prediction\<close>

lemma run_attempts_reserved:
  assumes "sched_wf s" "env_ok env" "\<And>i w t. reserved w (env_during (env i) t) = reserved w t"
  shows "reserved w (snd (run_attempts c env k attempts s)) = reserved w s"
  using assms(1)
proof (induction attempts arbitrary: k s)
  case (Cons attempt rest)
  show ?case
  proof (cases "attempt_begin c (env_begin (env attempt)) k s")
    case (Pair r t)
    show ?thesis
    proof (cases r)
      case (Inl e)
      with Pair show ?thesis by (auto dest: attempt_begin_fails)
    next
      case (Inr wr)
      obtain wid remaining where wr: "wr = (wid, remaining)" by (cases wr)
      with Pair Inr have beg: "attempt_begin c (env_begin (env attempt)) k s = (Inr (wid, remaining), t)"
        by simp
      then obtain u where sel: "select_worker c (exclude_ids k) s = (Inr wid, u)" "t = upd_worker wid get_stub u"
        by (rule attempt_beginE)
      have "sched_wf t" using sched_wf_attempt_begin [OF Cons.prems, of c "env_begin (env attempt)" k] beg by simp
      then have twf: "sched_wf (env_during (env attempt) t)" using assms(2) by (rule env_okD [rotated])
      let ?h = "handle_outcome c attempt (env_end (env attempt)) k wid
        (env_rpc (env attempt) wid remaining) (env_during (env attempt) t)"
      let ?fin = "attempt_end c attempt (env_end (env attempt)) k wid
        (env_rpc (env attempt) wid remaining) (env_during (env attempt) t)"
      have "reserved v (snd ?h) = reserved v s + (if v = wid then 1 else 0)" for v
        using sched.select_reserves [OF Cons.prems sel(1)] sel(2)
        by (simp add: reserved_handle_outcome assms(3))
      moreover have "0 \<le> reserved wid s" using Cons.prems by (rule sched_wfD)
      ultimately have same: "reserved v (snd ?fin) = reserved v s" for v
        by (simp add: attempt_end_def split_beta reserved_release)
      moreover have "sched_wf (snd ?fin)" using twf by (rule sched_wf_attempt_end)
      ultimately show ?thesis
        using beg Cons.IH by (auto split: prod.splits attempt_result.splits)
    qed
  qed
qed simp

lemma attempt_end_response:
  "attempt_end c attempt now k wid out s = (Returned r, u) \<longleftrightarrow>
     (\<exists>resp. out = RpcResponse resp \<and> r = make_result attempt wid resp) \<and> u = release_worker wid s"
  by (auto simp: attempt_end_def handle_outcome_def Let_def split: rpc_outcome.splits prod.splits)

lemma run_attempts_result:
  assumes "run_attempts c env k attempts s = (Inr r, u)"
  shows "\<exists>resp remaining. pr_attempts r \<in> set attempts \<and>
    (pr_worker_id r, remaining) \<in> set (rpc_trace c env k attempts s) \<and>
    env_rpc (env (pr_attempts r)) (pr_worker_id r) remaining = RpcResponse resp \<and>
    r = make_result (pr_attempts r) (pr_worker_id r) resp"
  using assms
proof (induction attempts arbitrary: k s)
  case (Cons attempt rest)
  then show ?case
    by (auto simp: attempt_end_response split: sum.splits prod.splits attempt_result.splits)
      (auto simp: make_result_def | blast)+
qed simp

end
