(* ===== verification/App.thy ===== *)
theory App
  imports Client Json
begin

text \<open>
  The HTTP side of the gateway, \<open>gateway/app.py\<close>: the validation of a prediction request, the predict
  endpoint, the health endpoints, the body-limit and metrics middleware, and the application's start
  and shutdown. The body arrives as bytes, and its JSON reading is a parameter (\<open>None\<close> when
  \<open>request.json()\<close> raises); routing to a path the source does not declare, and FastAPI's own
  responses there, are a parameter too. An exception no handler is registered for travels from the
  endpoint through \<open>call_next\<close> to the middleware.
\<close>

section \<open>Requests\<close>

text \<open>\<open>s.encode("utf-8")\<close>, which raises \<open>UnicodeEncodeError\<close> (\<open>None\<close>) on a lone surrogate.\<close>

definition utf8_char :: "codepoint \<Rightarrow> nat list option" where
  "utf8_char p =
     (if p < 128 then Some [p]
      else if p < 2048 then Some [192 + p div 64, 128 + p mod 64]
      else if 55296 \<le> p \<and> p \<le> 57343 then None
      else if p < 65536 then Some [224 + p div 4096, 128 + p div 64 mod 64, 128 + p mod 64]
      else Some [240 + p div 262144, 128 + p div 4096 mod 64, 128 + p div 64 mod 64, 128 + p mod 64])"

fun utf8_encode :: "pystr \<Rightarrow> nat list option" where
  "utf8_encode [] = Some []"
| "utf8_encode (p # ps) =
     (case utf8_char p of None \<Rightarrow> None
      | Some bs \<Rightarrow> map_option (\<lambda>rest. bs @ rest) (utf8_encode ps))"

text \<open>
  \<open>REQUEST_ID_REGEX.match\<close> for \<open>^[A-Za-z0-9._-]{1,64}$\<close>: some number of repetitions of the character
  class, then \<open>$\<close>, which in Python matches at the end and also just before a newline (code point 10)
  that ends the string.
\<close>

definition request_id_char :: "codepoint \<Rightarrow> bool" where
  "request_id_char p \<longleftrightarrow> 65 \<le> p \<and> p \<le> 90 \<or> 97 \<le> p \<and> p \<le> 122 \<or> 48 \<le> p \<and> p \<le> 57 \<or>
     p \<in> {46, 95, 45}"

definition at_dollar :: "pystr \<Rightarrow> bool" where
  "at_dollar rest \<longleftrightarrow> rest = [] \<or> rest = [10]"

definition request_id_match :: "pystr \<Rightarrow> bool" where
  "request_id_match s \<longleftrightarrow>
     list_ex (\<lambda>k. k \<le> length s \<and> list_all request_id_char (take k s) \<and> at_dollar (drop k s)) [1..<65]"

definition allowed_keys :: "pystr set" where
  "allowed_keys = {str ''request_id'', str ''inputs'', str ''model_version'', str ''timeout_ms''}"

record validated =
  v_request_id :: pystr
  v_inputs :: "pystr list"
  v_model_version :: pystr
  v_timeout_ms :: int

definition and_then :: "'e + 'a \<Rightarrow> ('a \<Rightarrow> 'e + 'b) \<Rightarrow> 'e + 'b" where
  "and_then r f = (case r of Inl e \<Rightarrow> Inl e | Inr x \<Rightarrow> f x)"

lemma and_then_simps [simp]: "and_then (Inl e) f = Inl e" "and_then (Inr x) f = f x"
  by (simp_all add: and_then_def)

lemma and_then_Inr: "and_then r f = Inr y \<longleftrightarrow> (\<exists>x. r = Inr x \<and> f x = Inr y)"
  by (cases r) simp_all

lemma and_then_Inl: "and_then r f = Inl e \<longleftrightarrow> r = Inl e \<or> (\<exists>x. r = Inr x \<and> f x = Inl e)"
  by (cases r) simp_all

definition check_request_id :: "pystr \<Rightarrow> (pystr, json) dict \<Rightarrow> exn + pystr" where
  "check_request_id fresh d =
     (case map_of d (str ''request_id'') of
        None \<Rightarrow> Inr fresh
      | Some JNull \<Rightarrow> Inr fresh
      | Some (JStr r) \<Rightarrow>
          if request_id_match r then Inr r
          else Inl (App (InvalidRequestError ''Invalid request_id format.''))
      | Some _ \<Rightarrow> Inl (App (InvalidRequestError ''Invalid request_id format.'')))"

text \<open>The loop over \<open>inputs\<close>: it accumulates \<open>total_bytes\<close> and here also the texts.\<close>

fun check_items :: "gateway_config \<Rightarrow> json list \<Rightarrow> int \<Rightarrow> pystr list \<Rightarrow> exn + int \<times> pystr list" where
  "check_items c [] total_bytes texts = Inr (total_bytes, rev texts)"
| "check_items c (inp # rest) total_bytes texts =
     (case inp of
        JStr s \<Rightarrow>
          if s = [] then Inl (App (InvalidRequestError ''inputs elements must be non-empty strings.''))
          else (case utf8_encode s of
              None \<Rightarrow> Inl (PyExn ''UnicodeEncodeError'')
            | Some bs \<Rightarrow>
                if max_input_bytes c < int (length bs)
                then Inl (App (RequestTooLargeError ''Input item byte limit exceeded.''))
                else check_items c rest (total_bytes + int (length bs)) (s # texts))
      | _ \<Rightarrow> Inl (App (InvalidRequestError ''inputs elements must be non-empty strings.'')))"

definition check_inputs :: "gateway_config \<Rightarrow> (pystr, json) dict \<Rightarrow> exn + pystr list" where
  "check_inputs c d =
     (case map_of d (str ''inputs'') of
        Some (JArr items) \<Rightarrow>
          if items = [] \<or> max_inputs_per_request c < int (length items)
          then Inl (App (InvalidRequestError ''inputs must be a non-empty list of 1 to 8 strings.''))
          else and_then (check_items c items 0 []) (\<lambda>(total_bytes, texts).
            if max_total_input_bytes c < total_bytes
            then Inl (App (RequestTooLargeError ''Total inputs byte limit exceeded.''))
            else Inr texts)
      | _ \<Rightarrow> Inl (App (InvalidRequestError ''inputs must be a non-empty list of 1 to 8 strings.'')))"

definition check_model_version :: "gateway_config \<Rightarrow> (pystr, json) dict \<Rightarrow> exn + pystr" where
  "check_model_version c d =
     (case map_of d (str ''model_version'') of
        None \<Rightarrow> Inr (model_version c)
      | Some j \<Rightarrow> if j = JStr (model_version c) then Inr (model_version c)
                  else Inl (App UnsupportedModelError_default))"

text \<open>In Python a \<open>bool\<close> is an \<open>int\<close>.\<close>

definition check_timeout :: "gateway_config \<Rightarrow> (pystr, json) dict \<Rightarrow> exn + int" where
  "check_timeout c d =
     (let v = (case map_of d (str ''timeout_ms'') of
                 None \<Rightarrow> Some (default_timeout_ms c)
               | Some (JInt n) \<Rightarrow> Some n
               | Some (JBool b) \<Rightarrow> Some (of_bool b)
               | Some _ \<Rightarrow> None)
      in case v of
           Some n \<Rightarrow> if min_timeout_ms c \<le> n \<and> n \<le> max_timeout_ms c then Inr n
                      else Inl (App (InvalidRequestError ''timeout_ms out of bounds.''))
         | None \<Rightarrow> Inl (App (InvalidRequestError ''timeout_ms out of bounds.'')))"

text \<open>The checks of \<open>predict\<close>, in the order of the code.\<close>

definition validate :: "gateway_config \<Rightarrow> pystr \<Rightarrow> json option \<Rightarrow> exn + validated" where
  "validate c fresh payload =
     (case payload of
        None \<Rightarrow> Inl (App (InvalidRequestError ''Invalid JSON payload.''))
      | Some (JObj d) \<Rightarrow>
          if \<not> fst ` set d \<subseteq> allowed_keys
          then Inl (App (InvalidRequestError ''Unknown fields in payload.''))
          else and_then (check_request_id fresh d) (\<lambda>request_id.
            and_then (check_inputs c d) (\<lambda>inputs.
            and_then (check_model_version c d) (\<lambda>version.
            and_then (check_timeout c d) (\<lambda>timeout_ms.
            Inr \<lparr>v_request_id = request_id, v_inputs = inputs, v_model_version = version,
                 v_timeout_ms = timeout_ms\<rparr>))))
      | Some _ \<Rightarrow> Inl (App (InvalidRequestError ''Payload must be a JSON object.'')))"

section \<open>Responses and endpoints\<close>

record predict_content =
  pc_request_id :: pystr
  pc_model_version :: pystr
  pc_worker_id :: pystr
  pc_attempts :: nat
  pc_predictions :: "(pystr \<times> pyfloat) list"
  pc_timing_ms :: "(string, pyfloat) dict"

datatype http_content =
    ErrorContent pystr error_body
  | PredictContent predict_content
  | StatusContent string
  | MetricsContent
  | OtherContent pystr

record http_response =
  hr_status :: nat
  hr_content :: http_content

text \<open>The JSON bodies as their readers see them; the metrics are no JSON.\<close>

definition prediction_json :: "pystr \<times> pyfloat \<Rightarrow> json" where
  "prediction_json p = JObj [(str ''label'', JStr (fst p)), (str ''score'', JFloat (snd p))]"

definition content_json :: "http_content \<Rightarrow> json option" where
  "content_json content =
     (case content of
        ErrorContent request_id e \<Rightarrow>
          Some (JObj [(str ''request_id'', JStr request_id),
            (str ''error'', JObj [(str ''code'', JStr (str (eb_code e))), (str ''message'', JStr (str (eb_message e)))])])
      | PredictContent c \<Rightarrow>
          Some (JObj [(str ''request_id'', JStr (pc_request_id c)), (str ''model_version'', JStr (pc_model_version c)),
            (str ''worker_id'', JStr (pc_worker_id c)), (str ''attempts'', JInt (int (pc_attempts c))),
            (str ''predictions'', JArr (map prediction_json (pc_predictions c))),
            (str ''timing_ms'', JObj (map (\<lambda>(k, v). (str k, JFloat v)) (pc_timing_ms c)))])
      | StatusContent status \<Rightarrow> Some (JObj [(str ''status'', JStr (str status))])
      | MetricsContent \<Rightarrow> None
      | OtherContent text \<Rightarrow> None)"

record gateway = sched +
  accepting_requests :: bool

definition error_response :: "pystr \<Rightarrow> app_error \<Rightarrow> http_response" where
  "error_response request_id e =
     \<lparr>hr_status = err_status e, hr_content = ErrorContent request_id (to_dict e)\<rparr>"

text \<open>What the source reads from its surroundings while it serves one request.\<close>

record 's request_env =
  re_uuid :: pystr
  re_json :: "nat list \<Rightarrow> json option"
  re_perf :: "nat \<Rightarrow> pyfloat"
  re_loop_time :: pyfloat
  re_attempts :: "nat \<Rightarrow> 's attempt_env"

text \<open>The response of a prediction that has its result; \<open>t0\<close> and \<open>t1\<close> are the clock before and after.\<close>

definition success_response :: "validated \<Rightarrow> prediction_result \<Rightarrow> pyfloat \<Rightarrow> pyfloat \<Rightarrow> http_response" where
  "success_response v res t0 t1 =
     \<lparr>hr_status = 200,
      hr_content = PredictContent
        \<lparr>pc_request_id = v_request_id v, pc_model_version = v_model_version v,
         pc_worker_id = pr_worker_id res, pc_attempts = pr_attempts res, pc_predictions = pr_predictions res,
         pc_timing_ms = AList.update ''total'' (py_round2 ((t1 - t0) * 1000)) (pr_timing res)\<rparr>\<rparr>"

definition predict_endpoint ::
  "gateway_config \<Rightarrow> gateway request_env \<Rightarrow> nat list \<Rightarrow> gateway \<Rightarrow> (exn + http_response) \<times> gateway" where
  "predict_endpoint c env body s =
     (case validate c (re_uuid env) (re_json env body) of
        Inl e \<Rightarrow> (Inl e, s)
      | Inr v \<Rightarrow>
          (case predict c (re_attempts env) (re_loop_time env) (v_request_id v) (v_inputs v)
                  (v_model_version v) (v_timeout_ms v) s of
             (Inl (App e), t) \<Rightarrow> (Inr (error_response (v_request_id v) e), t)
           | (Inl e, t) \<Rightarrow> (Inl e, t)
           | (Inr res, t) \<Rightarrow> (Inr (success_response v res (re_perf env 0) (re_perf env 1)), t)))"

definition health_live :: http_response where
  "health_live = \<lparr>hr_status = 200, hr_content = StatusContent ''live''\<rparr>"

definition health_ready :: "gateway \<Rightarrow> http_response" where
  "health_ready s =
     (if accepting_requests s \<and> is_any_worker_healthy s
      then \<lparr>hr_status = 200, hr_content = StatusContent ''ready''\<rparr>
      else \<lparr>hr_status = 503, hr_content = StatusContent ''not_ready''\<rparr>)"

definition validation_exception_handler :: http_response where
  "validation_exception_handler =
     \<lparr>hr_status = 400, hr_content = ErrorContent [] (to_dict InvalidRequestError_default)\<rparr>"

record http_request =
  ht_method :: string
  ht_path :: pystr
  ht_content_length :: "pystr option"
  ht_body :: "nat list"

definition is_predict :: "http_request \<Rightarrow> bool" where
  "is_predict r \<longleftrightarrow> ht_method r = ''POST'' \<and> ht_path r = str ''/v1/predict''"

text \<open>The other declared routes; \<open>fallback\<close> is FastAPI's answer to everything else.\<close>

definition other_route :: "(http_request \<Rightarrow> http_response) \<Rightarrow> http_request \<Rightarrow> gateway \<Rightarrow> http_response" where
  "other_route fallback r s =
     (if ht_method r = ''GET'' \<and> ht_path r = str ''/health/live'' then health_live
      else if ht_method r = ''GET'' \<and> ht_path r = str ''/health/ready'' then health_ready s
      else if ht_method r = ''GET'' \<and> ht_path r = str ''/metrics''
        then \<lparr>hr_status = 200, hr_content = MetricsContent\<rparr>
      else fallback r)"

definition dispatch ::
  "gateway_config \<Rightarrow> gateway request_env \<Rightarrow> (http_request \<Rightarrow> http_response) \<Rightarrow> http_request \<Rightarrow> gateway \<Rightarrow>
     (exn + http_response) \<times> gateway" where
  "dispatch c env fallback r s =
     (if is_predict r then predict_endpoint c env (ht_body r) s else (Inr (other_route fallback r s), s))"

section \<open>The middleware\<close>

text \<open>The checks on a prediction request before its body is read, and those on its body.\<close>

definition header_check :: "gateway_config \<Rightarrow> http_request \<Rightarrow> gateway \<Rightarrow> (exn + http_response) option" where
  "header_check c r s =
     (if \<not> accepting_requests s then Some (Inr (error_response [] ServiceDrainingError_default))
      else case ht_content_length r of
          None \<Rightarrow> None
        | Some h \<Rightarrow>
            if h = [] then None
            else (case py_int h of
                None \<Rightarrow> Some (Inl (PyExn ''ValueError''))
              | Some n \<Rightarrow>
                  if http_max_body_bytes c < n then Some (Inr (error_response [] RequestTooLargeError_default))
                  else None))"

definition body_check :: "gateway_config \<Rightarrow> http_request \<Rightarrow> (exn + http_response) option" where
  "body_check c r =
     (if http_max_body_bytes c < int (length (ht_body r))
      then Some (Inr (error_response [] RequestTooLargeError_default)) else None)"

definition early_response :: "gateway_config \<Rightarrow> http_request \<Rightarrow> gateway \<Rightarrow> (exn + http_response) option" where
  "early_response c r s =
     (if ht_path r \<noteq> str ''/v1/predict'' then None
      else case header_check c r s of
          Some response \<Rightarrow> Some response
        | None \<Rightarrow> body_check c r)"

lemmas early_defs = early_response_def header_check_def body_check_def

text \<open>The response, and the labels the \<open>finally\<close> block counts the request under.\<close>

definition settle :: "exn + http_response \<Rightarrow> (exn + http_response) \<times> nat \<times> string" where
  "settle r =
     (case r of
        Inr resp \<Rightarrow> (Inr resp, hr_status resp, ''NONE'')
      | Inl (App e) \<Rightarrow> (Inr (error_response [] e), err_status e, err_code e)
      | Inl (PyExn n) \<Rightarrow>
          (Inr \<lparr>hr_status = 500, hr_content = ErrorContent []
                 \<lparr>eb_code = ''INTERNAL_ERROR'', eb_message = ''Internal server error.''\<rparr>\<rparr>,
           500, ''INTERNAL_ERROR'')
      | Inl Cancelled \<Rightarrow> (Inl Cancelled, 500, ''NONE''))"

definition middleware ::
  "gateway_config \<Rightarrow> (gateway \<Rightarrow> (exn + http_response) \<times> gateway) \<Rightarrow> (nat \<Rightarrow> pyfloat) \<Rightarrow> http_request \<Rightarrow>
     gateway \<Rightarrow> (exn + http_response) \<times> gateway" where
  "middleware c call_next clock r s =
     (case early_response c r s of
        Some response \<Rightarrow> (response, s)
      | None \<Rightarrow>
          (let (outcome, t) = call_next (add_active 1 s);
               (response, status, code) = settle outcome
           in (response,
               inc_requests_total status code
                 (observe_duration (clock 1 - clock 0) (add_active (-1) t)))))"

definition handle_request ::
  "gateway_config \<Rightarrow> gateway request_env \<Rightarrow> (http_request \<Rightarrow> http_response) \<Rightarrow> (nat \<Rightarrow> pyfloat) \<Rightarrow>
     http_request \<Rightarrow> gateway \<Rightarrow> (exn + http_response) \<times> gateway" where
  "handle_request c env fallback clock r s = middleware c (dispatch c env fallback r) clock r s"

section \<open>Start and shutdown\<close>

definition lifespan_startup :: "gateway \<Rightarrow> gateway" where
  "lifespan_startup s = start_registry (s\<lparr>accepting_requests := True\<rparr>)"

definition lifespan_shutdown :: "gateway \<Rightarrow> gateway" where
  "lifespan_shutdown s = stop_registry (s\<lparr>accepting_requests := False\<rparr>)"

section \<open>Validation\<close>

text \<open>The strings the expression matches.\<close>

lemma request_id_match_iff:
  "request_id_match s \<longleftrightarrow>
     (\<exists>b. (s = b \<or> s = b @ [10]) \<and> 1 \<le> length b \<and> length b \<le> 64 \<and> list_all request_id_char b)"
proof
  assume "request_id_match s"
  then obtain k where k: "1 \<le> k" "k < 65" "k \<le> length s" "list_all request_id_char (take k s)"
    "at_dollar (drop k s)"
    by (auto simp: request_id_match_def list_ex_iff)
  have "s = take k s \<or> s = take k s @ [10]"
    using k(5) append_take_drop_id [of k s] by (metis append_Nil2 at_dollar_def)
  moreover have "1 \<le> length (take k s)" "length (take k s) \<le> 64" using k by simp_all
  ultimately show "\<exists>b. (s = b \<or> s = b @ [10]) \<and> 1 \<le> length b \<and> length b \<le> 64 \<and> list_all request_id_char b"
    using k(4) by blast
next
  assume "\<exists>b. (s = b \<or> s = b @ [10]) \<and> 1 \<le> length b \<and> length b \<le> 64 \<and> list_all request_id_char b"
  then obtain b where b: "s = b \<or> s = b @ [10]" "1 \<le> length b" "length b \<le> 64" "list_all request_id_char b"
    by blast
  then have "length b \<in> set [1..<65]" by simp
  moreover have "length b \<le> length s" "take (length b) s = b" "at_dollar (drop (length b) s)"
    using b(1) by (auto simp: at_dollar_def)
  ultimately show "request_id_match s"
    using b(4) unfolding request_id_match_def list_ex_iff by auto
qed

text \<open>The size of a text in bytes, and the shape of the encoder's failure.\<close>

definition surrogate :: "codepoint \<Rightarrow> bool" where
  "surrogate p \<longleftrightarrow> 55296 \<le> p \<and> p \<le> 57343"

definition utf8_size :: "pystr \<Rightarrow> nat" where
  "utf8_size s = sum_list (map (\<lambda>p. if p < 128 then 1 else if p < 2048 then 2 else if p < 65536 then 3 else 4) s)"

lemma utf8_encode_spec:
  "map_option length (utf8_encode s) = (if list_ex surrogate s then None else Some (utf8_size s))"
  by (induction s)
    (auto simp: utf8_char_def surrogate_def utf8_size_def split: option.splits if_splits)

lemma utf8_encode_None: "utf8_encode s = None \<longleftrightarrow> list_ex surrogate s"
  using utf8_encode_spec [of s] by (cases "utf8_encode s") (auto split: if_splits)

lemma utf8_encode_Some: "utf8_encode s = Some bs \<Longrightarrow> length bs = utf8_size s \<and> \<not> list_ex surrogate s"
  using utf8_encode_spec [of s] by (auto split: if_splits)

definition item_ok :: "gateway_config \<Rightarrow> pystr \<Rightarrow> bool" where
  "item_ok c s \<longleftrightarrow> s \<noteq> [] \<and> \<not> list_ex surrogate s \<and> int (utf8_size s) \<le> max_input_bytes c"

definition total_size :: "pystr list \<Rightarrow> int" where
  "total_size ss = int (sum_list (map utf8_size ss))"

lemma check_items_Inr:
  "check_items c items t acc = Inr (u, texts) \<longleftrightarrow>
     (\<exists>ss. items = map JStr ss \<and> list_all (item_ok c) ss \<and> u = t + total_size ss \<and> texts = rev acc @ ss)"
proof (induction items arbitrary: t acc)
  case (Cons j items)
  show ?case
  proof (cases "\<exists>s. j = JStr s \<and> item_ok c s")
    case True
    then obtain s where s: "j = JStr s" "item_ok c s" by blast
    then obtain bs where bs: "utf8_encode s = Some bs" "length bs = utf8_size s"
      by (cases "utf8_encode s") (auto simp: item_ok_def utf8_encode_None dest: utf8_encode_Some)
    have "check_items c (j # items) t acc = check_items c items (t + int (utf8_size s)) (s # acc)"
      using s bs by (simp add: item_ok_def)
    with Cons.IH [of "t + int (utf8_size s)" "s # acc"] s show ?thesis
      by (auto simp: total_size_def Cons_eq_map_conv)
  next
    case False
    then have "check_items c (j # items) t acc \<noteq> Inr (u, texts)"
      by (auto simp: item_ok_def split: json.splits option.splits dest!: utf8_encode_Some)
    with False show ?thesis by (auto simp: Cons_eq_map_conv)
  qed
qed (auto simp: total_size_def)

text \<open>
  The request contract, stated on the payload: the only fields are the four known ones, the optional
  ones may be left out, and the limits of the configuration hold.
\<close>

definition id_resolves :: "pystr \<Rightarrow> json option \<Rightarrow> pystr \<Rightarrow> bool" where
  "id_resolves fresh j r \<longleftrightarrow>
     (j = None \<or> j = Some JNull) \<and> r = fresh \<or> j = Some (JStr r) \<and> request_id_match r"

definition inputs_accepted :: "gateway_config \<Rightarrow> json option \<Rightarrow> pystr list \<Rightarrow> bool" where
  "inputs_accepted c j ss \<longleftrightarrow> j = Some (JArr (map JStr ss)) \<and> ss \<noteq> [] \<and>
     int (length ss) \<le> max_inputs_per_request c \<and> list_all (item_ok c) ss \<and>
     total_size ss \<le> max_total_input_bytes c"

definition timeout_read :: "gateway_config \<Rightarrow> json option \<Rightarrow> int \<Rightarrow> bool" where
  "timeout_read c j n \<longleftrightarrow> j = None \<and> n = default_timeout_ms c \<or> j = Some (JInt n) \<or>
     j = Some (JBool True) \<and> n = 1 \<or> j = Some (JBool False) \<and> n = 0"

definition valid_payload :: "gateway_config \<Rightarrow> pystr \<Rightarrow> (pystr, json) dict \<Rightarrow> validated \<Rightarrow> bool" where
  "valid_payload c fresh d v \<longleftrightarrow> fst ` set d \<subseteq> allowed_keys \<and>
     id_resolves fresh (map_of d (str ''request_id'')) (v_request_id v) \<and>
     inputs_accepted c (map_of d (str ''inputs'')) (v_inputs v) \<and>
     map_of d (str ''model_version'') \<in> {None, Some (JStr (model_version c))} \<and>
     v_model_version v = model_version c \<and>
     timeout_read c (map_of d (str ''timeout_ms'')) (v_timeout_ms v) \<and>
     min_timeout_ms c \<le> v_timeout_ms v \<and> v_timeout_ms v \<le> max_timeout_ms c"

lemma check_request_id_Inr:
  "check_request_id fresh d = Inr r \<longleftrightarrow> id_resolves fresh (map_of d (str ''request_id'')) r"
  by (auto simp: check_request_id_def id_resolves_def split: option.splits json.splits)

lemma check_inputs_Inr:
  "check_inputs c d = Inr ss \<longleftrightarrow> inputs_accepted c (map_of d (str ''inputs'')) ss"
proof (cases "\<exists>items. map_of d (str ''inputs'') = Some (JArr items)")
  case True
  then obtain items where j: "map_of d (str ''inputs'') = Some (JArr items)" by blast
  show ?thesis
  proof (cases "items = [] \<or> max_inputs_per_request c < int (length items)")
    case True
    with j show ?thesis by (auto simp: check_inputs_def inputs_accepted_def)
  next
    case False
    then have "check_inputs c d = Inr ss \<longleftrightarrow>
        (\<exists>u. check_items c items 0 [] = Inr (u, ss) \<and> u \<le> max_total_input_bytes c)"
      using j by (cases "check_items c items 0 []") (auto simp: check_inputs_def split: if_splits)
    also have "\<dots> \<longleftrightarrow> items = map JStr ss \<and> list_all (item_ok c) ss \<and> total_size ss \<le> max_total_input_bytes c"
      by (auto simp: check_items_Inr)
    also have "\<dots> \<longleftrightarrow> inputs_accepted c (map_of d (str ''inputs'')) ss"
      using j False by (auto simp: inputs_accepted_def)
    finally show ?thesis .
  qed
qed (auto simp: check_inputs_def inputs_accepted_def split: option.splits json.splits)

lemma check_model_version_Inr:
  "check_model_version c d = Inr r \<longleftrightarrow>
     map_of d (str ''model_version'') \<in> {None, Some (JStr (model_version c))} \<and> r = model_version c"
  by (auto simp: check_model_version_def split: option.splits)

lemma check_timeout_Inr:
  "check_timeout c d = Inr n \<longleftrightarrow>
     timeout_read c (map_of d (str ''timeout_ms'')) n \<and> min_timeout_ms c \<le> n \<and> n \<le> max_timeout_ms c"
  by (auto simp: check_timeout_def timeout_read_def Let_def split: option.splits json.splits)

lemmas check_Inr = check_request_id_Inr check_inputs_Inr check_model_version_Inr check_timeout_Inr

lemma validate_Inr:
  "validate c fresh payload = Inr v \<longleftrightarrow> (\<exists>d. payload = Some (JObj d) \<and> valid_payload c fresh d v)"
proof (cases "\<exists>d. payload = Some (JObj d)")
  case True
  then obtain d where d: "payload = Some (JObj d)" by blast
  have "validate c fresh payload = Inr v \<longleftrightarrow> fst ` set d \<subseteq> allowed_keys \<and>
      (\<exists>r ss ver n. check_request_id fresh d = Inr r \<and> check_inputs c d = Inr ss \<and>
        check_model_version c d = Inr ver \<and> check_timeout c d = Inr n \<and>
        \<lparr>v_request_id = r, v_inputs = ss, v_model_version = ver, v_timeout_ms = n\<rparr> = v)"
    by (auto simp: validate_def d and_then_Inr)
  also have "\<dots> \<longleftrightarrow> valid_payload c fresh d v"
    by (cases v) (auto simp: check_Inr valid_payload_def)
  finally show ?thesis using d by simp
qed (auto simp: validate_def split: option.splits json.splits)

text \<open>How validation fails: an application error for the client, or the encoder's own exception.\<close>

lemma check_items_Inl:
  "check_items c items t acc = Inl e \<Longrightarrow>
     (\<exists>a. e = App a \<and> err_status a \<in> {400, 413}) \<or>
     e = PyExn ''UnicodeEncodeError'' \<and> (\<exists>s. JStr s \<in> set items \<and> list_ex surrogate s)"
proof (induction items arbitrary: t acc)
  case (Cons j items)
  show ?case
  proof (cases "\<exists>t' acc'. check_items c items t' acc' = Inl e")
    case True
    then obtain t' acc' where "check_items c items t' acc' = Inl e" by blast
    from Cons.IH [OF this] show ?thesis
      by (rule disjE) (simp, meson list.set_intros(2))
  next
    case False
    with Cons.prems show ?thesis
      by (cases j) (auto simp: utf8_encode_None split: if_splits option.splits)
  qed
qed simp

definition encodable :: "json option \<Rightarrow> bool" where
  "encodable payload \<longleftrightarrow>
     (case payload of
        Some (JObj d) \<Rightarrow>
          (case map_of d (str ''inputs'') of
             Some (JArr items) \<Rightarrow> list_all (\<lambda>j. case j of JStr s \<Rightarrow> \<not> list_ex surrogate s | _ \<Rightarrow> True) items
           | _ \<Rightarrow> True)
      | _ \<Rightarrow> True)"

lemma check_inputs_Inl:
  "check_inputs c d = Inl e \<Longrightarrow>
     (\<exists>a. e = App a \<and> err_status a \<in> {400, 413}) \<or>
     e = PyExn ''UnicodeEncodeError'' \<and> \<not> encodable (Some (JObj d))"
  by (auto simp: check_inputs_def and_then_Inl encodable_def list_all_iff dest!: check_items_Inl
      split: option.splits json.splits if_splits prod.splits)

lemma check_other_Inl:
  "check_request_id fresh d = Inl e \<Longrightarrow> \<exists>a. e = App a \<and> err_status a = 400"
  "check_model_version c d = Inl e \<Longrightarrow> \<exists>a. e = App a \<and> err_status a = 400"
  "check_timeout c d = Inl e \<Longrightarrow> \<exists>a. e = App a \<and> err_status a = 400"
  by (auto simp: check_request_id_def check_model_version_def check_timeout_def Let_def error_defaults
      split: option.splits json.splits if_splits)

lemma validate_Inl:
  "validate c fresh payload = Inl e \<Longrightarrow>
     (\<exists>a. e = App a \<and> err_status a \<in> {400, 413}) \<or>
     e = PyExn ''UnicodeEncodeError'' \<and> \<not> encodable payload"
  by (fastforce simp: validate_def and_then_Inl
      dest: check_other_Inl check_inputs_Inl split: option.splits json.splits if_splits)

section \<open>Serving a request\<close>

lemma settle_simps [simp]:
  "settle (Inr resp) = (Inr resp, hr_status resp, ''NONE'')"
  "settle (Inl (App e)) = (Inr (error_response [] e), err_status e, err_code e)"
  "settle (Inl Cancelled) = (Inl Cancelled, 500, ''NONE'')"
  by (simp_all add: settle_def)

lemma dispatch_predict: "is_predict r \<Longrightarrow> dispatch c env fallback r s = predict_endpoint c env (ht_body r) s"
  by (simp add: dispatch_def)

text \<open>An error body tells its status: what \<open>error_response\<close> and the catch-all branch both build.\<close>

definition error_shape :: "http_response \<Rightarrow> bool" where
  "error_shape resp \<longleftrightarrow> (\<exists>rid b. hr_content resp = ErrorContent rid b \<and>
     hr_status resp = status_of_code (eb_code b) \<and> hr_status resp \<in> {400, 413, 429, 500, 503, 504})"

lemma error_shape_response: "error_shape (error_response rid e)"
  using err_status_range [of e] err_status_of_code [of e]
  by (simp add: error_shape_def error_response_def to_dict_def del: status_of_code.simps)

lemma error_shape_settle: "settle (Inl e) = (Inr resp, st, code) \<Longrightarrow> error_shape resp \<and> hr_status resp = st"
  by (cases e) (auto simp: error_shape_response settle_def, auto simp: error_shape_def error_response_def)

text \<open>A prediction response, and the call whose answer it passes on.\<close>

definition relays ::
  "gateway_config \<Rightarrow> gateway request_env \<Rightarrow> nat list \<Rightarrow> gateway \<Rightarrow> http_response \<Rightarrow> bool" where
  "relays c env body s resp \<longleftrightarrow>
     (\<exists>d v pc remaining answer.
        re_json env body = Some (JObj d) \<and> valid_payload c (re_uuid env) d v \<and>
        hr_status resp = 200 \<and> hr_content resp = PredictContent pc \<and>
        pc_request_id pc = v_request_id v \<and> pc_model_version pc = model_version c \<and>
        pc_attempts pc \<in> {1, 2} \<and>
        (pc_worker_id pc, remaining) \<in> set (predict_trace c (re_attempts env) (re_loop_time env)
          (v_request_id v) (v_inputs v) (v_model_version v) (v_timeout_ms v) s) \<and>
        env_rpc (re_attempts env (pc_attempts pc)) (pc_worker_id pc) remaining = RpcResponse answer \<and>
        pc_predictions pc = rs_predictions answer)"

lemma predict_result:
  assumes "predict c env now rid inputs ver t s = (Inr res, u)"
  shows "\<exists>remaining answer. pr_attempts res \<in> {1, 2} \<and>
    (pr_worker_id res, remaining) \<in> set (predict_trace c env now rid inputs ver t s) \<and>
    env_rpc (env (pr_attempts res)) (pr_worker_id res) remaining = RpcResponse answer \<and>
    pr_predictions res = rs_predictions answer"
proof -
  from run_attempts_result [OF assms [unfolded predict_def]] obtain resp remaining where
    "pr_attempts res \<in> set [1, 2]"
    "(pr_worker_id res, remaining) \<in> set (predict_trace c env now rid inputs ver t s)"
    "env_rpc (env (pr_attempts res)) (pr_worker_id res) remaining = RpcResponse resp"
    and r: "res = make_result (pr_attempts res) (pr_worker_id res) resp"
    unfolding predict_trace_def by blast
  moreover have "pr_predictions res = rs_predictions resp"
    by (subst r) (simp add: make_result_def)
  ultimately show ?thesis by auto
qed

lemma predict_endpoint_Inr:
  assumes "predict_endpoint c env body s = (Inr resp, t)"
  shows "relays c env body s resp \<or> error_shape resp"
proof (cases "validate c (re_uuid env) (re_json env body)")
  case (Inr v)
  then obtain d where d: "re_json env body = Some (JObj d)" "valid_payload c (re_uuid env) d v"
    by (auto simp: validate_Inr)
  obtain res u where p: "predict c (re_attempts env) (re_loop_time env) (v_request_id v) (v_inputs v)
      (v_model_version v) (v_timeout_ms v) s = (res, u)" by fastforce
  show ?thesis
  proof (cases res)
    case (Inl e)
    with assms Inr p show ?thesis
      by (cases e) (auto simp: predict_endpoint_def error_shape_response)
  next
    case (Inr r)
    with p have "predict c (re_attempts env) (re_loop_time env) (v_request_id v) (v_inputs v)
      (v_model_version v) (v_timeout_ms v) s = (Inr r, u)" by simp
    from predict_result [OF this] obtain remaining answer where ok: "pr_attempts r \<in> {1, 2}"
      "(pr_worker_id r, remaining) \<in> set (predict_trace c (re_attempts env) (re_loop_time env)
         (v_request_id v) (v_inputs v) (v_model_version v) (v_timeout_ms v) s)"
      "env_rpc (re_attempts env (pr_attempts r)) (pr_worker_id r) remaining = RpcResponse answer"
      "pr_predictions r = rs_predictions answer" by blast
    have ver: "v_model_version v = model_version c" using d(2) by (simp add: valid_payload_def)
    have resp: "resp = success_response v r (re_perf env 0) (re_perf env 1)"
      using assms p Inr \<open>validate c (re_uuid env) (re_json env body) = Inr v\<close>
      by (simp add: predict_endpoint_def)
    have "relays c env body s resp"
      unfolding relays_def
      by (rule exI [of _ d], rule exI [of _ v], rule exI [of _ "case hr_content resp of PredictContent pc \<Rightarrow> pc"],
          rule exI [of _ remaining], rule exI [of _ answer])
        (use ok d ver in \<open>simp add: resp success_response_def\<close>)
    then show ?thesis ..
  qed
qed (use assms in \<open>simp add: predict_endpoint_def\<close>)

lemma early_response_shape:
  "early_response c r s = Some (Inr resp) \<Longrightarrow> error_shape resp"
  by (auto simp: early_defs error_shape_response split: if_splits option.splits)

lemma early_response_ignores [simp]: "early_response c r (add_active k s) = early_response c r s"
  by (simp add: early_defs add_active_def)

lemma early_response_cong:
  "accepting_requests s = accepting_requests t \<Longrightarrow> early_response c r s = early_response c r t"
  by (simp add: early_defs)

text \<open>The request counter and the gauge of active requests across one pass of the middleware.\<close>

lemma middleware_counts:
  assumes "early_response c r s = None" "call_next (add_active 1 s) = (outcome, t)"
    "middleware c call_next clock r s = (response, u)"
  shows "GATEWAY_ACTIVE_REQUESTS u = GATEWAY_ACTIVE_REQUESTS t - 1 \<and>
    (\<exists>status code. settle outcome = (response, status, code) \<and>
      GATEWAY_REQUESTS_TOTAL u =
        (GATEWAY_REQUESTS_TOTAL t)((status, code) := Suc (GATEWAY_REQUESTS_TOTAL t (status, code)))) \<and>
    GATEWAY_REQUEST_DURATION_SECONDS u = GATEWAY_REQUEST_DURATION_SECONDS t @ [clock 1 - clock 0]"
  using assms by (cases "settle outcome") (auto simp: middleware_def obs_defs)

lemma middleware_early:
  "early_response c r s = Some response \<Longrightarrow> middleware c call_next clock r s = (response, s)"
  by (simp add: middleware_def)

section \<open>What a request leaves behind\<close>

lemma reserved_add_active [simp]: "reserved w (add_active k s) = reserved w s"
  by (simp add: reserved_def)

lemma sched_wf_add_active [simp]: "sched_wf (add_active k s) = sched_wf s"
  by (simp add: sched_wf_def registry_wf_def add_active_def reserved_def node_def)

definition others_balanced :: "(nat \<Rightarrow> gateway attempt_env) \<Rightarrow> bool" where
  "others_balanced env \<longleftrightarrow>
     (\<forall>i g. GATEWAY_ACTIVE_REQUESTS (env_during (env i) g) = GATEWAY_ACTIVE_REQUESTS g)"

text \<open>The three metrics the middleware keeps; the client and the scheduler leave them alone.\<close>

definition meters :: "'a obs_scheme \<Rightarrow> int \<times> (nat \<times> string \<Rightarrow> nat) \<times> pyfloat list" where
  "meters s = (GATEWAY_ACTIVE_REQUESTS s, GATEWAY_REQUESTS_TOTAL s, GATEWAY_REQUEST_DURATION_SECONDS s)"

lemma meters_obs [simp]:
  "meters (upd_worker w f t) = meters t" "meters (inc_retries q u) = meters u"
  "meters (inc_rpc_failures w q u) = meters u" "meters (set_outstanding_gauge w v u) = meters u"
  "meters (inc_routing w u) = meters u" "meters (set_healthy_gauge w v u) = meters u"
  "meters (log_call a b e d u) = meters u" "meters (x\<lparr>cursor := k\<rparr>) = meters x"
  by (simp_all add: meters_def obs_defs upd_worker_def)

lemma meters_scheduler [simp]:
  "meters (snd (select_worker c X s)) = meters s" "meters (release_worker w s) = meters s"
  "meters (mark_unhealthy_immediately c w t) = meters t"
  by (simp_all add: select_worker_def release_worker_def mark_unhealthy_immediately_def Let_def split: option.split)

lemma meters_attempt [simp]:
  "meters (snd (attempt_begin c now k s)) = meters s" "meters (snd (attempt_end c a now k w out s)) = meters s"
proof -
  show "meters (snd (attempt_begin c now k s)) = meters s"
    using meters_scheduler(1) [of c "exclude_ids k" s]
    by (cases "select_worker c (exclude_ids k) s") (auto simp: attempt_begin_def Let_def split: sum.split)
qed (auto simp: attempt_end_def handle_outcome_def Let_def split_beta split: rpc_outcome.split)

lemma active_run_attempts:
  assumes "others_balanced env"
  shows "GATEWAY_ACTIVE_REQUESTS (snd (run_attempts c env k attempts s)) = GATEWAY_ACTIVE_REQUESTS s"
proof (induction attempts arbitrary: k s)
  case (Cons a rest)
  obtain r t where b: "attempt_begin c (env_begin (env a)) k s = (r, t)" by fastforce
  with meters_attempt(1) [of c "env_begin (env a)" k s]
  have t: "GATEWAY_ACTIVE_REQUESTS t = GATEWAY_ACTIVE_REQUESTS s" by (simp add: meters_def)
  show ?case
  proof (cases r)
    case (Inr wr)
    obtain w rem where wr: "wr = (w, rem)" by (cases wr)
    obtain q u where e: "attempt_end c a (env_end (env a)) k w (env_rpc (env a) w rem)
        (env_during (env a) t) = (q, u)" by fastforce
    with meters_attempt(2) [of c a "env_end (env a)" k w "env_rpc (env a) w rem" "env_during (env a) t"]
      assms t have "GATEWAY_ACTIVE_REQUESTS u = GATEWAY_ACTIVE_REQUESTS s"
      by (simp add: others_balanced_def meters_def)
    with b Inr wr e Cons.IH show ?thesis by (simp split: attempt_result.split)
  qed (use b t in simp)
qed simp

lemma active_predict_endpoint:
  assumes "others_balanced (re_attempts env)"
  shows "GATEWAY_ACTIVE_REQUESTS (snd (predict_endpoint c env body s)) = GATEWAY_ACTIVE_REQUESTS s"
proof (cases "validate c (re_uuid env) (re_json env body)")
  case (Inr v)
  obtain r t where p: "predict c (re_attempts env) (re_loop_time env) (v_request_id v) (v_inputs v)
      (v_model_version v) (v_timeout_ms v) s = (r, t)" by fastforce
  with active_run_attempts [OF assms, of c "start_call (re_loop_time env) (v_request_id v) (v_inputs v)
      (v_model_version v) (v_timeout_ms v)" "[1, 2]" s]
  have "GATEWAY_ACTIVE_REQUESTS t = GATEWAY_ACTIVE_REQUESTS s" by (simp add: predict_def)
  with Inr p show ?thesis by (simp add: predict_endpoint_def split: sum.split exn.split)
qed (simp add: predict_endpoint_def)

lemma active_dispatch:
  "others_balanced (re_attempts env) \<Longrightarrow>
     GATEWAY_ACTIVE_REQUESTS (snd (dispatch c env fallback r s)) = GATEWAY_ACTIVE_REQUESTS s"
  by (simp add: dispatch_def active_predict_endpoint)

end
