(* ===== verification/Pollers.thy ===== *)
theory Pollers
  imports Registry "HOL-Library.Sublist"
begin

text \<open>
  The registry's tasks: one poller per worker and the shutdown that ends them. A poller is suspended in
  its sleep (or not yet started), in the call of \<open>GetStatus\<close>, or over; \<open>stop\<close> is suspended in the
  \<open>await\<close> of a poller it has cancelled or in that of a channel it closes. Each operation is the code from
  one \<open>await\<close> to the next. A cancelled poller runs no more of its own code: the exception reaches no
  handler of the loop, which catches \<open>Exception\<close> only.
\<close>

section \<open>State\<close>

datatype poller_phase = Waiting | Probing | Over

text \<open>Where \<open>stop\<close> is: the pollers it has still to cancel after the one awaited; the workers it has still
  to close, the first being the one awaited.\<close>

datatype stopper = Serving | Cancelling "pystr list" | Closing "pystr list" | Stopped

record pollers =
  phase_of :: "pystr \<Rightarrow> poller_phase"
  stopper :: stopper

section \<open>The poller\<close>

definition set_phase :: "pystr \<Rightarrow> poller_phase \<Rightarrow> pollers \<Rightarrow> pollers" where
  "set_phase wid ph p = p\<lparr>phase_of := (phase_of p)(wid := ph)\<rparr>"

text \<open>The tasks \<open>start\<close> creates.\<close>

definition started_pollers :: "'a registry_scheme \<Rightarrow> pollers" where
  "started_pollers s =
     \<lparr>phase_of = (\<lambda>wid. if wid \<in> set (poller_tasks s) then Waiting else Over), stopper = Serving\<rparr>"

text \<open>The loop head, reached at the start and after each sleep, and the code up to the call.\<close>

definition poller_resumes ::
  "pystr \<Rightarrow> pollers \<Rightarrow> 'a registry_scheme \<Rightarrow> (pollers \<times> 'a registry_scheme) option" where
  "poller_resumes wid p s =
     (if phase_of p wid \<noteq> Waiting then None
      else if stopping s then Some (set_phase wid Over p, s)
      else Some (set_phase wid Probing p, poll_begin wid s))"

text \<open>From the call to the sleep.\<close>

definition probe_returns ::
  "gateway_config \<Rightarrow> pystr \<Rightarrow> probe_result \<Rightarrow> pyfloat \<Rightarrow> pollers \<Rightarrow> 'a registry_scheme \<Rightarrow>
     (pollers \<times> 'a registry_scheme) option" where
  "probe_returns c wid out now p s =
     (if phase_of p wid \<noteq> Probing then None
      else Some (set_phase wid Waiting p, poll_end c wid out now s))"

section \<open>\<open>stop\<close>\<close>

definition channel_open :: "pystr \<Rightarrow> 'a registry_scheme \<Rightarrow> bool" where
  "channel_open wid s \<longleftrightarrow> (case node wid s of None \<Rightarrow> False | Some n \<Rightarrow> channel n \<noteq> None)"

text \<open>The loop over the workers, up to the next channel to close.\<close>

fun close_next :: "pystr list \<Rightarrow> 'a registry_scheme \<Rightarrow> stopper" where
  "close_next [] s = Stopped"
| "close_next (wid # wids) s = (if channel_open wid s then Closing (wid # wids) else close_next wids s)"

lemma close_next_flags [simp]: "close_next wids (s\<lparr>poller_tasks := ws\<rparr>) = close_next wids s"
  by (induction wids) (simp_all add: channel_open_def node_def)

text \<open>The loop over the tasks, up to the next one that is not over, and the code after it.\<close>

fun cancel_next :: "pystr list \<Rightarrow> pollers \<Rightarrow> 'a registry_scheme \<Rightarrow> pollers \<times> 'a registry_scheme" where
  "cancel_next [] p s = (p\<lparr>stopper := close_next (map fst (workers s)) s\<rparr>, s\<lparr>poller_tasks := []\<rparr>)"
| "cancel_next (wid # wids) p s =
     (if phase_of p wid = Over then cancel_next wids p s
      else ((set_phase wid Over p)\<lparr>stopper := Cancelling wids\<rparr>, s))"

definition stop_begins :: "pollers \<Rightarrow> 'a registry_scheme \<Rightarrow> (pollers \<times> 'a registry_scheme) option" where
  "stop_begins p s =
     (if stopper p \<noteq> Serving then None else Some (cancel_next (poller_tasks s) p (s\<lparr>stopping := True\<rparr>)))"

definition stop_resumes :: "pollers \<Rightarrow> 'a registry_scheme \<Rightarrow> (pollers \<times> 'a registry_scheme) option" where
  "stop_resumes p s =
     (case stopper p of
        Cancelling wids \<Rightarrow> Some (cancel_next wids p s)
      | Closing (wid # wids) \<Rightarrow>
          (let t = upd_worker wid close_node s in Some (p\<lparr>stopper := close_next wids t\<rparr>, t))
      | _ \<Rightarrow> None)"

section \<open>Frames\<close>

lemma set_phase_sel [simp]:
  "phase_of (set_phase wid ph p) = (phase_of p)(wid := ph)" "stopper (set_phase wid ph p) = stopper p"
  by (simp_all add: set_phase_def)

lemma tasks_poll [simp]:
  "poller_tasks (poll_begin wid s) = poller_tasks s" "stopping (poll_begin wid s) = stopping s"
  "poller_tasks (poll_end c wid out now s) = poller_tasks s" "stopping (poll_end c wid out now s) = stopping s"
  by (auto simp: poll_begin_def poll_end_def record_probe_failure_def obs_defs frame_simps Let_def
      split: probe_result.splits option.splits)

lemma node_flags [simp]:
  "node wid (s\<lparr>stopping := b\<rparr>) = node wid s" "node wid (s\<lparr>poller_tasks := ws\<rparr>) = node wid s"
  by (simp_all add: node_def)

lemma cancel_next_frame [simp]:
  "workers (snd (cancel_next wids p s)) = workers s" "stopping (snd (cancel_next wids p s)) = stopping s"
  "node wid (snd (cancel_next wids p s)) = node wid s"
  "GATEWAY_WORKER_HEALTHY (snd (cancel_next wids p s)) = GATEWAY_WORKER_HEALTHY s"
  "log_calls (snd (cancel_next wids p s)) = log_calls s"
  by (induction wids p s rule: cancel_next.induct) auto

section \<open>What the shutdown has done\<close>

text \<open>
  Before it begins all pollers are running; while it cancels, only those it has still to cancel are;
  from then on none is, and the list of tasks is empty.
\<close>

definition pollers_ok :: "pollers \<Rightarrow> 'a registry_scheme \<Rightarrow> bool" where
  "pollers_ok p s \<longleftrightarrow>
     (case stopper p of
        Serving \<Rightarrow> \<not> stopping s \<and> (\<forall>wid. phase_of p wid \<noteq> Over \<longleftrightarrow> wid \<in> set (poller_tasks s))
      | Cancelling wids \<Rightarrow> stopping s \<and> (\<forall>wid. phase_of p wid \<noteq> Over \<longrightarrow> wid \<in> set wids) \<and>
          suffix wids (poller_tasks s)
      | Closing wids \<Rightarrow> stopping s \<and> poller_tasks s = [] \<and> (\<forall>wid. phase_of p wid = Over) \<and>
          wids \<noteq> [] \<and> suffix wids (map fst (workers s))
      | Stopped \<Rightarrow> stopping s \<and> poller_tasks s = [] \<and> (\<forall>wid. phase_of p wid = Over))"

lemma pollers_ok_started: "\<not> stopping s \<Longrightarrow> pollers_ok (started_pollers s) s"
  by (simp add: pollers_ok_def started_pollers_def)

lemma pollers_ok_cong:
  "stopping t = stopping s \<Longrightarrow> poller_tasks t = poller_tasks s \<Longrightarrow> map fst (workers t) = map fst (workers s) \<Longrightarrow>
     pollers_ok p t = pollers_ok p s"
  by (simp add: pollers_ok_def split: stopper.split)

lemma pollers_ok_resumes: "pollers_ok p s \<Longrightarrow> poller_resumes wid p s = Some (q, t) \<Longrightarrow> pollers_ok q t"
  by (auto simp: pollers_ok_def poller_resumes_def split: stopper.splits if_splits)

lemma pollers_ok_returns: "pollers_ok p s \<Longrightarrow> probe_returns c wid out now p s = Some (q, t) \<Longrightarrow> pollers_ok q t"
  by (auto simp: pollers_ok_def probe_returns_def split: stopper.splits if_splits)

lemma close_next_suffix: "close_next wids s = Closing us \<Longrightarrow> suffix us wids \<and> us \<noteq> []"
  by (induction wids) (auto simp: suffix_ConsI split: if_splits)

lemma close_next_cases: "close_next wids s = Stopped \<or> (\<exists>us. close_next wids s = Closing us)"
  by (induction wids) auto

lemma pollers_ok_closing:
  assumes "suffix wids (map fst (workers s))" "stopping s" "poller_tasks s = []" "\<And>wid. phase_of p wid = Over"
  shows "pollers_ok (p\<lparr>stopper := close_next wids t\<rparr>) s"
  using close_next_cases [of wids t] assms close_next_suffix [of wids t]
  by (auto simp: pollers_ok_def intro: suffix_order.trans)

lemma pollers_ok_cancel:
  assumes "stopping s" "suffix wids (poller_tasks s)" "\<And>wid. phase_of p wid \<noteq> Over \<Longrightarrow> wid \<in> set wids"
  shows "pollers_ok (fst (cancel_next wids p s)) (snd (cancel_next wids p s))"
  using assms
proof (induction wids p s rule: cancel_next.induct)
  case (1 p s)
  then have "phase_of p wid = Over" for wid by auto
  with 1 show ?case using pollers_ok_closing [of "map fst (workers s)" "s\<lparr>poller_tasks := []\<rparr>" p s] by simp
next
  case (2 wid wids p s)
  have "suffix wids (poller_tasks s)" using 2(3) by (metis suffix_ConsD)
  with 2 show ?case by (auto simp: pollers_ok_def)
qed

lemma pollers_ok_begins:
  assumes "pollers_ok p s" "stop_begins p s = Some (q, t)"
  shows "pollers_ok q t"
proof -
  have "(q, t) = cancel_next (poller_tasks s) p (s\<lparr>stopping := True\<rparr>)" "stopper p = Serving"
    using assms(2) by (simp_all add: stop_begins_def split: if_splits)
  with pollers_ok_cancel [of "s\<lparr>stopping := True\<rparr>" "poller_tasks s" p] assms(1) show ?thesis
    by (simp add: pollers_ok_def [of p s]) (metis fst_conv snd_conv)
qed

lemma stop_resumesE:
  assumes "stop_resumes p s = Some (q, t)"
  obtains (cancelling) wids where "stopper p = Cancelling wids" "(q, t) = cancel_next wids p s"
  | (closing) wid wids where "stopper p = Closing (wid # wids)" "t = upd_worker wid close_node s"
      "q = p\<lparr>stopper := close_next wids t\<rparr>"
  using assms by (auto simp: stop_resumes_def Let_def split: stopper.splits list.splits)

lemma pollers_ok_stop:
  assumes ok: "pollers_ok p s" and "stop_resumes p s = Some (q, t)"
  shows "pollers_ok q t"
  using assms(2)
proof (cases rule: stop_resumesE)
  case (cancelling wids)
  have "stopping s" "suffix wids (poller_tasks s)" "phase_of p w \<noteq> Over \<Longrightarrow> w \<in> set wids" for w
    using ok cancelling(1) by (simp_all add: pollers_ok_def)
  with pollers_ok_cancel [of s wids p] cancelling(2) show ?thesis by (metis fst_conv snd_conv)
next
  case (closing wid wids)
  with ok have "suffix wids (map fst (workers t))" "stopping t" "poller_tasks t = []" "\<And>w. phase_of p w = Over"
    by (auto simp: pollers_ok_def frame_simps dest: suffix_ConsD)
  with closing(3) show ?thesis by (simp add: pollers_ok_closing)
qed

section \<open>It ends\<close>

text \<open>What \<open>stop\<close> has still to do: an upper bound on the number of times it resumes.\<close>

definition stop_work :: "pollers \<Rightarrow> 'a registry_scheme \<Rightarrow> nat" where
  "stop_work p s =
     (case stopper p of
        Serving \<Rightarrow> length (poller_tasks s) + length (workers s)
      | Cancelling wids \<Rightarrow> Suc (length wids) + length (workers s)
      | Closing wids \<Rightarrow> length wids
      | Stopped \<Rightarrow> 0)"

lemma close_next_work: "close_next wids s = Closing us \<Longrightarrow> length us \<le> length wids"
  by (blast dest: close_next_suffix suffix_length_le)

lemma closing_work: "stop_work (p\<lparr>stopper := close_next wids t\<rparr>) s \<le> length wids"
  using close_next_cases [of wids t] close_next_work [of wids t] by (auto simp: stop_work_def)

lemma cancel_next_work:
  "stop_work (fst (cancel_next wids p s)) (snd (cancel_next wids p s)) \<le> length wids + length (workers s)"
proof (induction wids p s rule: cancel_next.induct)
  case (1 p s)
  then show ?case
    using closing_work [of "map fst (workers s)" s p "s\<lparr>poller_tasks := []\<rparr>"] by simp
qed (auto simp: stop_work_def)

lemma stop_begins_work:
  assumes "stop_begins p s = Some (q, t)"
  shows "stop_work q t \<le> stop_work p s"
proof -
  have "(q, t) = cancel_next (poller_tasks s) p (s\<lparr>stopping := True\<rparr>)" "stopper p = Serving"
    using assms by (simp_all add: stop_begins_def split: if_splits)
  with cancel_next_work [of "poller_tasks s" p "s\<lparr>stopping := True\<rparr>"] show ?thesis
    by (simp add: stop_work_def [of p s]) (metis fst_conv snd_conv)
qed

lemma stop_resumes_work:
  assumes "stop_resumes p s = Some (q, t)"
  shows "stop_work q t < stop_work p s"
  using assms
proof (cases rule: stop_resumesE)
  case (cancelling wids)
  with cancel_next_work [of wids p s] show ?thesis by (cases "cancel_next wids p s") (simp add: stop_work_def)
next
  case (closing wid wids)
  have "stop_work q t \<le> length wids" unfolding closing(3) by (rule closing_work)
  with closing(1) show ?thesis by (simp add: stop_work_def)
qed

text \<open>It is never stuck.\<close>

lemma stop_resumes_enabled:
  "pollers_ok p s \<Longrightarrow> stopper p \<notin> {Serving, Stopped} \<Longrightarrow> stop_resumes p s \<noteq> None"
  by (auto simp: stop_resumes_def pollers_ok_def Let_def split: stopper.splits list.splits)

section \<open>Alone it is \<open>stop_registry\<close>\<close>

text \<open>With no other task running, \<open>stop\<close> resumed \<open>n\<close> times; the bound above is enough for it to end.\<close>

fun stop_alone :: "nat \<Rightarrow> pollers \<Rightarrow> 'a registry_scheme \<Rightarrow> pollers \<times> 'a registry_scheme" where
  "stop_alone 0 p s = (p, s)"
| "stop_alone (Suc n) p s = (case stop_resumes p s of None \<Rightarrow> (p, s) | Some (q, t) \<Rightarrow> stop_alone n q t)"

definition close_workers :: "pystr list \<Rightarrow> 'a registry_scheme \<Rightarrow> 'a registry_scheme" where
  "close_workers wids s =
     s\<lparr>workers := map (\<lambda>(wid, n). (wid, if wid \<in> set wids then close_node n else n)) (workers s)\<rparr>"

lemma stop_alone_Stopped: "stopper p = Stopped \<Longrightarrow> stop_alone n p s = (p, s)"
  by (cases n) (simp_all add: stop_resumes_def)

lemma close_workers_Cons: "close_workers (wid # wids) s = close_workers wids (upd_worker wid close_node s)"
proof -
  have "close_node (close_node n) = close_node n" for n by (simp add: close_node_def)
  then have "map (\<lambda>(w, n). (w, if w \<in> set (wid # wids) then close_node n else n)) ws =
      map (\<lambda>(w, n). (w, if w \<in> set wids then close_node n else n)) (dict_modify wid close_node ws)" for ws
    by (induction ws) auto
  then show ?thesis by (simp add: close_workers_def upd_worker_def)
qed

lemma close_workers_closed:
  assumes "distinct (map fst (workers s))" "\<not> channel_open wid s"
  shows "upd_worker wid close_node s = s"
proof -
  have "close_node n = n" if "(wid, n) \<in> set (workers s)" for n
    using assms that by (auto simp: channel_open_def node_def close_node_def)
  then have "dict_modify wid close_node (workers s) = workers s"
    using assms(1) by (intro dict_modify_id) (auto dest: map_of_SomeD)
  then show ?thesis by (simp add: upd_worker_def)
qed

lemma stop_alone_closing:
  assumes "distinct (map fst (workers s))" "stopper p = close_next wids s" "length wids \<le> n"
  shows "stop_alone n p s = (p\<lparr>stopper := Stopped\<rparr>, close_workers wids s)"
  using assms
proof (induction wids arbitrary: n p s)
  case Nil
  then show ?case by (simp add: stop_alone_Stopped close_workers_def case_prod_unfold)
next
  case (Cons wid wids)
  let ?t = "upd_worker wid close_node s"
  show ?case
  proof (cases "channel_open wid s")
    case True
    obtain k where n: "n = Suc k" using Cons.prems(3) by (cases n) auto
    have "stop_resumes p s = Some (p\<lparr>stopper := close_next wids ?t\<rparr>, ?t)"
      using True Cons.prems(2) by (simp add: stop_resumes_def Let_def)
    with Cons n show ?thesis by (simp add: close_workers_Cons)
  next
    case False
    with close_workers_closed Cons.prems(1) have "?t = s" by blast
    with False Cons show ?thesis by (simp add: close_workers_Cons)
  qed
qed

lemma stop_alone_cancelling:
  assumes "distinct (map fst (workers s))" "cancel_next wids p s = (q, t)"
    "length wids + length (workers s) \<le> n"
  shows "snd (stop_alone n q t) = close_workers (map fst (workers s)) (s\<lparr>poller_tasks := []\<rparr>) \<and>
    stopper (fst (stop_alone n q t)) = Stopped"
  using assms
proof (induction wids arbitrary: n p q t)
  case Nil
  then show ?case using stop_alone_closing [of t q "map fst (workers s)" n] by auto
next
  case (Cons wid wids)
  show ?case
  proof (cases "phase_of p wid = Over")
    case True
    with Cons show ?thesis by simp
  next
    case False
    with Cons.prems(2) have qt: "stopper q = Cancelling wids" "t = s" by auto
    obtain k where n: "n = Suc k" using Cons.prems(3) by (cases n) auto
    obtain q' t' where c: "cancel_next wids q s = (q', t')" by fastforce
    have "stop_resumes q t = Some (q', t')" by (simp add: stop_resumes_def qt c)
    with Cons.IH [OF Cons.prems(1) c, of k] Cons.prems(3) n show ?thesis by simp
  qed
qed

lemma stop_alone_is_stop_registry:
  assumes "distinct (map fst (workers s))" "stop_begins p s = Some (q, t)" "stop_work p s \<le> n"
  shows "snd (stop_alone n q t) = stop_registry s \<and> stopper (fst (stop_alone n q t)) = Stopped"
proof -
  have b: "cancel_next (poller_tasks s) p (s\<lparr>stopping := True\<rparr>) = (q, t)" "stopper p = Serving"
    using assms(2) by (simp_all add: stop_begins_def split: if_splits)
  have "map (\<lambda>(w, n). (w, if w \<in> set (map fst ws) then close_node n else n)) ws = map (\<lambda>(w, n). (w, close_node n)) ws"
    for ws :: "(pystr, worker_node) dict" by (rule map_cong) force+
  then have "close_workers (map fst (workers s)) (s\<lparr>stopping := True, poller_tasks := []\<rparr>) = stop_registry s"
    by (simp add: close_workers_def stop_registry_def)
  with stop_alone_cancelling [OF _ b(1), of n] assms(1,3) b(2) show ?thesis
    by (simp add: stop_work_def)
qed

end
