(* ===== verification/Gateway_Tasks.thy ===== *)
theory Gateway_Tasks
  imports Client Pollers
begin

text \<open>
  The gateway's event loop: any number of predictions in flight, the health pollers, and the shared
  scheduler state. A step is one stretch of code between two \<open>await\<close>s, taken by whichever task the
  loop runs next, so the reachable states are those of every interleaving. A prediction in flight is
  suspended in the call of \<open>client.predict\<close>; \<open>loop_step\<close> resumes it with the outcome of the call, and
  a retry goes on to its next call without yielding, as in the code. The pollers and the shutdown are
  the tasks of \<open>Pollers\<close>.
\<close>

section \<open>State and steps\<close>

record flight =
  fl_call :: call
  fl_attempt :: nat
  fl_worker :: pystr

record event_loop =
  gw :: sched
  tasks :: pollers
  flights :: "flight list"
  results :: "(exn + prediction_result) list"
  started :: nat

definition init_sched :: "gateway_config \<Rightarrow> sched" where
  "init_sched c =
     \<lparr>GATEWAY_REQUESTS_TOTAL = (\<lambda>_. 0), GATEWAY_REQUEST_DURATION_SECONDS = [],
      GATEWAY_ACTIVE_REQUESTS = 0, GATEWAY_ROUTING_TOTAL = (\<lambda>_. 0), GATEWAY_RETRIES_TOTAL = (\<lambda>_. 0),
      GATEWAY_RPC_FAILURES_TOTAL = (\<lambda>_. 0), GATEWAY_WORKER_OUTSTANDING = (\<lambda>_. None),
      GATEWAY_WORKER_HEALTHY = (\<lambda>_. None), log_calls = [],
      workers = init_workers c, poller_tasks = [], stopping = False, cursor = 0\<rparr>"

definition init_loop :: "gateway_config \<Rightarrow> event_loop \<Rightarrow> bool" where
  "init_loop c s \<longleftrightarrow>
     s = \<lparr>gw = start_registry (init_sched c), tasks = started_pollers (start_registry (init_sched c)), flights = [], results = [], started = 0\<rparr>"

datatype loop_event =
    StartPredict pystr "pystr list" pystr int pyfloat pyfloat
      \<comment> \<open>\<open>client.predict\<close> with its arguments, the clock at its start and at the first attempt\<close>
  | Resume nat rpc_outcome pyfloat pyfloat
      \<comment> \<open>a flight gets its call's outcome; the clock after it and at the next attempt\<close>
  | PollBegin pystr
  | PollEnd pystr probe_result pyfloat
  | StopRegistry
  | StopResumes

text \<open>Going on to an attempt: the task is suspended in its call, or it is over with an error.\<close>

definition launch ::
  "gateway_config \<Rightarrow> pyfloat \<Rightarrow> call \<Rightarrow> nat \<Rightarrow> 'a sched_scheme \<Rightarrow> (app_error + flight) \<times> 'a sched_scheme" where
  "launch c now k attempt g =
     (case attempt_begin c now k g of
        (Inl e, h) \<Rightarrow> (Inl e, h)
      | (Inr (wid, remaining), h) \<Rightarrow>
          (Inr \<lparr>fl_call = k, fl_attempt = attempt, fl_worker = wid\<rparr>, h))"

definition with_tasks :: "event_loop \<Rightarrow> (pollers \<times> sched) option \<Rightarrow> event_loop option" where
  "with_tasks s r = map_option (\<lambda>(p, g). s\<lparr>tasks := p, gw := g\<rparr>) r"

fun loop_step :: "gateway_config \<Rightarrow> event_loop \<Rightarrow> loop_event \<Rightarrow> event_loop option" where
  "loop_step c s (StartPredict request_id inputs version timeout_ms now0 now1) =
     (case launch c now1 (start_call now0 request_id inputs version timeout_ms) 1 (gw s) of
        (Inl e, g) \<Rightarrow> Some (s\<lparr>gw := g, results := results s @ [Inl (App e)], started := Suc (started s)\<rparr>)
      | (Inr f, g) \<Rightarrow> Some (s\<lparr>gw := g, flights := flights s @ [f], started := Suc (started s)\<rparr>))"
| "loop_step c s (Resume i out now0 now1) =
     (if length (flights s) \<le> i then None
      else let f = flights s ! i; rest = without i (flights s) in
        case attempt_end c (fl_attempt f) now0 (fl_call f) (fl_worker f) out (gw s) of
          (Returned r, g) \<Rightarrow> Some (s\<lparr>gw := g, flights := rest, results := results s @ [Inr r]\<rparr>)
        | (Raised e, g) \<Rightarrow> Some (s\<lparr>gw := g, flights := rest, results := results s @ [Inl e]\<rparr>)
        | (Retry x, g) \<Rightarrow>
            (case launch c now1 ((fl_call f)\<lparr>exclude_ids := x\<rparr>) (Suc (fl_attempt f)) g of
               (Inl e, h) \<Rightarrow> Some (s\<lparr>gw := h, flights := rest, results := results s @ [Inl (App e)]\<rparr>)
             | (Inr f', h) \<Rightarrow> Some (s\<lparr>gw := h, flights := rest @ [f']\<rparr>)))"
| "loop_step c s (PollBegin wid) = with_tasks s (poller_resumes wid (tasks s) (gw s))"
| "loop_step c s (PollEnd wid out now) = with_tasks s (probe_returns c wid out now (tasks s) (gw s))"
| "loop_step c s StopRegistry = with_tasks s (stop_begins (tasks s) (gw s))"
| "loop_step c s StopResumes = with_tasks s (stop_resumes (tasks s) (gw s))"

definition loop_rel :: "gateway_config \<Rightarrow> event_loop \<Rightarrow> loop_event \<Rightarrow> event_loop \<Rightarrow> bool" where
  "loop_rel c s e t \<longleftrightarrow> loop_step c s e = Some t"

section \<open>The invariant\<close>

text \<open>
  The reservation counts are exactly the calls in flight, none exceeds the limit, a second attempt
  has excluded the worker of the first, and every prediction started is in flight or has its result.
\<close>

definition flight_ok :: "flight \<Rightarrow> bool" where
  "flight_ok f \<longleftrightarrow> fl_worker f \<notin> exclude_ids (fl_call f) \<and>
     (fl_attempt f = 1 \<and> exclude_ids (fl_call f) = {} \<or>
      fl_attempt f = 2 \<and> (\<exists>w. exclude_ids (fl_call f) = {w}))"

definition within_limit :: "gateway_config \<Rightarrow> 'a sched_scheme \<Rightarrow> bool" where
  "within_limit c g \<longleftrightarrow> (\<forall>w. reserved w g \<le> max 0 (gateway_max_outstanding_per_worker c))"

definition loop_inv :: "gateway_config \<Rightarrow> event_loop \<Rightarrow> bool" where
  "loop_inv c s \<longleftrightarrow> sched_wf (gw s) \<and> ledger reserved (gw s) (map fl_worker (flights s)) \<and>
     within_limit c (gw s) \<and> list_all flight_ok (flights s) \<and>
     started s = length (flights s) + length (results s)"

lemma count_list_without:
  "i < length xs \<Longrightarrow> count_list (without i xs) v = count_list (remove1 (xs ! i) xs) v"
proof -
  assume "i < length xs"
  then have "xs = take i xs @ xs ! i # drop (Suc i) xs" by (rule id_take_nth_drop)
  then have "count_list xs v = count_list (take i xs @ xs ! i # drop (Suc i) xs) v" by simp
  then show ?thesis by (simp add: without_def count_list_remove1)
qed

lemma ledger_without:
  "i < length fs \<Longrightarrow> ledger reserved g (remove1 (fl_worker (fs ! i)) (map fl_worker fs)) \<longleftrightarrow>
     ledger reserved g (map fl_worker (without i fs))"
  by (simp add: ledger_def map_without count_list_without)

lemma ledger_snoc: "ledger r g (w # ws) \<longleftrightarrow> ledger r g (ws @ [w])"
  by (simp add: ledger_def add.commute)

lemma within_limit_begin:
  assumes "sched_wf s" "within_limit c s"
  shows "within_limit c (snd (attempt_begin c now k s))"
proof (cases "attempt_begin c now k s")
  case (Pair r t)
  show ?thesis
  proof (cases r)
    case (Inl e)
    with Pair assms show ?thesis by (auto dest: attempt_begin_fails)
  next
    case (Inr wr)
    with Pair obtain wid remaining where "attempt_begin c now k s = (Inr (wid, remaining), t)"
      by (cases wr) auto
    then obtain u where u: "select_worker c (exclude_ids k) s = (Inr wid, u)" "t = upd_worker wid get_stub u"
      by (rule attempt_beginE)
    show ?thesis
      using sched.select_reserves [OF assms(1) u(1)] sched.select_limit [OF assms(1) u(1)] assms(2) Pair u(2)
      by (auto simp: within_limit_def)
  qed
qed

lemma within_limit_end:
  assumes "sched_wf s" "within_limit c s"
  shows "within_limit c (snd (attempt_end c attempt now k wid out s))"
proof -
  let ?t = "snd (handle_outcome c attempt now k wid out s)"
  have t: "within_limit c ?t" using assms(2) by (simp add: within_limit_def reserved_handle_outcome)
  have "within_limit c (release_worker wid ?t)"
  proof (cases "0 < reserved wid ?t")
    case True
    have "reserved v (release_worker wid ?t) \<le> reserved v ?t" for v
      using True by (simp add: reserved_release)
    with t show ?thesis unfolding within_limit_def by (meson order_trans)
  next
    case False
    then have "release_worker wid ?t = ?t"
      by (auto simp: release_worker_def reserved_def split: option.splits)
    with t show ?thesis by simp
  qed
  then show ?thesis by (simp add: attempt_end_def split_beta)
qed

lemma launch_spec:
  "launch c now k attempt g = (r, h) \<Longrightarrow>
     (case r of
        Inl e \<Rightarrow> attempt_begin c now k g = (Inl e, h)
      | Inr f \<Rightarrow> \<exists>remaining. attempt_begin c now k g = (Inr (fl_worker f, remaining), h) \<and>
          fl_call f = k \<and> fl_attempt f = attempt)"
  by (auto simp: launch_def split: prod.splits sum.splits)

lemma launch_inv:
  assumes l: "launch c now k attempt g = (r, h)"
    and wf: "sched_wf g" "ledger reserved g ws" "within_limit c g"
  shows "sched_wf h \<and> within_limit c h \<and>
    (case r of Inl e \<Rightarrow> ledger reserved h ws
     | Inr f \<Rightarrow> ledger reserved h (ws @ [fl_worker f]) \<and> fl_worker f \<notin> exclude_ids k \<and>
         fl_call f = k \<and> fl_attempt f = attempt)"
proof -
  note spec = launch_spec [OF l]
  have h: "h = snd (attempt_begin c now k g)" using spec by (auto split: sum.splits)
  have "sched_wf h" "within_limit c h"
    unfolding h using wf by (simp_all add: sched_wf_attempt_begin within_limit_begin)
  moreover have "case r of Inl e \<Rightarrow> ledger reserved h ws
     | Inr f \<Rightarrow> ledger reserved h (ws @ [fl_worker f]) \<and> fl_worker f \<notin> exclude_ids k \<and>
         fl_call f = k \<and> fl_attempt f = attempt"
  proof (cases r)
    case (Inl e)
    with spec wf(2) show ?thesis by (auto dest: attempt_begin_fails)
  next
    case (Inr f)
    with spec obtain remaining where beg: "attempt_begin c now k g = (Inr (fl_worker f, remaining), h)"
      and f: "fl_call f = k" "fl_attempt f = attempt" by auto
    have "fl_worker f \<notin> exclude_ids k"
      using beg by (rule attempt_beginE) (rule sched.select_excludes [OF wf(1)])
    with ledger_attempt_begin [OF wf(1,2) beg] f Inr show ?thesis by (simp add: ledger_snoc)
  qed
  ultimately show ?thesis by simp
qed

lemma flights_without:
  "i < length fs \<Longrightarrow> list_all flight_ok fs \<Longrightarrow> list_all flight_ok (without i fs) \<and> flight_ok (fs ! i)"
  using set_without [of i fs] by (auto simp: list_all_iff)

lemma attempt_end_inv:
  assumes inv: "loop_inv c s" and i: "i < length (flights s)"
    and e: "attempt_end c (fl_attempt (flights s ! i)) now (fl_call (flights s ! i))
              (fl_worker (flights s ! i)) out (gw s) = (r, g)"
  shows "sched_wf g \<and> within_limit c g \<and> ledger reserved g (map fl_worker (without i (flights s)))"
proof -
  have g: "g = snd (attempt_end c (fl_attempt (flights s ! i)) now (fl_call (flights s ! i))
              (fl_worker (flights s ! i)) out (gw s))" using e by simp
  have "ledger reserved g (remove1 (fl_worker (flights s ! i)) (map fl_worker (flights s)))"
    unfolding g using inv i by (intro ledger_attempt_end) (auto simp: loop_inv_def)
  with i have "ledger reserved g (map fl_worker (without i (flights s)))" by (simp add: ledger_without)
  with inv show ?thesis
    unfolding g by (simp add: loop_inv_def sched_wf_attempt_end within_limit_end)
qed

lemma loop_inv_resume:
  assumes inv: "loop_inv c s" and step: "loop_step c s (Resume i out now0 now1) = Some t"
  shows "loop_inv c t"
proof -
  let ?f = "flights s ! i"
  let ?rest = "without i (flights s)"
  have i: "i < length (flights s)" using step by (simp split: if_splits)
  obtain r g where e: "attempt_end c (fl_attempt ?f) now0 (fl_call ?f) (fl_worker ?f) out (gw s) = (r, g)"
    by fastforce
  note g = attempt_end_inv [OF inv i e]
  have fl: "list_all flight_ok ?rest" "flight_ok ?f"
    using flights_without [OF i] inv by (simp_all add: loop_inv_def)
  have n: "started s = Suc (length ?rest) + length (results s)"
    using inv length_without [OF i] by (simp add: loop_inv_def)
  show ?thesis
  proof (cases r)
    case (Retry x)
    from attempt_end_retry [OF e [unfolded Retry]] fl(2)
    have first: "fl_attempt ?f = 1" "x = {fl_worker ?f}"
      by (auto simp: flight_ok_def)
    obtain r' h where l: "launch c now1 ((fl_call ?f)\<lparr>exclude_ids := x\<rparr>) (Suc (fl_attempt ?f)) g = (r', h)"
      by fastforce
    from launch_inv [OF l, of "map fl_worker ?rest"] g have h: "sched_wf h \<and> within_limit c h \<and>
      (case r' of Inl e \<Rightarrow> ledger reserved h (map fl_worker ?rest)
       | Inr f \<Rightarrow> ledger reserved h (map fl_worker ?rest @ [fl_worker f]) \<and> fl_worker f \<notin> x \<and>
           fl_call f = (fl_call ?f)\<lparr>exclude_ids := x\<rparr> \<and> fl_attempt f = Suc (fl_attempt ?f))"
      by (cases r') simp_all
    show ?thesis
      using step i e Retry l h fl n first
      by (cases r') (auto simp: loop_inv_def flight_ok_def)
  qed (use step i e g fl n in \<open>auto simp: loop_inv_def\<close>)
qed

lemma loop_inv_start:
  assumes inv: "loop_inv c s"
    and step: "loop_step c s (StartPredict request_id inputs version timeout_ms now0 now1) = Some t"
  shows "loop_inv c t"
proof -
  let ?k = "start_call now0 request_id inputs version timeout_ms"
  obtain r g where l: "launch c now1 ?k 1 (gw s) = (r, g)" by fastforce
  have "exclude_ids ?k = {}" by (simp add: start_call_def)
  with launch_inv [OF l] inv show ?thesis
    using step l by (cases r) (auto simp: loop_inv_def flight_ok_def)
qed

text \<open>The steps of the registry's tasks leave the reservations alone.\<close>

lemma reserved_flags [simp]:
  "reserved w (s\<lparr>stopping := b\<rparr>) = reserved w s" "reserved w (s\<lparr>poller_tasks := ws\<rparr>) = reserved w s"
  "reserved w (upd_worker v close_node s) = reserved w s"
  by (auto simp: reserved_def frame_simps split: option.splits)

lemma reserved_cancel_next [simp]: "reserved w (snd (cancel_next wids p s)) = reserved w s"
  by (induction wids p s rule: cancel_next.induct) auto

lemma registry_wf_flags [simp]:
  "registry_wf (s\<lparr>stopping := b\<rparr>) = registry_wf s" "registry_wf (s\<lparr>poller_tasks := ws\<rparr>) = registry_wf s"
  by (simp_all add: registry_wf_def)

lemma registry_wf_close_worker: "registry_wf s \<Longrightarrow> registry_wf (upd_worker wid close_node s)"
  by (rule registry_wf_modify [where s = s and wid = wid and f = close_node])
    (auto simp: frame_simps node_ok_close)

lemma registry_wf_cancel_next [simp]: "registry_wf (snd (cancel_next wids p s)) = registry_wf s"
  by (induction wids p s rule: cancel_next.induct) auto

text \<open>What a step of a registry task keeps.\<close>

definition task_step :: "'a sched_scheme \<Rightarrow> 'a sched_scheme \<Rightarrow> bool" where
  "task_step s t \<longleftrightarrow> (\<forall>w. reserved w t = reserved w s) \<and> (registry_wf s \<longrightarrow> registry_wf t)"

lemma task_steps:
  "poller_resumes wid p s = Some (q, t) \<Longrightarrow> task_step s t"
  "probe_returns c wid out now p s = Some (q, t) \<Longrightarrow> task_step s t"
  "stop_begins p s = Some (q, t) \<Longrightarrow> task_step s t"
  "stop_resumes p s = Some (q, t) \<Longrightarrow> task_step s t"
proof -
  have cancel: "task_step s t" if "cancel_next wids p s' = (q, t)" "s' = s \<or> s' = s\<lparr>stopping := True\<rparr>" for wids s'
  proof -
    have "t = snd (cancel_next wids p s')" using that(1) by simp
    with that(2) show ?thesis by (auto simp: task_step_def)
  qed
  show "poller_resumes wid p s = Some (q, t) \<Longrightarrow> task_step s t"
    by (auto simp: poller_resumes_def task_step_def registry_wf_poll_begin split: if_splits)
  show "probe_returns c wid out now p s = Some (q, t) \<Longrightarrow> task_step s t"
    by (auto simp: probe_returns_def task_step_def registry_wf_poll_end split: if_splits)
  show "stop_begins p s = Some (q, t) \<Longrightarrow> task_step s t"
    using cancel by (auto simp: stop_begins_def split: if_splits)
  show "stop_resumes p s = Some (q, t) \<Longrightarrow> task_step s t"
    by (erule stop_resumesE) (use cancel in \<open>auto simp: task_step_def registry_wf_close_worker dest: sym\<close>)
qed

lemma loop_inv_tasks:
  assumes "loop_inv c s" "with_tasks s r = Some t" "\<And>q g. r = Some (q, g) \<Longrightarrow> task_step (gw s) g"
  shows "loop_inv c t"
proof -
  obtain q g where t: "t = s\<lparr>tasks := q, gw := g\<rparr>" and "r = Some (q, g)"
    using assms(2) by (auto simp: with_tasks_def)
  with assms(3) have "task_step (gw s) g" by blast
  with assms(1) t show ?thesis
    by (auto simp: loop_inv_def task_step_def sched_wf_def within_limit_def ledger_def)
qed

lemma loop_inv_step: "loop_inv c s \<Longrightarrow> loop_rel c s e t \<Longrightarrow> loop_inv c t"
  unfolding loop_rel_def
proof (cases e)
  case (StartPredict request_id inputs version timeout_ms now0 now1)
  then show "loop_inv c s \<Longrightarrow> loop_step c s e = Some t \<Longrightarrow> loop_inv c t"
    by (simp only:) (rule loop_inv_start)
next
  case (Resume i out now0 now1)
  then show "loop_inv c s \<Longrightarrow> loop_step c s e = Some t \<Longrightarrow> loop_inv c t"
    by (simp only:) (rule loop_inv_resume)
qed (auto elim: loop_inv_tasks dest: task_steps)

section \<open>The initial state\<close>

lemma node_init_sched:
  "node w (init_sched c) = map_option (new_worker_node w) (map_of (configured_workers c) w)"
proof -
  have "map_of (map (\<lambda>(w, a). (w, new_worker_node w a)) d) w = map_option (new_worker_node w) (map_of d w)" for d
    by (induction d) auto
  then show ?thesis by (simp add: node_def init_sched_def init_workers_def)
qed

lemma sched_wf_init:
  assumes "distinct (map fst (configured_workers c))"
  shows "sched_wf (init_sched c)"
proof -
  have "map fst (workers (init_sched c)) = map fst (configured_workers c)"
    by (simp add: init_sched_def init_workers_def comp_def split_def)
  with assms have "registry_wf (init_sched c)"
    by (auto simp: registry_wf_def node_init_sched node_ok_def new_worker_node_def)
      (simp_all add: init_sched_def)
  then show ?thesis
    by (auto simp: sched_wf_def reserved_def node_init_sched new_worker_node_def split: option.splits)
qed

lemma reserved_init: "reserved w (init_sched c) = 0"
  by (auto simp: reserved_def node_init_sched new_worker_node_def split: option.splits)

lemma reserved_start [simp]: "reserved w (start_registry g) = reserved w g"
  by (auto simp: reserved_def start_registry_def node_def split: option.splits)

lemma sched_wf_start [invariant_intros]: "sched_wf g \<Longrightarrow> sched_wf (start_registry g)"
  by (simp add: sched_wf_def registry_wf_start)

lemma loop_inv_init:
  "distinct (map fst (configured_workers c)) \<Longrightarrow> init_loop c s \<Longrightarrow> loop_inv c s"
  by (auto simp: init_loop_def loop_inv_def ledger_def within_limit_def reserved_init sched_wf_init
      intro: invariant_intros)

text \<open>
  The configuration the gateway runs with comes from a dictionary, so its worker ids are distinct;
  the definition states that and the instance discharges it.
\<close>

definition deployed :: "gateway_config \<Rightarrow> event_loop \<Rightarrow> bool" where
  "deployed c s \<longleftrightarrow> distinct (map fst (configured_workers c)) \<and> init_loop c s"

interpretation event_loop_invariant: inductive_invariant "deployed c" "loop_rel c" "loop_inv c" for c
  by unfold_locales (auto simp: deployed_def intro: loop_inv_init loop_inv_step)

end
