(* ===== verification/Gateway_Properties.thy ===== *)
theory Gateway_Properties
  imports App Gateway_Tasks
begin

text \<open>
  The properties of the gateway: the event loop with any number of predictions in flight, the
  scheduler's choice, the health machine, the client's retry rule, the request contract and the
  middleware. Each property with hypotheses is followed by an instance at a concrete input, on the
  documented configuration.
\<close>

section \<open>Concrete inputs\<close>

definition w1 :: pystr where "w1 = str ''worker-1''"
definition w2 :: pystr where "w2 = str ''worker-2''"

text \<open>What a healthy worker of the documented deployment answers to a status probe.\<close>

definition ready_status :: "pystr \<Rightarrow> status_response" where
  "ready_status w =
     \<lparr>sr_worker_id = w, sr_model_version = model_version documented_config,
      sr_model_sha256 = model_sha256 documented_config, sr_state = WORKER_STATE_READY,
      sr_queue_depth = 0, sr_queue_capacity = 64, sr_active_batches = 0\<rparr>"

text \<open>A run: two workers become healthy and a prediction starts.\<close>

definition start_events :: "loop_event list" where
  "start_events =
     [PollBegin w1, PollBegin w2,
      PollEnd w1 (ProbeResponse (ready_status w1)) 1, PollEnd w2 (ProbeResponse (ready_status w2)) 1,
      StartPredict (str ''r'') [str ''good''] (model_version documented_config) 1000 2 2]"

definition started_loop :: event_loop where
  "started_loop = \<lparr>gw = start_registry (init_sched documented_config),
     tasks = started_pollers (start_registry (init_sched documented_config)), flights = [], results = [], started = 0\<rparr>"

lemma started_loop_reachable: "reachable (deployed documented_config) (loop_rel documented_config) started_loop"
  by (rule reachable_init)
    (simp add: deployed_def init_loop_def started_loop_def documented_config_def)

lemma w1_le_w2: "w1 \<le> w2" "w1 \<noteq> w2"
  by (simp_all add: w1_def w2_def str_def)

lemmas concrete_defs =
  start_events_def started_loop_def init_sched_def start_registry_def init_workers_def
  documented_config_def w1_def w2_def ready_status_def poll_end_def compatible_def node_def
  success_node_def starts_up_def recovers_def new_worker_node_def upd_worker_def obs_defs Let_def
  launch_def attempt_begin_def start_call_def select_worker_def healthy_workers_def
  with_tasks_def started_pollers_def poller_resumes_def probe_returns_def set_phase_def poll_begin_def
  eligible_workers_def dict_values_def least_loaded_def reserve_def get_stub_def

lemma in_flight_run:
  "\<exists>s. run_steps (loop_step documented_config) started_loop start_events = Some s \<and>
     map fl_worker (flights s) = [w1] \<and> results s = [] \<and> started s = 1"
  using w1_le_w2 by (simp add: concrete_defs)

lemma in_flight:
  obtains s where "reachable (deployed documented_config) (loop_rel documented_config) s"
    "map fl_worker (flights s) = [w1]" "results s = []" "started s = 1"
  using in_flight_run reachable_run [OF started_loop_reachable] by (metis loop_rel_def)

text \<open>The scheduler's state once two of the four workers are healthy.\<close>

definition two_healthy :: sched where
  "two_healthy =
     poll_end documented_config w2 (ProbeResponse (ready_status w2)) 1
       (poll_end documented_config w1 (ProbeResponse (ready_status w1)) 1 (init_sched documented_config))"

lemma init_sched_wf: "sched_wf (init_sched documented_config)"
  by (rule sched_wf_init) (simp add: documented_config_def)

lemma two_healthy_wf: "sched_wf two_healthy"
  unfolding two_healthy_def by (intro sched_wf_registry_ops init_sched_wf)

lemma two_healthy_tied: "map worker_id (least_loaded (eligible_workers documented_config {} two_healthy)) = [w1, w2]"
  using w1_le_w2 by (simp add: two_healthy_def concrete_defs)

section \<open>The event loop\<close>

text \<open>
  C1: However the predictions, the pollers and the shutdown interleave, the reservation count of every
  worker is the number of predictions waiting on it, it never exceeds the configured limit, and every
  prediction that was started is either in flight or has exactly one result.
\<close>

theorem reservations_are_flights:
  assumes "reachable (deployed c) (loop_rel c) s"
  shows "reserved w (gw s) = int (count_list (map fl_worker (flights s)) w)
    \<and> reserved w (gw s) \<le> max 0 (gateway_max_outstanding_per_worker c)
    \<and> started s = length (flights s) + length (results s)"
proof -
  have "ledger reserved (gw s) (map fl_worker (flights s))" "within_limit c (gw s)"
    "started s = length (flights s) + length (results s)"
    using event_loop_invariant.holds [OF assms] by (simp_all add: loop_inv_def)
  then show ?thesis unfolding ledger_def within_limit_def by blast
qed

theorem reservations_are_flights_witness:
  "\<exists>s. reachable (deployed documented_config) (loop_rel documented_config) s \<and> reserved w1 (gw s) = 1 \<and>
     reserved w2 (gw s) = 0"
proof -
  obtain s where s: "reachable (deployed documented_config) (loop_rel documented_config) s"
    "map fl_worker (flights s) = [w1]" by (rule in_flight)
  with reservations_are_flights [OF s(1), of w1] reservations_are_flights [OF s(1), of w2] w1_le_w2
  show ?thesis by auto
qed

text \<open>
  A prediction in flight is in its first attempt and has excluded no worker, or in its second and
  has excluded exactly one, which is not the worker it now waits on; no prediction reaches a third.
\<close>

lemma flights_exclude_failed_workers:
  assumes "reachable (deployed c) (loop_rel c) s" "f \<in> set (flights s)"
  shows "fl_attempt f = 1 \<and> exclude_ids (fl_call f) = {} \<or>
    fl_attempt f = 2 \<and> (\<exists>w. w \<noteq> fl_worker f \<and> exclude_ids (fl_call f) = {w})"
  using event_loop_invariant.holds [OF assms(1)] assms(2)
  by (auto simp: loop_inv_def list_all_iff flight_ok_def)

theorem flights_exclude_failed_workers_witness:
  "\<exists>s. reachable (deployed documented_config) (loop_rel documented_config) s \<and>
     (\<exists>f \<in> set (flights s). fl_attempt f = 1 \<or> fl_attempt f = 2)"
proof -
  obtain s where s: "reachable (deployed documented_config) (loop_rel documented_config) s"
    "map fl_worker (flights s) = [w1]" by (rule in_flight)
  then obtain f where f: "f \<in> set (flights s)" by (cases "flights s") auto
  from flights_exclude_failed_workers [OF s(1) f] s(1) f show ?thesis by blast
qed

text \<open>
  The health gauge shows 1 for exactly the workers the scheduler may use: in every reachable state
  a worker's gauge is 1 if and only if its state is HEALTHY, and its counters describe one run of probes.
\<close>

lemma health_gauge_exact:
  assumes "reachable (deployed c) (loop_rel c) s" "node w (gw s) = Some n"
  shows "(GATEWAY_WORKER_HEALTHY (gw s) w = Some 1 \<longleftrightarrow> state n = HEALTHY)
    \<and> (consecutive_failures n = 0 \<or> consecutive_successes n = 0)
    \<and> worker_id n = w \<and> 0 \<le> outstanding_requests n"
proof -
  have wf: "sched_wf (gw s)" using event_loop_invariant.holds [OF assms(1)] by (simp add: loop_inv_def)
  then have "node_ok w (GATEWAY_WORKER_HEALTHY (gw s) w) n"
    using assms(2) by (intro registry_wfD sched_wfD)
  moreover have "0 \<le> reserved w (gw s)" using wf by (rule sched_wfD)
  ultimately show ?thesis using assms(2) by (auto simp: node_ok_def reserved_def)
qed

lemma started_loop_node:
  "\<exists>n. node w1 (gw started_loop) = Some n \<and> state n = STARTING"
  by (simp add: concrete_defs)

theorem health_gauge_exact_witness:
  "GATEWAY_WORKER_HEALTHY (gw started_loop) w1 \<noteq> Some 1"
  using started_loop_node health_gauge_exact [OF started_loop_reachable] by fastforce

section \<open>The scheduler\<close>

text \<open>
  C8: Selecting a worker. With no healthy worker it fails with NO_HEALTHY_WORKER, with healthy workers
  none of which may be chosen it fails with GATEWAY_AT_CAPACITY, and neither failure changes anything.
  Otherwise the chosen worker is healthy, not excluded and below its limit, no worker that may be chosen
  has fewer outstanding requests, and only its reservation count grows, by one.
\<close>

theorem select_worker_outcome:
  assumes "sched_wf s"
  shows "case select_worker c X s of
      (Inl e, t) \<Rightarrow> t = s \<and> (\<forall>w. \<not> selectable c X w s) \<and>
        e = (if \<exists>w n. node w s = Some n \<and> state n = HEALTHY then GatewayAtCapacityError_default
             else NoHealthyWorkerError_default)
    | (Inr w, t) \<Rightarrow> selectable c X w s \<and>
        (\<forall>v. selectable c X v s \<longrightarrow> reserved w s \<le> reserved v s) \<and>
        (\<forall>v. reserved v t = reserved v s + (if v = w then 1 else 0))"
  by (rule select_outcome [OF assms])

theorem select_worker_outcome_witness:
  "select_worker documented_config {} (init_sched documented_config)
     = (Inl NoHealthyWorkerError_default, init_sched documented_config)"
  using select_worker_outcome [OF init_sched_wf, of documented_config "{}"]
  by (simp add: concrete_defs)

text \<open>How often a residue comes up in a run of consecutive numbers.\<close>

definition hits :: "nat \<Rightarrow> nat \<Rightarrow> nat \<Rightarrow> nat \<Rightarrow> nat" where
  "hits m a r k = card {i. i < k \<and> (a + i) mod m = r}"

lemma hits_Suc: "hits m a r (Suc k) = hits m a r k + (if (a + k) mod m = r then 1 else 0)"
proof -
  have "{i. i < Suc k \<and> (a + i) mod m = r} =
      {i. i < k \<and> (a + i) mod m = r} \<union> (if (a + k) mod m = r then {k} else {})"
    by (auto simp: less_Suc_eq)
  then show ?thesis by (simp add: hits_def)
qed

lemma hits_add: "hits m a r (j + k) = hits m a r j + hits m (a + j) r k"
  by (induction k) (simp_all add: hits_Suc add.assoc, simp add: hits_def)

lemma hits_window:
  assumes "0 < m" "r < m"
  shows "hits m a r m = 1"
proof -
  have "\<exists>!i. i < m \<and> (a + i) mod m = r"
  proof (rule ex1I)
    let ?i = "(r + (m - a mod m)) mod m"
    have i: "(a + ?i) mod m = r"
    proof -
    have "(a + ?i) mod m = (a mod m + (r + (m - a mod m))) mod m" by (simp add: mod_simps)
    also have "a mod m + (r + (m - a mod m)) = r + m" using assms mod_less_divisor [of m a] by linarith
    also have "(r + m) mod m = r" using assms by simp
    finally show ?thesis .
    qed
    then show "?i < m \<and> (a + ?i) mod m = r" using assms by simp
    fix j assume j: "j < m \<and> (a + j) mod m = r"
    with i have "(a + j) mod m = (a + ?i) mod m" by simp
    then obtain q1 q2 where "a + j + m * q1 = a + ?i + m * q2" by (auto simp: nat_mod_eq_iff)
    then have "j + m * q1 = ?i + m * q2" by linarith
    then have "j mod m = ?i mod m" unfolding nat_mod_eq_iff by blast
    with j assms show "j = ?i" by simp
  qed
  then obtain i where "{i. i < m \<and> (a + i) mod m = r} = {i}" by auto
  then show ?thesis by (simp add: hits_def)
qed

lemma hits_balanced:
  assumes "0 < m" "r < m"
  shows "hits m a r k \<in> {k div m, Suc (k div m)}"
proof (induction k rule: less_induct)
  case (less k)
  show ?case
  proof (cases "k < m")
    case True
    have "hits m a r m = hits m a r k + hits m (a + k) r (m - k)"
      using hits_add [of m a r k "m - k"] True by simp
    with hits_window [OF assms] True show ?thesis by auto
  next
    case False
    have "hits m (a + m) r (k - m) = hits m a r (k - m)"
    proof -
      have "(a + m + i) mod m = (a + i) mod m" for i
        by (metis add.assoc add.commute mod_add_self2)
      then show ?thesis by (simp add: hits_def)
    qed
    then have "hits m a r k = Suc (hits m a r (k - m))"
      using hits_add [of m a r m "k - m"] hits_window [OF assms] False by simp
    moreover have "k div m = Suc ((k - m) div m)" using False assms(1) by (simp add: le_div_geq)
    ultimately show ?thesis using less [of "k - m"] False assms(1) by auto
  qed
qed

lemma count_list_rotation:
  assumes "distinct ws" "r < length ws"
  shows "count_list (map (\<lambda>i. Some (ws ! ((a + i) mod length ws))) [0..<k]) (Some (ws ! r)) = hits (length ws) a r k"
proof (induction k)
  case (Suc k)
  have "ws ! ((a + k) mod length ws) = ws ! r \<longleftrightarrow> (a + k) mod length ws = r"
    by (rule nth_eq_iff_index_eq [OF assms(1) mod_less_divisor assms(2)]) (use assms(2) in linarith)
  with Suc show ?case by (simp add: hits_Suc)
qed (simp add: hits_def)

lemma distinct_least_loaded:
  assumes "registry_wf s"
  shows "distinct (map worker_id (least_loaded (eligible_workers c X s)))"
proof -
  have ids: "map worker_id (dict_values (workers s)) = map fst (workers s)"
    using assms unfolding registry_wf_def dict_values_def node_def
    by (auto simp: node_ok_def)
  then have "distinct (map worker_id (dict_values (workers s)))" using assms by (simp add: registry_wf_def)
  then have "distinct (map worker_id (eligible_workers c X s))"
    by (simp add: eligible_workers_def healthy_workers_def distinct_map_filter)
  then show ?thesis
    by (auto simp: least_loaded_def Let_def distinct_map elim: inj_on_subset)
qed

text \<open>
  C28: Ties rotate fairly. When \<open>k\<close> predictions are served one after the other, each of the \<open>m\<close> workers
  tied for the least load serves \<open>k div m\<close> or one more of them, whatever the cursor was.
\<close>

theorem ties_rotate_fairly:
  fixes c s
  defines "cs \<equiv> map worker_id (least_loaded (eligible_workers c {} s))"
  assumes "sched_wf s" "w \<in> set cs"
  shows "count_list (serve_many c k s) (Some w) \<in> {k div length cs, Suc (k div length cs)}"
proof -
  have ne: "eligible_workers c {} s \<noteq> []"
    using assms(3) unfolding cs_def by (auto simp: least_loaded_def)
  have len: "length (least_loaded (eligible_workers c {} s)) = length cs" by (simp add: cs_def)
  obtain r where r: "r < length cs" "cs ! r = w" using assms(3) by (auto simp: in_set_conv_nth)
  have "serve_many c k s = map (\<lambda>i. Some (cs ! ((cursor s + i) mod length cs))) [0..<k]"
    unfolding serve_many_rotates [OF assms(2) ne, of k]
  proof (rule map_cong [OF refl])
    fix i
    have "(cursor s + i) mod length cs < length cs" using r(1) by (intro mod_less_divisor) linarith
    then show "Some (worker_id (least_loaded (eligible_workers c {} s) !
        ((cursor s + i) mod length (least_loaded (eligible_workers c {} s))))) =
      Some (cs ! ((cursor s + i) mod length cs))"
      by (simp add: cs_def)
  qed
  then have "count_list (serve_many c k s) (Some w) = hits (length cs) (cursor s) r k"
    using count_list_rotation [of cs r] r distinct_least_loaded [OF sched_wfD(1) [OF assms(2)]]
    by (simp add: cs_def)
  moreover have "0 < length cs" using r(1) by linarith
  ultimately show ?thesis using hits_balanced r(1) by simp
qed

theorem ties_rotate_fairly_witness:
  "count_list (serve_many documented_config 3 two_healthy) (Some w1) \<in> {1, 2}"
  using ties_rotate_fairly [OF two_healthy_wf, of w1 documented_config 3, unfolded two_healthy_tied]
  by (simp add: numeral_2_eq_2 [symmetric])

section \<open>The health machine\<close>

text \<open>Probes of one worker, applied to the registry one after the other.\<close>

definition polls ::
  "gateway_config \<Rightarrow> pystr \<Rightarrow> (probe_result \<times> pyfloat) list \<Rightarrow> 'a registry_scheme \<Rightarrow> 'a registry_scheme" where
  "polls c w pts s = fold (\<lambda>(p, now). poll_end c w p now) pts s"

lemma node_polls: "node w (polls c w pts s) = map_option (\<lambda>n. node_after c n pts) (node w s)"
proof (induction pts rule: rev_induct)
  case (snoc pt pts)
  then show ?case
    by (cases pt) (auto simp: polls_def node_after_snoc node_poll_end option.map_comp comp_def)
qed (simp add: polls_def node_after_def option.map_ident)

lemma node_polls_other: "v \<noteq> w \<Longrightarrow> node v (polls c w pts s) = node v s"
  by (induction pts rule: rev_induct) (auto simp: polls_def node_poll_end)

text \<open>
  C9: The registry's counters implement the health rule stated on the history of probes: from a new
  worker, the state after any probes is the one \<open>health_spec\<close> reads off the history (STARTING until the
  first success, UNHEALTHY after a full run of failures, HEALTHY again after a full run of successes,
  DRAINING for good), the counters are the lengths of the current runs, and no other worker changes.
\<close>

theorem health_machine_refines_history:
  assumes "node w s = Some (new_worker_node w a)"
  shows "\<exists>n. node w (polls c w pts s) = Some n \<and>
    state n = health_spec (health_failure_threshold c) (health_recovery_threshold c) (history c pts) \<and>
    consecutive_failures n = int (run_length Failed (history c pts)) \<and>
    consecutive_successes n = int (run_length Succeeded (history c pts)) \<and>
    (\<forall>v. v \<noteq> w \<longrightarrow> node v (polls c w pts s) = node v s)"
  using node_after_spec [of c w a pts] assms by (simp add: Let_def node_polls node_polls_other)

lemma init_node: "node w1 (init_sched documented_config) = Some (new_worker_node w1 (str ''worker-1:50051''))"
  by (simp add: node_init_sched) (simp add: documented_config_def w1_def)

theorem health_machine_refines_history_witness:
  "\<exists>n. node w1 (polls documented_config w1
        [(ProbeResponse (ready_status w1), 1), (ProbeRaised, 2), (ProbeRaised, 3), (ProbeRaised, 4)]
        (init_sched documented_config)) = Some n \<and> state n = UNHEALTHY"
  using health_machine_refines_history [OF init_node, of documented_config
      "[(ProbeResponse (ready_status w1), 1), (ProbeRaised, 2), (ProbeRaised, 3), (ProbeRaised, 4)]"]
  by (simp add: history_def classify_def compatible_def ready_status_def run_length_def documented_config_def)
    blast

text \<open>
  Ejection takes a full run. A healthy worker whose last probe succeeded is still HEALTHY while
  fewer than HEALTH_FAILURE_THRESHOLD probes have failed in a row, and UNHEALTHY from that many on.
\<close>

lemma ejection_at_threshold:
  assumes "state n = HEALTHY" "consecutive_failures n = 0" "all_class c Failed pts" "pts \<noteq> []"
  shows "state (node_after c n pts) = UNHEALTHY \<longleftrightarrow> health_failure_threshold c \<le> int (length pts)"
  using failures_run [OF assms(3,1)] assms(2,4) by simp

theorem ejection_at_threshold_witness:
  "state (node_after documented_config (success_node documented_config 1 (new_worker_node w1 w1))
      [(ProbeRaised, 2), (ProbeRaised, 3)]) \<noteq> UNHEALTHY"
  using ejection_at_threshold [of "success_node documented_config 1 (new_worker_node w1 w1)" documented_config
      "[(ProbeRaised, 2), (ProbeRaised, 3)]"]
  by (simp add: starts_up_def new_worker_node_def all_class_def classify_def)
    (simp add: documented_config_def)

text \<open>
  After an immediate ejection the counter of successes is the length of the current run of successes, and
  until its first recovery the worker stays UNHEALTHY, or drains.
\<close>

lemma marked_successes:
  "consecutive_successes (node_after c (mark_node c n) pts) = int (run_length Succeeded (history c pts))"
proof (induction pts rule: rev_induct)
  case (snoc pt pts)
  then show ?case
    by (cases "classify c (fst pt)") (simp_all add: node_after_snoc history_snoc probe_node_def run_length_Cons)
qed (simp add: node_after_def history_def run_length_def mark_node_def)

lemma marked_state:
  assumes "\<forall>k \<le> length pts. state (node_after c (mark_node c n) (take k pts)) \<noteq> HEALTHY"
  shows "state (node_after c (mark_node c n) pts) = (if Drains \<in> set (history c pts) then DRAINING else UNHEALTHY)"
  using assms
proof (induction pts rule: rev_induct)
  case (snoc pt pts)
  have old: "\<forall>k \<le> length pts. state (node_after c (mark_node c n) (take k pts)) \<noteq> HEALTHY"
  proof (intro allI impI)
    fix k assume k: "k \<le> length pts"
    then show "state (node_after c (mark_node c n) (take k pts)) \<noteq> HEALTHY"
      using snoc.prems [rule_format, of k] by simp
  qed
  have "state (node_after c (mark_node c n) (pts @ [pt])) \<noteq> HEALTHY" using snoc.prems by (metis order_refl take_all_iff)
  with snoc.IH [OF old] show ?case
    by (cases "classify c (fst pt)")
      (auto simp: node_after_snoc history_snoc probe_node_def draining_probe ejects_def starts_up_def recovers_def split: if_splits)
qed (simp add: node_after_def history_def)

definition health :: "pystr \<Rightarrow> 'a registry_scheme \<Rightarrow> health_state option" where
  "health w s = map_option state (node w s)"

definition full_run :: "gateway_config \<Rightarrow> (probe_result \<times> pyfloat) list \<Rightarrow> bool" where
  "full_run c pts \<longleftrightarrow> Drains \<notin> set (history c pts) \<and>
     1 \<le> run_length Succeeded (history c pts) \<and>
     health_recovery_threshold c \<le> int (run_length Succeeded (history c pts))"

lemma marked_recovers:
  assumes "\<forall>k \<le> length pts. state (node_after c (mark_node c n) (take k pts)) \<noteq> HEALTHY"
  shows "state (node_after c (mark_node c n) (pts @ [pt])) = HEALTHY \<longleftrightarrow> full_run c (pts @ [pt])"
  using marked_state [OF assms] marked_successes [of c n pts]
  by (cases "classify c (fst pt)")
    (auto simp: node_after_snoc history_snoc probe_node_def full_run_def run_length_Cons ejects_def starts_up_def recovers_def)

lemma ex_le_Suc: "(\<exists>k \<le> Suc m. P k) \<longleftrightarrow> (\<exists>k \<le> m. P k) \<or> P (Suc m)"
  by (auto simp: le_Suc_eq)

lemma marked_recovery:
  "(\<exists>k \<le> length pts. state (node_after c (mark_node c n) (take k pts)) = HEALTHY) \<longleftrightarrow>
     (\<exists>k \<le> length pts. full_run c (take k pts))"
proof (induction pts rule: rev_induct)
  case (snoc pt pts)
  show ?case
  proof (cases "\<exists>k \<le> length pts. state (node_after c (mark_node c n) (take k pts)) = HEALTHY")
    case True
    with snoc.IH show ?thesis by (simp add: ex_le_Suc cong: conj_cong)
  next
    case False
    then have "\<forall>k \<le> length pts. state (node_after c (mark_node c n) (take k pts)) \<noteq> HEALTHY" by blast
    from marked_recovers [OF this, of pt] snoc.IH show ?thesis by (simp add: ex_le_Suc cong: conj_cong)
  qed
qed (simp add: full_run_def node_after_def history_def run_length_def)

text \<open>
  C31: Recovery after an ejection. A healthy worker that is ejected after a failed call is UNHEALTHY at once,
  and whatever its probes give from then on, it has been HEALTHY again by a given moment exactly when before
  that moment some probe completed a run of HEALTH_RECOVERY_THRESHOLD (at least one) successes in a row, counted
  from the ejection on, with no report of draining before: a failure in between starts the count anew, and
  the successes before the ejection do not count.
\<close>

theorem recovery_after_ejection:
  assumes "node w s = Some n" "state n = HEALTHY" "t = mark_unhealthy_immediately c w s"
  shows "health w t = Some UNHEALTHY \<and>
    ((\<exists>k \<le> length pts. health w (polls c w (take k pts) t) = Some HEALTHY) \<longleftrightarrow>
     (\<exists>k \<le> length pts. Drains \<notin> set (history c (take k pts)) \<and>
        1 \<le> run_length Succeeded (history c (take k pts)) \<and>
        health_recovery_threshold c \<le> int (run_length Succeeded (history c (take k pts)))))"
proof -
  have "node w t = Some (mark_node c n)" using assms by (simp add: node_mark)
  then have "health w (polls c w q t) = Some (state (node_after c (mark_node c n) q))" "health w t = Some UNHEALTHY" for q
    by (simp_all add: health_def node_polls)
  with marked_recovery [of pts c n] show ?thesis by (simp add: full_run_def)
qed

theorem recovery_after_ejection_witness:
  "\<exists>k \<le> 3. health w1 (polls documented_config w1
      (take k [(ProbeRaised, 2), (ProbeResponse (ready_status w1), 3), (ProbeResponse (ready_status w1), 4)])
      (mark_unhealthy_immediately documented_config w1 two_healthy)) = Some HEALTHY"
proof -
  define pts where "pts = [(ProbeRaised, 2 :: pyfloat), (ProbeResponse (ready_status w1), 3), (ProbeResponse (ready_status w1), 4)]"
  obtain n where n: "node w1 two_healthy = Some n" "state n = HEALTHY"
    using w1_le_w2 by (simp add: two_healthy_def concrete_defs)
  have run: "Drains \<notin> set (history documented_config (take 3 pts))"
    "1 \<le> run_length Succeeded (history documented_config (take 3 pts))"
    "health_recovery_threshold documented_config \<le> int (run_length Succeeded (history documented_config (take 3 pts)))"
    by (simp_all add: pts_def history_def classify_def compatible_def ready_status_def run_length_def documented_config_def)
  have len: "length pts = 3" by (simp add: pts_def)
  from recovery_after_ejection [OF n refl, where c = documented_config and pts = pts] run
  have "\<exists>k \<le> 3. health w1 (polls documented_config w1 (take k pts)
      (mark_unhealthy_immediately documented_config w1 two_healthy)) = Some HEALTHY"
    unfolding len by blast
  then show ?thesis unfolding pts_def .
qed

text \<open>
  Draining is for good. Once a worker has reported that it drains, no later probe, however many
  succeed, and no failed call takes it out of DRAINING, and the scheduler does not select it: a worker
  restarted at the same address stays unused until the gateway restarts.
\<close>

lemma draining_is_absorbing:
  assumes "node w s = Some n" "state n = DRAINING" "registry_wf s"
  shows "\<exists>m. node w (polls c w pts (mark_unhealthy_immediately c w s)) = Some m \<and> state m = DRAINING
    \<and> (\<forall>t. select_worker c X (polls c w pts (mark_unhealthy_immediately c w s)) \<noteq> (Inr w, t))"
proof -
  let ?s = "polls c w pts (mark_unhealthy_immediately c w s)"
  have node: "node w ?s = Some (node_after c n pts)"
    using assms(1,2) by (simp add: node_polls node_mark)
  have dr: "state (node_after c n pts) = DRAINING" using assms(2) by (rule draining_absorbs)
  have "registry_wf t \<Longrightarrow> registry_wf (polls c w pts t)" for t :: "'a sched_scheme"
    by (induction pts rule: rev_induct) (auto simp: polls_def intro: registry_wf_poll_end)
  with assms(3) have "registry_wf ?s" by (simp add: registry_wf_mark)
  then have "select_worker c X ?s \<noteq> (Inr w, t)" for t
    using node dr by (auto elim: select_workerE)
  with node dr show ?thesis by blast
qed

definition draining_status :: status_response where
  "draining_status = (ready_status w1)\<lparr>sr_state := WORKER_STATE_DRAINING\<rparr>"

theorem draining_is_absorbing_witness:
  "\<exists>m. node w1 (polls documented_config w1 (replicate 100 (ProbeResponse (ready_status w1), 9))
        (mark_unhealthy_immediately documented_config w1
          (poll_end documented_config w1 (ProbeResponse draining_status) 1 two_healthy))) = Some m \<and>
     state m = DRAINING"
proof -
  let ?s = "poll_end documented_config w1 (ProbeResponse draining_status) 1 two_healthy"
  obtain n where n: "node w1 two_healthy = Some n"
    using init_node w1_le_w2 by (simp add: two_healthy_def node_poll_end)
  have "node w1 ?s = Some (draining_node n)"
    using n by (simp add: node_poll_end probe_node_def classify_def draining_status_def)
  moreover have "registry_wf ?s" using two_healthy_wf by (intro registry_wf_poll_end sched_wfD)
  ultimately show ?thesis
    using draining_is_absorbing [of w1 ?s "draining_node n" documented_config
      "replicate 100 (ProbeResponse (ready_status w1), 9)"] by auto
qed

section \<open>The client\<close>

text \<open>
  C10: One prediction makes at most two calls, to different workers, each with a positive timeout that
  is what was left until the one deadline when its attempt began.
\<close>

theorem predict_calls_bounded:
  assumes "sched_wf s" "env_ok env"
  shows "length (predict_trace c env now rid inputs ver timeout_ms s) \<le> 2
    \<and> distinct (map fst (predict_trace c env now rid inputs ver timeout_ms s))
    \<and> (\<forall>(w, t) \<in> set (predict_trace c env now rid inputs ver timeout_ms s).
         0 < t \<and> (\<exists>i \<in> {1, 2}. t = now + of_int timeout_ms / 1000 - env_begin (env i)))"
proof -
  let ?k = "start_call now rid inputs ver timeout_ms"
  have "length (rpc_trace c env ?k [1, 2] s) \<le> 2" using length_rpc_trace [of c env ?k "[1, 2]" s] by simp
  moreover have "distinct (map fst (rpc_trace c env ?k [1, 2] s))"
    using rpc_trace_excludes [OF assms] by blast
  moreover have "gateway_deadline ?k = now + of_int timeout_ms / 1000" by (simp add: start_call_def)
  ultimately show ?thesis
    using rpc_trace_timeouts [of _ _ c env ?k "[1, 2]" s] unfolding predict_trace_def by auto
qed

text \<open>A first worker that is gone, a second that answers; other tasks change nothing meanwhile.\<close>

definition answer :: predict_response where
  "answer = \<lparr>rs_request_id = str ''r'', rs_model_version = str ''tinybert-sst2-v1'', rs_worker_id = w2,
     rs_predictions = [(str ''positive'', 95 / 100)],
     rs_timing = \<lparr>wt_queue_ms = 0, wt_preprocess_ms = 1 / 10, wt_inference_ms = 1 / 2,
       wt_postprocess_ms = 1 / 10, wt_worker_total_ms = 1\<rparr>\<rparr>"

definition failover_env :: "nat \<Rightarrow> 'a sched_scheme attempt_env" where
  "failover_env i = \<lparr>env_begin = 2, env_rpc = (\<lambda>w t. if i = 1 then RpcError UNAVAILABLE None else RpcResponse answer),
     env_during = (\<lambda>s. s), env_end = 2\<rparr>"

lemma failover_env_ok: "env_ok failover_env"
  by (simp add: env_ok_def failover_env_def)

lemma failover_trace:
  "map fst (predict_trace documented_config failover_env 2 (str ''r'') [str ''good''] (str ''v'') 1000 two_healthy)
     = [w1, w2]"
  using w1_le_w2
  by (simp add: predict_trace_def failover_env_def attempt_end_def handle_outcome_def
      mark_unhealthy_immediately_def mark_node_def release_worker_def unreserve_def answer_def
      two_healthy_def concrete_defs)

theorem predict_calls_bounded_witness:
  "length (predict_trace documented_config failover_env 2 (str ''r'') [str ''good''] (str ''v'') 1000 two_healthy) = 2"
  using predict_calls_bounded [OF two_healthy_wf failover_env_ok, of documented_config 2 "str ''r''"
      "[str ''good'']" "str ''v''" 1000] arg_cong [OF failover_trace, of length] by simp

text \<open>
  C11: Every reservation is given back. Whatever its calls do (answer, fail, raise, be cancelled), a
  prediction leaves every worker's reservation count as it found it.
\<close>

theorem predict_releases_reservations:
  assumes "sched_wf s" "env_ok env" "\<And>i w t. reserved w (env_during (env i) t) = reserved w t"
  shows "reserved w (snd (predict c env now rid inputs ver timeout_ms s)) = reserved w s"
  unfolding predict_def by (rule run_attempts_reserved [OF assms])

theorem predict_releases_reservations_witness:
  "reserved w1 (snd (predict documented_config failover_env 2 (str ''r'') [str ''good''] (str ''v'') 1000
     two_healthy)) = 0"
proof -
  have "reserved w1 two_healthy = 0"
    by (simp add: two_healthy_def reserved_init)
  then show ?thesis
    using predict_releases_reservations [OF two_healthy_wf failover_env_ok, of w1 documented_config]
    by (simp add: failover_env_def)
qed

text \<open>The errors an attempt may end with.\<close>

definition attempt_errors :: "app_error set" where
  "attempt_errors =
     {DeadlineExceededError ''Gateway deadline exceeded before RPC dispatch.'', NoHealthyWorkerError_default,
      GatewayAtCapacityError_default, WorkerUnavailableError ''Worker unavailable and retry budget exhausted.''} \<union>
     {map_rpc_error code details | code details. code \<noteq> UNAVAILABLE}"

lemma attempt_end_raised:
  "attempt_end c a now k w out s = (Raised (App e), t) \<Longrightarrow> e \<in> attempt_errors"
  by (auto simp: attempt_end_def handle_outcome_def attempt_errors_def Let_def
      split: rpc_outcome.splits prod.splits if_splits)

lemma attempt_end_second:
  "attempt_end c 2 now k w out s \<noteq> (Retry x, t)"
  using attempt_end_retry [of c 2 now k w out s x t] by auto

lemma run_attempts_error:
  assumes "run_attempts c env k attempts s = (Inl (App e), t)" "attempts = [1, 2] \<or> attempts = [2]"
  shows "e \<in> attempt_errors"
  using assms
proof (induction attempts arbitrary: k s)
  case (Cons a rest)
  have beg: "attempt_begin c (env_begin (env a)) k s = (Inl e, u) \<Longrightarrow> e \<in> attempt_errors" for u
    by (drule attempt_begin_error) (auto simp: attempt_errors_def)
  have rest: "rest = [2] \<or> rest = [] \<and> a = 2" using Cons.prems(2) by auto
  from Cons show ?case
    using beg rest
    by (auto simp: attempt_end_second split: sum.splits prod.splits attempt_result.splits dest: attempt_end_raised)
qed simp

text \<open>
  The client's errors. A prediction that fails with an application error fails with the expired
  deadline, one of the scheduler's two refusals, an exhausted retry, or the mapping of the last call's
  gRPC status; the statement after the retry loop is never reached.
\<close>

lemma predict_errors:
  assumes "predict c env now rid inputs ver timeout_ms s = (Inl (App e), t)"
  shows "e \<in> attempt_errors \<and> e \<noteq> WorkerUnavailableError ''Prediction failed after retries.''"
proof -
  have "e \<in> attempt_errors"
    using run_attempts_error [OF assms [unfolded predict_def]] by simp
  moreover have "WorkerUnavailableError ''Prediction failed after retries.'' \<notin> attempt_errors"
    by (auto simp: attempt_errors_def map_rpc_error_def error_defaults Let_def split: if_splits)
  ultimately show ?thesis by auto
qed

lemma no_worker_fails:
  "predict documented_config failover_env 2 (str ''r'') [] [] 1000 (init_sched documented_config)
     = (Inl (App NoHealthyWorkerError_default), init_sched documented_config)"
  by (simp add: predict_def failover_env_def concrete_defs)

theorem predict_errors_witness: "NoHealthyWorkerError_default \<in> attempt_errors"
  using predict_errors [OF no_worker_fails] by simp

text \<open>
  C27: The retry rule. A second call is made only after an UNAVAILABLE from the first, with at least
  MIN_RETRY_BUDGET_MS left at that moment, and it goes to another worker.
\<close>

theorem retry_only_after_unavailable:
  fixes s :: "'a sched_scheme"
  assumes "sched_wf s" "env_ok env"
    "predict_trace c env now rid inputs ver timeout_ms s = [(v, t), (w, u)]"
  shows "(\<exists>details. env_rpc (env 1) v t = RpcError UNAVAILABLE details) \<and> w \<noteq> v \<and>
    of_int (min_retry_budget_ms c) \<le> (now + of_int timeout_ms / 1000 - env_end (env 1)) * 1000"
proof -
  let ?k = "start_call now rid inputs ver timeout_ms"
  have "distinct (map fst (predict_trace c env now rid inputs ver timeout_ms s))"
    unfolding predict_trace_def using rpc_trace_excludes [OF assms(1,2)] by blast
  then have "w \<noteq> v" using assms(3) by auto
  moreover have "gateway_deadline ?k = now + of_int timeout_ms / 1000" by (simp add: start_call_def)
  moreover have retried: "\<exists>x q (s1 :: 'a sched_scheme). attempt_end c 1 (env_end (env 1)) ?k v (env_rpc (env 1) v t) s1 = (Retry x, q)"
  proof -
    obtain r s1 where b: "attempt_begin c (env_begin (env 1)) ?k s = (r, s1)" by fastforce
    with assms(3) obtain wt where r: "r = Inr wt" by (cases r) (auto simp: predict_trace_def)
    obtain q s2 where e: "attempt_end c 1 (env_end (env 1)) ?k v (env_rpc (env 1) v t)
        (env_during (env 1) s1) = (q, s2)" by fastforce
    from assms(3) b r have "wt = (v, t)" by (cases wt) (simp add: predict_trace_def)
    with assms(3) b r e obtain x where "q = Retry x" by (cases q) (simp_all add: predict_trace_def)
    with e show ?thesis by blast
  qed
  moreover from retried obtain x q and s1 :: "'a sched_scheme"
    where e: "attempt_end c 1 (env_end (env 1)) ?k v (env_rpc (env 1) v t) s1 = (Retry x, q)" by blast
  ultimately show ?thesis using attempt_end_retry [OF e] by simp
qed

theorem retry_only_after_unavailable_witness:
  "\<exists>t. env_rpc (failover_env 1 :: sched attempt_env) w1 t = RpcError UNAVAILABLE None"
proof -
  obtain t u where "predict_trace documented_config failover_env 2 (str ''r'') [str ''good''] (str ''v'') 1000
      two_healthy = [(w1, t), (w2, u)]"
    using failover_trace by (auto simp: map_eq_Cons_conv)
  from retry_only_after_unavailable [OF two_healthy_wf failover_env_ok this]
  show ?thesis by (auto simp: failover_env_def)
qed

text \<open>The health states across an operation.\<close>

lemma health_release [simp]: "health v (release_worker w s) = health v s"
  by (cases "node w s") (auto simp: health_def node_release_worker)

lemma health_obs [simp]:
  "health v (inc_rpc_failures w q s) = health v s" "health v (inc_retries q s) = health v s"
  "health v (upd_worker w get_stub s) = health v s"
  by (auto simp: health_def option.map_comp comp_def frame_simps)

lemma health_mark:
  "health v (mark_unhealthy_immediately c w s) =
     (if v = w \<and> health w s = Some HEALTHY then Some UNHEALTHY else health v s)"
  by (cases "node w s") (auto simp: health_def node_mark)

lemma health_select: "registry_wf s \<Longrightarrow> select_worker c X s = (Inr w, t) \<Longrightarrow> health v t = health v s"
  by (erule (1) select_workerE) (auto simp: health_def node_reservation_made option.map_comp comp_def)

lemma health_attempt_end:
  "health v (snd (attempt_end c a now k w out s)) =
     (if (\<exists>details. out = RpcError UNAVAILABLE details) \<and> v = w \<and> health w s = Some HEALTHY
      then Some UNHEALTHY else health v s)"
  by (cases out) (auto simp: attempt_end_def split_beta handle_outcome_def Let_def health_mark)

lemma healthy_iff: "health w s = Some HEALTHY \<longleftrightarrow> (\<exists>n. node w s = Some n \<and> state n = HEALTHY)"
  by (auto simp: health_def)

text \<open>
  Only an UNAVAILABLE ejects a worker. After any other outcome of a call every worker has the health
  state it had before, FAILED_PRECONDITION (a worker that is not ready) included.
\<close>

lemma only_unavailable_ejects:
  assumes "\<forall>details. out \<noteq> RpcError UNAVAILABLE details"
  shows "health v (snd (attempt_end c a now k w out s)) = health v s"
  using assms by (auto simp: health_attempt_end)

theorem only_unavailable_ejects_witness:
  "health w1 (snd (attempt_end documented_config 1 3 (start_call 2 [] [] [] 1000) w1
      (RpcError FAILED_PRECONDITION None) two_healthy)) = Some HEALTHY"
  using only_unavailable_ejects [of "RpcError FAILED_PRECONDITION None" w1 documented_config 1 3
      "start_call 2 [] [] [] 1000" w1 two_healthy]
  by simp (simp add: health_def two_healthy_def concrete_defs)

text \<open>
  A prediction whose first worker is gone and was the only healthy one fails with
  NO_HEALTHY_WORKER, not WORKER_UNAVAILABLE: the retry finds no worker to go to.
\<close>

lemma lone_worker_lost:
  assumes wf: "sched_wf s" and calm: "\<And>i t. env_during (env i) t = t"
    and sel: "select_worker c {} s = (Inr w, s1)"
    and alone: "\<And>v. health v s = Some HEALTHY \<Longrightarrow> v = w"
    and gone: "env_rpc (env 1) w (now + of_int timeout_ms / 1000 - env_begin (env 1)) = RpcError UNAVAILABLE details"
    and time: "env_begin (env 1) < now + of_int timeout_ms / 1000" "env_begin (env 2) < now + of_int timeout_ms / 1000"
      "of_int (min_retry_budget_ms c) \<le> (now + of_int timeout_ms / 1000 - env_end (env 1)) * 1000"
  shows "fst (predict c env now rid inputs ver timeout_ms s) = Inl (App NoHealthyWorkerError_default)"
proof -
  let ?k = "start_call now rid inputs ver timeout_ms"
  let ?t = "upd_worker w get_stub s1"
  let ?e = "attempt_end c 1 (env_end (env 1)) ?k w (RpcError UNAVAILABLE details) ?t"
  have dl: "gateway_deadline ?k = now + of_int timeout_ms / 1000" "exclude_ids ?k = {}"
    by (simp_all add: start_call_def)
  have beg: "attempt_begin c (env_begin (env 1)) ?k s =
      (Inr (w, now + of_int timeout_ms / 1000 - env_begin (env 1)), ?t)"
    using sel time(1) by (simp add: attempt_begin_def dl)
  have r: "fst ?e = Retry {w}"
    using time(3) by (simp add: attempt_end_def handle_outcome_def Let_def dl)
  have wft: "sched_wf ?t"
    using sched_wf_attempt_begin [OF wf, of c "env_begin (env 1)" ?k] beg by simp
  then have wfe: "sched_wf (snd ?e)" by (rule sched_wf_attempt_end)
  have "health v (snd ?e) \<noteq> Some HEALTHY" for v
    using alone [of v] health_select [OF sched_wfD(1) [OF wf] sel] by (auto simp: health_attempt_end)
  then have "select_worker c X (snd ?e) = (Inl NoHealthyWorkerError_default, snd ?e)" for X
    using select_outcome [OF wfe, of c X]
    by (auto simp: selectable_def healthy_iff split: prod.splits sum.splits)
  then show ?thesis
    using beg gone r time(2)
    by (cases ?e) (simp add: predict_def calm attempt_begin_def dl)
qed

definition one_healthy :: sched where
  "one_healthy = poll_end documented_config w1 (ProbeResponse (ready_status w1)) 1 (init_sched documented_config)"

lemma one_healthy_wf: "sched_wf one_healthy"
  unfolding one_healthy_def by (intro sched_wf_registry_ops init_sched_wf)

lemma one_healthy_alone: "health v one_healthy = Some HEALTHY \<Longrightarrow> v = w1"
  by (cases "v = w1")
    (auto simp: one_healthy_def health_def node_poll_end node_init_sched new_worker_node_def)

lemma one_healthy_selected: "fst (select_worker documented_config {} one_healthy) = Inr w1"
  by (simp add: one_healthy_def concrete_defs)

theorem lone_worker_lost_witness:
  "fst (predict documented_config failover_env 2 (str ''r'') [str ''good''] (str ''v'') 1000 one_healthy)
     = Inl (App NoHealthyWorkerError_default)"
proof -
  obtain s1 where sel: "select_worker documented_config {} one_healthy = (Inr w1, s1)"
    using one_healthy_selected by (cases "select_worker documented_config {} one_healthy") simp
  show ?thesis
    by (rule lone_worker_lost [OF one_healthy_wf _ sel one_healthy_alone])
      (simp_all add: failover_env_def documented_config_def)
qed

end
