(* ===== verification/App_Properties.thy ===== *)
theory App_Properties
  imports Gateway_Properties
begin

text \<open>
  The properties of the HTTP side: which payloads are accepted, how the others fail, what every response
  says, what the middleware counts, and what happens to requests while the gateway drains.
\<close>

section \<open>The request contract\<close>

text \<open>
  The documented contract, written without the code's definitions: the four fields, the request id's
  alphabet and length, 1 to as many inputs as configured, each a non-empty text that UTF-8 can encode
  within its limit, their total, the one model version, an integer timeout between the bounds; and what the
  payload says with the defaults filled in.
\<close>

definition contract_id :: "pystr \<Rightarrow> bool" where
  "contract_id s \<longleftrightarrow> length s \<in> {1..64} \<and>
     set s \<subseteq> set (str ''ABCDEFGHIJKLMNOPQRSTUVWXYZabcdefghijklmnopqrstuvwxyz0123456789._-'')"

definition contract_text :: "gateway_config \<Rightarrow> pystr \<Rightarrow> bool" where
  "contract_text c s \<longleftrightarrow> s \<noteq> [] \<and> (\<forall>p \<in> set s. p \<notin> {55296..57343}) \<and> int (utf8_size s) \<le> max_input_bytes c"

definition contract_payload :: "gateway_config \<Rightarrow> pystr \<Rightarrow> (pystr, json) dict \<Rightarrow> validated \<Rightarrow> bool" where
  "contract_payload c fresh d v \<longleftrightarrow>
     fst ` set d \<subseteq> {str ''request_id'', str ''inputs'', str ''model_version'', str ''timeout_ms''} \<and>
     (case map_of d (str ''request_id'') of
        None \<Rightarrow> v_request_id v = fresh
      | Some JNull \<Rightarrow> v_request_id v = fresh
      | Some (JStr r) \<Rightarrow> contract_id r \<and> v_request_id v = r
      | _ \<Rightarrow> False) \<and>
     map_of d (str ''inputs'') = Some (JArr (map JStr (v_inputs v))) \<and>
     1 \<le> length (v_inputs v) \<and> int (length (v_inputs v)) \<le> max_inputs_per_request c \<and>
     (\<forall>s \<in> set (v_inputs v). contract_text c s) \<and>
     int (\<Sum>s \<leftarrow> v_inputs v. utf8_size s) \<le> max_total_input_bytes c \<and>
     v_model_version v = model_version c \<and>
     (case map_of d (str ''model_version'') of None \<Rightarrow> True | Some j \<Rightarrow> j = JStr (model_version c)) \<and>
     v_timeout_ms v \<in> {min_timeout_ms c..max_timeout_ms c} \<and>
     (case map_of d (str ''timeout_ms'') of None \<Rightarrow> v_timeout_ms v = default_timeout_ms c | Some j \<Rightarrow> j = JInt (v_timeout_ms v))"

lemma contract_alphabet:
  "p \<in> set (str ''ABCDEFGHIJKLMNOPQRSTUVWXYZabcdefghijklmnopqrstuvwxyz0123456789._-'') \<longleftrightarrow> request_id_char p"
proof
  show "p \<in> set (str ''ABCDEFGHIJKLMNOPQRSTUVWXYZabcdefghijklmnopqrstuvwxyz0123456789._-'') \<Longrightarrow> request_id_char p"
    by (auto simp: str_def request_id_char_def)
  assume "request_id_char p"
  then have "p \<in> set [65..<91] \<union> set [97..<123] \<union> set [48..<58] \<union> {46, 95, 45}"
    unfolding request_id_char_def set_upt by auto
  then show "p \<in> set (str ''ABCDEFGHIJKLMNOPQRSTUVWXYZabcdefghijklmnopqrstuvwxyz0123456789._-'')"
    by (simp add: str_def upt_rec) blast
qed

lemma request_id_match_contract:
  assumes "\<And>b. s \<noteq> b @ [10]"
  shows "request_id_match s \<longleftrightarrow> contract_id s"
  unfolding request_id_match_iff contract_id_def subset_iff contract_alphabet list_all_iff
  using assms by auto

lemma valid_payload_contract:
  assumes "1 < min_timeout_ms c" "\<And>b. map_of d (str ''request_id'') \<noteq> Some (JStr (b @ [10]))"
  shows "valid_payload c fresh d v \<longleftrightarrow> contract_payload c fresh d v"
proof -
  have rid: "id_resolves fresh (map_of d (str ''request_id'')) r \<longleftrightarrow>
      (case map_of d (str ''request_id'') of
         None \<Rightarrow> r = fresh | Some JNull \<Rightarrow> r = fresh | Some (JStr q) \<Rightarrow> contract_id q \<and> r = q | _ \<Rightarrow> False)" for r
    using assms(2) request_id_match_contract
    by (auto simp: id_resolves_def split: option.split json.split)
  have texts: "list_all (item_ok c) ss \<longleftrightarrow> (\<forall>s \<in> set ss. contract_text c s)" for ss
    by (auto simp: list_all_iff item_ok_def contract_text_def list_ex_iff surrogate_def)
  have timeout: "min_timeout_ms c \<le> n \<Longrightarrow> timeout_read c j n \<longleftrightarrow>
      (case j of None \<Rightarrow> n = default_timeout_ms c | Some i \<Rightarrow> i = JInt n)" for j n
    using assms(1) by (auto simp: timeout_read_def split: option.split)
  have version: "map_of d (str ''model_version'') \<in> {None, Some (JStr (model_version c))} \<longleftrightarrow>
      (case map_of d (str ''model_version'') of None \<Rightarrow> True | Some j \<Rightarrow> j = JStr (model_version c))"
    by (auto split: option.split)
  have len: "ss \<noteq> [] \<longleftrightarrow> 1 \<le> length ss" for ss :: "pystr list" by (cases ss) auto
  note unfolds = valid_payload_def contract_payload_def rid inputs_accepted_def texts version len total_size_def
    allowed_keys_def atLeastAtMost_iff
  show ?thesis
  proof (cases "min_timeout_ms c \<le> v_timeout_ms v")
    case True
    show ?thesis unfolding unfolds timeout [OF True] by (simp only: conj_ac)
  next
    case False
    then have "\<not> valid_payload c fresh d v" by (auto simp only: valid_payload_def)
    moreover have "\<not> contract_payload c fresh d v" using False by (auto simp only: contract_payload_def atLeastAtMost_iff)
    ultimately show ?thesis by (simp only: not_False_eq_True)
  qed
qed

text \<open>
  C7: Validation accepts exactly the payloads of the documented contract and returns what they say with the
  defaults filled in, for settings whose least timeout is more than 1 ms (a JSON \<open>true\<close> counts as 1 in
  Python) and payloads whose request id does not end in a newline (which the code's expression lets through).
\<close>

theorem validate_accepts_valid_payloads:
  assumes "1 < min_timeout_ms c"
    and "\<And>d b. payload = Some (JObj d) \<Longrightarrow> map_of d (str ''request_id'') \<noteq> Some (JStr (b @ [10]))"
  shows "validate c fresh payload = Inr v \<longleftrightarrow> (\<exists>d. payload = Some (JObj d) \<and> contract_payload c fresh d v)"
proof -
  have "valid_payload c fresh d v \<longleftrightarrow> contract_payload c fresh d v" if "payload = Some (JObj d)" for d
    by (rule valid_payload_contract [OF assms(1)]) (rule assms(2) [OF that])
  then show ?thesis unfolding validate_Inr by (simp cong: conj_cong)
qed

text \<open>
  C32: A payload that is refused is refused with an application error of status 400 or 413, unless one of
  its inputs holds a lone surrogate, where the UTF-8 encoder's own exception escapes.
\<close>

theorem validate_refusals:
  assumes "validate c fresh payload = Inl e"
  shows "(\<exists>a. e = App a \<and> err_status a \<in> {400, 413}) \<or>
    e = PyExn ''UnicodeEncodeError'' \<and> \<not> encodable payload"
  using assms by (rule validate_Inl)

lemma surrogate_refused:
  "validate documented_config [] (Some (JObj [(str ''inputs'', JArr [JStr [55296]])]))
     = Inl (PyExn ''UnicodeEncodeError'')"
  by (simp add: validate_def allowed_keys_def check_request_id_def check_inputs_def utf8_char_def
      documented_config_def)

theorem validate_refusals_witness:
  "\<not> encodable (Some (JObj [(str ''inputs'', JArr [JStr [55296]])]))"
  using validate_refusals [OF surrogate_refused] by simp

text \<open>
  The request ids the gateway accepts are the documented ones, 1 to 64 characters out of letters,
  digits, dot, underscore and dash, and the same followed by one newline, which Python's \<open>$\<close> lets through.
\<close>

lemma request_ids_accepted:
  "request_id_match s \<longleftrightarrow>
     (\<exists>b. (s = b \<or> s = b @ [10]) \<and> 1 \<le> length b \<and> length b \<le> 64 \<and> list_all request_id_char b)"
  by (rule request_id_match_iff)

section \<open>Responses\<close>

lemma handle_request_cases:
  assumes "handle_request c env fallback clock r s = (Inr resp, t)" "is_predict r"
  shows "relays c env (ht_body r) (add_active 1 s) resp \<or> error_shape resp"
proof (cases "early_response c r s")
  case (Some response)
  with assms(1) have "response = Inr resp" by (simp add: handle_request_def middleware_early)
  with Some show ?thesis by (simp add: early_response_shape)
next
  case None
  obtain outcome u where d: "dispatch c env fallback r (add_active 1 s) = (outcome, u)" by fastforce
  obtain st code where st: "settle outcome = (Inr resp, st, code)"
    using middleware_counts [of c r s "dispatch c env fallback r",
        OF None d assms(1) [unfolded handle_request_def]] by blast
  show ?thesis
  proof (cases outcome)
    case (Inl e)
    with st show ?thesis by (auto dest: error_shape_settle)
  next
    case (Inr resp')
    with st d assms(2) show ?thesis by (auto simp: dispatch_predict dest: predict_endpoint_Inr)
  qed
qed


text \<open>
  C12: Every response to a prediction request is either a 200 that relays, for a valid payload, the
  predictions one of the calls this request made was answered with, under the resolved request id and
  the worker and attempt that answered; or an error whose status is the one its code stands for, one of
  400, 413, 429, 500, 503 and 504.
\<close>

theorem predict_responses:
  assumes "handle_request c env fallback clock r s = (Inr resp, t)" "is_predict r"
  shows "relays c env (ht_body r) (add_active 1 s) resp \<or> error_shape resp"
  by (rule handle_request_cases [OF assms])

definition plain_request :: http_request where
  "plain_request = \<lparr>ht_method = ''POST'', ht_path = str ''/v1/predict'', ht_content_length = Some (str ''7''),
     ht_body = [1, 2, 3, 4, 5, 6, 7]\<rparr>"

definition open_gateway :: "bool \<Rightarrow> gateway" where
  "open_gateway accepting =
     \<lparr>GATEWAY_REQUESTS_TOTAL = (\<lambda>_. 0), GATEWAY_REQUEST_DURATION_SECONDS = [],
      GATEWAY_ACTIVE_REQUESTS = 0, GATEWAY_ROUTING_TOTAL = (\<lambda>_. 0), GATEWAY_RETRIES_TOTAL = (\<lambda>_. 0),
      GATEWAY_RPC_FAILURES_TOTAL = (\<lambda>_. 0), GATEWAY_WORKER_OUTSTANDING = (\<lambda>_. None),
      GATEWAY_WORKER_HEALTHY = (\<lambda>_. None), log_calls = [], workers = init_workers documented_config,
      poller_tasks = [], stopping = False, cursor = 0, accepting_requests = accepting\<rparr>"

definition json_env :: "json option \<Rightarrow> gateway request_env" where
  "json_env payload = \<lparr>re_uuid = str ''u'', re_json = (\<lambda>_. payload), re_perf = (\<lambda>_. 0), re_loop_time = 2,
     re_attempts = failover_env\<rparr>"

definition good_payload :: "json option" where
  "good_payload = Some (JObj [(str ''inputs'', JArr [JStr (str ''good'')])])"

lemma plain_not_early: "early_response documented_config plain_request (open_gateway True) = None"
  by (simp add: early_defs plain_request_def open_gateway_def documented_config_def py_int_def
      py_strip_def py_isspace_def str_def Let_def)

lemma plain_is_predict: "is_predict plain_request"
  by (simp add: is_predict_def plain_request_def)

lemma no_worker_response:
  "\<exists>t. handle_request documented_config (json_env None) fallback (\<lambda>_. 0) plain_request (open_gateway True)
     = (Inr (error_response [] (InvalidRequestError ''Invalid JSON payload.'')), t)"
  using plain_not_early plain_is_predict
  by (simp add: handle_request_def middleware_def dispatch_predict predict_endpoint_def validate_def json_env_def)

theorem predict_responses_witness:
  "error_shape (error_response [] (InvalidRequestError ''Invalid JSON payload.''))"
proof -
  obtain t where t: "handle_request documented_config (json_env None) (\<lambda>_. health_live) (\<lambda>_. 0)
      plain_request (open_gateway True) =
      (Inr (error_response [] (InvalidRequestError ''Invalid JSON payload.'')), t)"
    using no_worker_response by blast
  from predict_responses [OF t plain_is_predict] show ?thesis
    by (auto simp: relays_def error_response_def)
qed

section \<open>The middleware\<close>

text \<open>
  A request that is not turned away at the door is counted once, whatever becomes of it: the gauge
  of active requests returns to its value, one duration is observed, and one counter grows by one, the
  one labelled with the status of the response (500 if the request was cancelled).
\<close>

lemma requests_counted_once:
  assumes "early_response c r s = None" "others_balanced (re_attempts env)"
    "handle_request c env fallback clock r s = (response, t)"
  shows "GATEWAY_ACTIVE_REQUESTS t = GATEWAY_ACTIVE_REQUESTS s
    \<and> (\<exists>u status code. status = (case response of Inr resp \<Rightarrow> hr_status resp | Inl _ \<Rightarrow> 500) \<and>
        GATEWAY_REQUESTS_TOTAL t = (GATEWAY_REQUESTS_TOTAL u)((status, code) := Suc (GATEWAY_REQUESTS_TOTAL u (status, code))) \<and>
        GATEWAY_REQUEST_DURATION_SECONDS t = GATEWAY_REQUEST_DURATION_SECONDS u @ [clock 1 - clock 0] \<and>
        u = snd (dispatch c env fallback r (add_active 1 s)))"
proof -
  obtain outcome u where d: "dispatch c env fallback r (add_active 1 s) = (outcome, u)" by fastforce
  note m = middleware_counts [of c r s "dispatch c env fallback r", OF assms(1) d assms(3) [unfolded handle_request_def]]
  have "GATEWAY_ACTIVE_REQUESTS u = GATEWAY_ACTIVE_REQUESTS s + 1"
    using active_dispatch [OF assms(2), of c fallback r "add_active 1 s"] d by (simp add: add_active_def)
  moreover have "st = (case response of Inr resp \<Rightarrow> hr_status resp | Inl _ \<Rightarrow> 500)"
    if "settle outcome = (response, st, code)" for st code
    using that by (cases outcome) (auto simp: settle_def error_response_def split: exn.splits)
  ultimately show ?thesis using m d by auto
qed

theorem requests_counted_once_witness:
  "GATEWAY_ACTIVE_REQUESTS (snd (handle_request documented_config (json_env good_payload) (\<lambda>_. health_live) (\<lambda>_. 0)
     plain_request (open_gateway True))) = 0"
proof -
  have "others_balanced (re_attempts (json_env good_payload))"
    by (simp add: others_balanced_def json_env_def failover_env_def)
  from requests_counted_once [OF plain_not_early this] show ?thesis
    by (metis open_gateway_def gateway.select_convs(1) obs.select_convs(3) prod.collapse)
qed

lemma err_code_not_NONE: "err_code e \<noteq> ''NONE''"
  by (cases e) simp_all

text \<open>
  The client's application errors are counted without their code. When a prediction fails in the
  client, the endpoint has already turned the error into a response, and the middleware counts it under
  the error code "NONE", beside the successes.
\<close>

lemma client_errors_counted_as_NONE:
  assumes "early_response c r s = None" "is_predict r"
    "dispatch c env fallback r (add_active 1 s) = (Inr resp, u)" "hr_content resp = ErrorContent rid b"
    "handle_request c env fallback clock r s = (response, t)"
  shows "response = Inr resp \<and> eb_code b \<noteq> ''NONE'' \<and>
    GATEWAY_REQUESTS_TOTAL t =
      (GATEWAY_REQUESTS_TOTAL u)((hr_status resp, ''NONE'') := Suc (GATEWAY_REQUESTS_TOTAL u (hr_status resp, ''NONE'')))"
proof -
  have "\<exists>e. b = to_dict e"
    using assms(2-4)
    by (auto simp: dispatch_predict predict_endpoint_def error_response_def success_response_def split: sum.splits prod.splits exn.splits)
  then have "eb_code b \<noteq> ''NONE''" by (auto simp: to_dict_def err_code_not_NONE)
  with middleware_counts [of c r s "dispatch c env fallback r", OF assms(1,3) assms(5) [unfolded handle_request_def]]
  show ?thesis by simp
qed

lemma good_payload_valid:
  "validate documented_config (str ''u'') good_payload =
     Inr \<lparr>v_request_id = str ''u'', v_inputs = [str ''good''], v_model_version = model_version documented_config,
       v_timeout_ms = 1000\<rparr>"
  by (simp add: good_payload_def validate_def allowed_keys_def check_request_id_def check_inputs_def
      check_model_version_def check_timeout_def documented_config_def)
    (simp add: utf8_char_def str_def)

theorem validate_accepts_valid_payloads_witness:
  "\<exists>d. good_payload = Some (JObj d) \<and> contract_payload documented_config (str ''u'') d
     \<lparr>v_request_id = str ''u'', v_inputs = [str ''good''], v_model_version = model_version documented_config,
       v_timeout_ms = 1000\<rparr>"
proof -
  have timeout: "1 < min_timeout_ms documented_config" by (simp add: documented_config_def)
  have no_id: "map_of d (str ''request_id'') \<noteq> Some (JStr (b @ [10]))" if "good_payload = Some (JObj d)" for d b
    using that by (auto simp: good_payload_def str_def)
  from validate_accepts_valid_payloads [OF timeout no_id] good_payload_valid show ?thesis by blast
qed

lemma no_worker_dispatch:
  "dispatch documented_config (json_env good_payload) (\<lambda>_. health_live) plain_request (add_active 1 (open_gateway True))
     = (Inr (error_response (str ''u'') NoHealthyWorkerError_default), add_active 1 (open_gateway True))"
proof -
  have p: "predict documented_config failover_env 2 rid inputs ver 1000 (add_active 1 (open_gateway True)) =
      (Inl (App NoHealthyWorkerError_default), add_active 1 (open_gateway True))" for rid inputs ver
    by (simp add: predict_def failover_env_def attempt_begin_def start_call_def select_worker_def
        healthy_workers_def dict_values_def add_active_def open_gateway_def init_workers_def new_worker_node_def
        documented_config_def)
  show ?thesis
    using good_payload_valid p plain_is_predict by (simp add: dispatch_predict predict_endpoint_def json_env_def)
qed

theorem client_errors_counted_as_NONE_witness:
  "\<exists>t. handle_request documented_config (json_env good_payload) (\<lambda>_. health_live) (\<lambda>_. 0) plain_request
     (open_gateway True) = (Inr (error_response (str ''u'') NoHealthyWorkerError_default), t) \<and>
     GATEWAY_REQUESTS_TOTAL t (503, ''NONE'') = 1"
proof -
  obtain response t where h: "handle_request documented_config (json_env good_payload) (\<lambda>_. health_live) (\<lambda>_. 0)
      plain_request (open_gateway True) = (response, t)" by fastforce
  have "hr_content (error_response (str ''u'') NoHealthyWorkerError_default)
      = ErrorContent (str ''u'') (to_dict NoHealthyWorkerError_default)"
    "hr_status (error_response (str ''u'') NoHealthyWorkerError_default) = 503"
    by (simp_all add: error_response_def error_defaults)
  with client_errors_counted_as_NONE [OF plain_not_early plain_is_predict no_worker_dispatch _ h] h
  show ?thesis by (simp add: add_active_def open_gateway_def)
qed

text \<open>
  While the gateway drains, and for a body over the size limit, a prediction request is answered at
  the door, 503 SERVICE_DRAINING or 413 REQUEST_TOO_LARGE, and leaves no trace: no worker is
  reserved or called, no counter moves.
\<close>

lemma refused_at_the_door:
  assumes "ht_path r = str ''/v1/predict''"
    "\<not> accepting_requests s \<or> http_max_body_bytes c < int (length (ht_body r)) \<and> ht_content_length r = None"
  shows "handle_request c env fallback clock r s =
    (Inr (error_response [] (if accepting_requests s then RequestTooLargeError_default
                             else ServiceDrainingError_default)), s)"
  using assms by (auto simp: handle_request_def middleware_def early_defs)

theorem refused_at_the_door_witness:
  "handle_request documented_config (json_env good_payload) (\<lambda>_. health_live) (\<lambda>_. 0) plain_request (open_gateway False)
     = (Inr (error_response [] ServiceDrainingError_default), open_gateway False)"
  using refused_at_the_door [of plain_request "open_gateway False" documented_config]
  by (simp add: plain_request_def open_gateway_def)

text \<open>
  The readiness probe says "ready" (200) exactly when the gateway accepts requests and some worker is
  healthy; after shutdown has begun it says 503.
\<close>

lemma readiness_exact:
  assumes "registry_wf s"
  shows "(hr_status (health_ready s) = 200 \<longleftrightarrow>
      accepting_requests s \<and> (\<exists>w n. node w s = Some n \<and> state n = HEALTHY))
    \<and> hr_status (health_ready (lifespan_shutdown s)) = 503"
  using is_any_worker_healthy_iff [OF assms]
  by (simp add: health_ready_def lifespan_shutdown_def stop_registry_def)

lemma open_gateway_wf: "registry_wf (open_gateway a)"
proof -
  have "node w (open_gateway a) = map_option (new_worker_node w) (map_of (configured_workers documented_config) w)" for w
    using node_init_sched [of w documented_config] by (simp add: node_def open_gateway_def init_sched_def)
  moreover have "map fst (workers (open_gateway a)) = map fst (configured_workers documented_config)"
    by (simp add: open_gateway_def init_workers_def comp_def split_def)
  ultimately show ?thesis
    by (auto simp: registry_wf_def node_ok_def new_worker_node_def)
      (simp_all add: open_gateway_def documented_config_def)
qed

theorem readiness_exact_witness: "hr_status (health_ready (lifespan_shutdown (open_gateway True))) = 503"
  using readiness_exact [OF open_gateway_wf] by blast

end
