(* ===== verification/Shared_Properties.thy ===== *)
theory Shared_Properties
  imports Config Logs Errors
begin

text \<open>
  The properties of what both services share: reading the settings, the structured log and the error
  classes.
\<close>

section \<open>Settings\<close>

text \<open>
  The static worker list is read back as it was written: parsing the comma-separated
  \<open>id=address\<close> text of any list of workers with distinct, trimmed, separator-free names gives that list,
  in its order. (An address may hold an equals sign, an id may not.)
\<close>

lemma worker_list_roundtrip:
  assumes "clean_workers ws" "ws \<noteq> []"
  shows "parse_workers (render_workers ws) = ws"
  by (rule parse_render_workers [OF assms])

theorem worker_list_roundtrip_witness:
  "parse_workers (render_workers [(str ''a'', str ''b=c''), (str ''d'', str ''e:1'')])
     = [(str ''a'', str ''b=c''), (str ''d'', str ''e:1'')]"
  by (rule worker_list_roundtrip) (simp_all add: clean_workers_def clean_text_def py_isspace_def str_def)

text \<open>
  An integer setting is read back as it was written, in decimal, with any white space around it, up
  to the 4300 digits Python's \<open>int\<close> accepts.
\<close>

lemma integer_setting_roundtrip:
  assumes "length (decimal n) \<le> 4300" "list_all py_isspace before" "list_all py_isspace after"
    "env name = Some (before @ decimal n @ after)"
  shows "getenv_int env name dflt = Some (int n)"
proof -
  have ne: "decimal n \<noteq> []" by simp
  have digit: "\<not> py_isspace (hd (decimal n))" "\<not> py_isspace (last (decimal n))"
    using ne decimal_not_space hd_in_set last_in_set by blast+
  have "py_strip (before @ decimal n @ after) = decimal n"
  proof -
    have "dropWhile py_isspace (before @ decimal n @ after) = decimal n @ after"
      using assms(2) digit(1) ne by (cases "decimal n") (auto simp: list_all_iff dropWhile_append)
    moreover have "dropWhile py_isspace (rev after @ rev (decimal n)) = rev (decimal n)"
      using assms(3) digit(2) ne
      by (cases "rev (decimal n)") (auto simp: list_all_iff dropWhile_append hd_rev [symmetric])
    ultimately show ?thesis by (simp add: py_strip_def)
  qed
  moreover have "py_strip (decimal n) = decimal n" using ne digit by (intro py_strip_trimmed)
  ultimately have "py_int (before @ decimal n @ after) = py_int (decimal n)" by (simp add: py_int_def)
  with py_int_decimal [OF assms(1)] assms(4) show ?thesis by (simp add: getenv_int_def getenv_def)
qed

theorem integer_setting_roundtrip_witness:
  "getenv_int (\<lambda>_. Some (str '' 42'' @ [10])) ''MIN_TIMEOUT_MS'' ''100'' = Some 42"
proof -
  have d: "decimal 42 = str ''42''" by (simp add: decimal.simps [of 42] decimal.simps [of 4] str_def)
  have "getenv_int (\<lambda>_. Some ([32] @ decimal 42 @ [10])) ''MIN_TIMEOUT_MS'' ''100'' = Some (int 42)"
    by (rule integer_setting_roundtrip [where before = "[32]" and after = "[10]"])
      (simp_all add: d py_isspace_def)
  then show ?thesis by (simp add: d) (simp add: str_def)
qed

text \<open>
  With no environment variable set, both services run with the documented settings, the four
  documented workers included.
\<close>

lemma documented_defaults:
  "load_gateway_config (\<lambda>_. None) = Some documented_config \<and>
   load_worker_config (\<lambda>_. None) = Some documented_worker_config"
  by (simp add: load_defaults load_worker_defaults)

text \<open>
  The worker ids of a configuration are distinct whatever the WORKERS text, which the registry's
  dictionary relies on.
\<close>

lemma configured_ids_distinct:
  assumes "load_gateway_config env = Some c"
  shows "distinct (map fst (configured_workers c))"
  using assms by (rule load_gateway_config_distinct)

theorem configured_ids_distinct_witness: "distinct (map fst (configured_workers documented_config))"
  using configured_ids_distinct [OF load_defaults] .

section \<open>The log\<close>

text \<open>
  A log record holds only allowed fields: every key is on the allow list, and every value is the
  timestamp, the level, the service, the event, or a value the caller passed under that allowed key that
  is not None. Arguments under other keys (a reason, a port, a text) are dropped.
\<close>

lemma log_redacts:
  assumes "map_of (build_record service timestamp level event kwargs) k = Some v"
  shows "k \<in> set ALLOWED_LOG_FIELDS \<and>
    ((k, v) \<in> set kwargs \<and> v \<noteq> VNone \<or>
     (k, v) \<in> {(''timestamp'', VStr timestamp), (''level'', VStr (str (ascii_upper level))),
                (''service'', VStr (str service)), (''event'', VStr (str event))})"
proof -
  have "k \<in> fst ` set (build_record service timestamp level event kwargs)"
    using assms by (force dest: map_of_SomeD)
  with build_record_keys have "k \<in> set ALLOWED_LOG_FIELDS" by blast
  moreover have "(k, v) \<in> set kwargs \<and> v \<noteq> VNone \<or>
     (k, v) \<in> {(''timestamp'', VStr timestamp), (''level'', VStr (str (ascii_upper level))),
                (''service'', VStr (str service)), (''event'', VStr (str event))}"
    using fold_add_field_values [OF assms [unfolded build_record_def]]
    by (rule disjE) (drule map_of_SomeD, simp, simp)
  ultimately show ?thesis ..
qed

theorem log_redacts_witness:
  "''reason'' \<notin> fst ` set (build_record ''registry'' [] ''warning'' ''worker_ejected'' [(''reason'', VStr [])])"
proof
  assume "''reason'' \<in> fst ` set (build_record ''registry'' [] ''warning'' ''worker_ejected'' [(''reason'', VStr [])])"
  then obtain v where "map_of (build_record ''registry'' [] ''warning'' ''worker_ejected'' [(''reason'', VStr [])])
    ''reason'' = Some v" by (metis map_of_eq_None_iff option.exhaust)
  from log_redacts [OF this] show False by (simp add: ALLOWED_LOG_FIELDS_def)
qed

fun get_loggers :: "string list \<Rightarrow> log_state \<Rightarrow> log_state" where
  "get_loggers [] s = s"
| "get_loggers (n # ns) s = get_loggers ns (get_logger n s)"

lemma get_loggers_configured:
  "configured (loggers s n) \<or> n \<in> set ns \<and> (\<forall>m. configured (loggers s m) \<or> pristine (loggers s m)) \<Longrightarrow>
     configured (loggers (get_loggers ns s) n)"
proof (induction ns arbitrary: s)
  case (Cons m ns)
  have "configured (loggers (get_logger m s) k)" if "configured (loggers s k)" for k
    using that get_logger_configures [of s k] get_logger_other [of k m s] by (cases "k = m") auto
  moreover have "configured (loggers (get_logger m s) k) \<or> pristine (loggers (get_logger m s) k)"
    if "\<forall>m. configured (loggers s m) \<or> pristine (loggers s m)" for k
    using that get_logger_configures [of s k] get_logger_other [of k m s] by (cases "k = m") auto
  moreover have "configured (loggers (get_logger m s) m)"
    if "\<forall>m. configured (loggers s m) \<or> pristine (loggers s m)"
    using that get_logger_configures by blast
  ultimately show ?case using Cons.IH [of "get_logger m s"] Cons.prems by auto
qed simp

text \<open>
  One line per call: after any number of \<open>get_logger\<close> calls for a service, from a fresh process, each
  logged event of the service adds exactly one line, at a level that is never filtered out.
\<close>

lemma one_line_per_call:
  assumes "service \<in> set names"
  shows "stream (log_line service timestamp level event kwargs (get_loggers names fresh_logging)) =
    stream (get_loggers names fresh_logging) @ [(emit_level level, build_record service timestamp level event kwargs)]"
  by (rule log_line_configured, rule get_loggers_configured)
    (use assms in \<open>simp add: fresh_logging_def pristine_def\<close>)

theorem one_line_per_call_witness:
  "length (stream (log_line ''worker'' [] ''info'' ''worker_ready'' []
     (get_loggers [''worker'', ''registry'', ''worker''] fresh_logging))) = 1"
proof -
  have "stream (get_loggers [''worker'', ''registry'', ''worker''] fresh_logging) = []"
    by (simp add: get_logger_def fresh_logging_def Let_def)
  with one_line_per_call [of "''worker''" "[''worker'', ''registry'', ''worker'']"] show ?thesis
    by (simp del: get_loggers.simps)
qed

text \<open>
  C39: A log line is one line, and says what was logged. Whatever a caller passes, the text of its line is
  printable ASCII, so it holds no line break with which one record could pass for two, and reading it as
  JSON gives back the record, field by field; only allowed fields are in it, and a field's value is one of
  the four fixed ones or was passed under that very name.
\<close>

theorem log_lines_faithful:
  assumes "loggable float_repr (VStr timestamp)" "\<forall>(k, v) \<in> set kwargs. loggable float_repr v"
    "r = build_record service timestamp level event kwargs"
  shows "printable (line_text float_repr r) \<and> loads (line_text float_repr r) = Some (record_json r)
    \<and> (\<forall>(k, v) \<in> set r. k \<in> set ALLOWED_LOG_FIELDS \<and>
          (v \<in> {VStr timestamp, VStr (str (ascii_upper level)), VStr (str service), VStr (str event)} \<or> (k, v) \<in> set kwargs))"
proof -
  have allowed: "fst ` set r \<subseteq> set ALLOWED_LOG_FIELDS" unfolding assms(3) by (rule build_record_keys)
  have passed: "v \<in> {VStr timestamp, VStr (str (ascii_upper level)), VStr (str service), VStr (str event)} \<or> (k, v) \<in> set kwargs"
    if "(k, v) \<in> set r" for k v using in_build_record that unfolding assms(3) by blast
  then have "\<forall>(k, v) \<in> set r. loggable float_repr v" using passed assms(1,2) by fastforce
  moreover have "distinct (map fst r)" unfolding assms(3) by (rule distinct_build_record)
  ultimately have "readable float_repr (record_json r)" "\<forall>x \<in> floats (record_json r). printable (float_repr x)"
    by (simp_all add: record_json_readable)
  with loads_dumps [of float_repr "record_json r" "[]"] printable_dumps [of "record_json r" float_repr] passed allowed
  show ?thesis by (fastforce simp: line_text_def)
qed

theorem log_lines_faithful_witness:
  "printable (line_text cents_repr (build_record ''worker'' [10] ''info'' ''e'' [(''worker_id'', VStr [34, 10]), (''duration_ms'', VFloat (3 / 2))]))"
proof -
  have "float_text cents_repr (3 / 2)" using float_text_cents [of 150] by simp
  then have "loggable cents_repr (VFloat (3 / 2))" by (simp add: loggable_def log_json_def printable_cents)
  moreover have "loggable cents_repr (VStr s)" if "unpaired s" for s using that by (simp add: loggable_def log_json_def)
  ultimately show ?thesis
    using log_lines_faithful [of cents_repr "[10]" "[(''worker_id'', VStr [34, 10]), (''duration_ms'', VFloat (3 / 2))]"]
    by (simp add: unpaired_Cons high_surrogate_def)
qed

section \<open>The errors\<close>

text \<open>
  The error body is faithful: two errors with the same body are the same error, and the code in the
  body determines the HTTP status, which is one of 400, 413, 429, 500, 503 and 504.
\<close>

lemma error_body_faithful:
  "(to_dict e = to_dict e' \<longleftrightarrow> e = e') \<and> err_status e = status_of_code (eb_code (to_dict e)) \<and>
   err_status e \<in> {400, 413, 429, 500, 503, 504}"
  using to_dict_inject [of e e'] err_status_of_code [of e] err_status_range [of e]
  by (simp only: to_dict_def error_body.select_convs)

end
