(* ===== verification/Files.thy ===== *)
theory Files
  imports Json
begin

text \<open>
  Text files as the scripts use them: the whole content is one text; reading translates the line ends
  (universal newlines) and iterating yields the lines with their newline. A file of JSON lines is
  written with one \<open>dumps\<close> per line and read with one \<open>loads\<close> per line that is not blank.
\<close>

text \<open>A carriage return, alone or in front of a newline, is read as a newline.\<close>

function universal_newlines :: "pystr \<Rightarrow> pystr" where
  "universal_newlines [] = []"
| "universal_newlines (c # s) =
     (if c = 13 then 10 # universal_newlines (if take 1 s = [10] then tl s else s)
      else c # universal_newlines s)"
  by pat_completeness auto
termination
  by (relation "measure length") auto

fun file_lines :: "pystr \<Rightarrow> pystr list" where
  "file_lines [] = []"
| "file_lines (c # s) =
     (if c = 10 then [10] # file_lines s
      else (case file_lines s of [] \<Rightarrow> [[c]] | l # ls \<Rightarrow> (c # l) # ls))"

definition text_lines :: "pystr \<Rightarrow> pystr list" where
  "text_lines content = file_lines (universal_newlines content)"

definition write_jsonl :: "(pyfloat \<Rightarrow> pystr) \<Rightarrow> json list \<Rightarrow> pystr" where
  "write_jsonl float_repr items = concat (map (\<lambda>item. dumps float_repr item @ [10]) items)"

text \<open>\<open>None\<close> where \<open>json.loads\<close> raises.\<close>

definition read_jsonl :: "pystr \<Rightarrow> json list option" where
  "read_jsonl content = those (map loads (filter (\<lambda>line. py_strip line \<noteq> []) (text_lines content)))"

section \<open>Lines read back\<close>

lemma concat_file_lines: "concat (file_lines s) = s"
  by (induction s) (auto split: list.splits)

lemma file_lines_line: "10 \<notin> set l \<Longrightarrow> file_lines (l @ 10 # s) = (l @ [10]) # file_lines s"
  by (induction l) auto

lemma file_lines_concat:
  "\<forall>l \<in> set ls. 10 \<notin> set l \<Longrightarrow> file_lines (concat (map (\<lambda>l. l @ [10]) ls)) = map (\<lambda>l. l @ [10]) ls"
  by (induction ls) (auto simp: file_lines_line)

lemma universal_newlines_id: "13 \<notin> set s \<Longrightarrow> universal_newlines s = s"
  by (induction s) auto

lemma py_strip_Nil: "py_strip s = [] \<longleftrightarrow> list_all py_isspace s"
proof -
  have "(\<forall>x \<in> set (dropWhile py_isspace s). py_isspace x) \<longleftrightarrow> (\<forall>x \<in> set s. py_isspace x)"
    by (induction s) auto
  then show ?thesis by (simp add: py_strip_def list_all_iff)
qed

lemma those_map_Some: "(\<And>x. x \<in> set xs \<Longrightarrow> f x = Some (g x)) \<Longrightarrow> those (map f xs) = Some (map g xs)"
  by (induction xs) auto

lemma dumps_not_blank:
  assumes "readable float_repr j" "\<forall>x \<in> floats j. printable (float_repr x)"
  shows "py_strip (dumps float_repr j @ [10]) \<noteq> []"
proof -
  obtain c t where c: "dumps float_repr j = c # t" using dumps_hd [OF assms(1)] by (cases "dumps float_repr j") auto
  moreover have "32 \<le> c" "c \<le> 126" using printable_dumps [OF assms(2)] c by simp_all
  moreover have "c \<noteq> 32" using dumps_hd [OF assms(1)] c by simp
  ultimately have "\<not> py_isspace c" by (auto simp: py_isspace_def)
  with c show ?thesis by (simp add: py_strip_Nil)
qed

lemma read_write_jsonl:
  assumes "\<forall>j \<in> set items. readable float_repr j \<and> (\<forall>x \<in> floats j. printable (float_repr x))"
  shows "read_jsonl (write_jsonl float_repr items) = Some items"
proof -
  let ?ls = "map (dumps float_repr) items"
  have plain: "c \<in> set (dumps float_repr j) \<Longrightarrow> 32 \<le> c" if "j \<in> set items" for c j
    using printable_dumps [of j float_repr] assms that by (auto simp: printable_def list_all_iff)
  then have no_control: "j \<in> set items \<Longrightarrow> 13 \<notin> set (dumps float_repr j) \<and> 10 \<notin> set (dumps float_repr j)" for j
    by force
  have w: "write_jsonl float_repr items = concat (map (\<lambda>l. l @ [10]) ?ls)"
    by (simp add: write_jsonl_def comp_def)
  have no_newlines: "13 \<notin> set (concat (map (\<lambda>l. l @ [10]) ?ls))" "\<forall>l \<in> set ?ls. 10 \<notin> set l"
    using no_control by auto
  have "text_lines (write_jsonl float_repr items) = map (\<lambda>l. l @ [10]) ?ls"
    unfolding text_lines_def w universal_newlines_id [OF no_newlines(1)]
    by (rule file_lines_concat [OF no_newlines(2)])
  moreover have "filter (\<lambda>line. py_strip line \<noteq> []) (map (\<lambda>l. l @ [10]) ?ls) = map (\<lambda>l. l @ [10]) ?ls"
    using assms dumps_not_blank by (auto intro!: filter_True)
  moreover have "those (map loads (map (\<lambda>j. dumps float_repr j @ [10]) items)) = Some (map (\<lambda>j. j) items)"
    unfolding map_map comp_def
    by (rule those_map_Some) (use assms in \<open>simp add: loads_dumps skip_ws_def\<close>)
  ultimately show ?thesis by (simp add: read_jsonl_def comp_def)
qed

section \<open>The directory of an output file\<close>

text \<open>
  \<open>os.path.dirname\<close>: up to the last slash, without the slashes that end it unless it has nothing else.
  \<open>os.makedirs\<close> of the empty name raises, whatever \<open>exist_ok\<close> says.
\<close>

definition dirname :: "pystr \<Rightarrow> pystr" where
  "dirname path =
     (let head = rev (dropWhile (\<lambda>c. c \<noteq> 47) (rev path))
      in if list_all (\<lambda>c. c = 47) head then head else rev (dropWhile (\<lambda>c. c = 47) (rev head)))"

end
