(* ===== verification/Corpus.thy ===== *)
theory Corpus
  imports Files
begin

text \<open>
  The benchmark's corpus: \<open>scripts/generate_corpus.py\<close>, which writes it, and \<open>load_corpus\<close> of
  \<open>scripts/benchmark.py\<close>, which reads it back. Python's random generator is two streams, indexed by the
  round of the loop: the value of \<open>random.random()\<close> and, for a list of a given length, the index
  \<open>random.choice\<close> takes.
\<close>

section \<open>\<open>generate_corpus\<close>\<close>

definition short_phrases :: "string list" where
  "short_phrases =
     [''This movie was fantastic and emotional.'',
      ''Terrible plot and boring acting throughout.'',
      ''Great direction and awesome soundtrack.'',
      ''I disliked the slow pacing immensely.'',
      ''An instant classic that everyone should see.'',
      ''Disappointing experience, would not recommend.'',
      ''Brilliant acting and stunning visuals.'',
      ''Complete waste of money and time.'',
      ''Loved every single minute of this.'',
      ''Horrible script and painful execution.'']"

definition medium_phrases :: "string list" where
  "medium_phrases =
     [''The cinematography was breathtaking, capturing every landscape with vibrant color and depth, while the soundtrack complemented the emotional weight of every key scene.'',
      ''Although the lead actor tried his best, the messy script and weak character development prevented the film from reaching its full potential, leaving viewers dissatisfied.'',
      ''A gripping psychological thriller that keeps you on the edge of your seat from the opening sequence to the final shocking twist at the end.'',
      ''Despite high expectations, the film suffered from poor editing choices, awkward dialogue transitions, and an abrupt conclusion that felt completely unearned.'']"

definition long_phrases :: "string list" where
  "long_phrases =
     [''From beginning to end, this sweeping cinematic masterpiece weaves together themes of resilience, friendship, and heartbreak. The director's meticulous attention to historical detail, combined with power-packed performances by the entire ensemble cast, elevates the storytelling to unprecedented heights. Every musical cue accentuates the tension, while the stunning visual effects create an immersive world that lingers in your mind long after the credits roll.'',
      ''A catastrophic failure on nearly every creative front, failing to deliver a coherent narrative despite a bloated budget and star-studded cast. The pacing drags endlessly through meaningless subplots, while key character motivations remain utterly unexplained throughout the runtime. Viewers hoping for compelling action or clever dialogue will find only uninspired cliches and flat set-pieces.'']"

definition random_choice :: "(nat \<Rightarrow> nat) \<Rightarrow> 'a list \<Rightarrow> 'a" where
  "random_choice choice xs = xs ! choice (length xs)"

text \<open>One round of the loop, \<open>i\<close> from 1 to 1000.\<close>

definition corpus_text :: "(nat \<Rightarrow> pyfloat) \<Rightarrow> (nat \<Rightarrow> nat \<Rightarrow> nat) \<Rightarrow> nat \<Rightarrow> pystr" where
  "corpus_text random choice i =
     str (if random i < 60 / 100 then random_choice (choice i) short_phrases
          else if random i < 90 / 100 then random_choice (choice i) medium_phrases
          else random_choice (choice i) long_phrases)"

definition corpus_record :: "(nat \<Rightarrow> pyfloat) \<Rightarrow> (nat \<Rightarrow> nat \<Rightarrow> nat) \<Rightarrow> nat \<Rightarrow> json" where
  "corpus_record random choice i =
     JObj [(str ''id'', JInt (int i)), (str ''text'', JStr (corpus_text random choice i))]"

definition generate_corpus :: "(pyfloat \<Rightarrow> pystr) \<Rightarrow> (nat \<Rightarrow> pyfloat) \<Rightarrow> (nat \<Rightarrow> nat \<Rightarrow> nat) \<Rightarrow> pystr" where
  "generate_corpus float_repr random choice =
     write_jsonl float_repr (map (corpus_record random choice) [1..<1001])"

section \<open>\<open>load_corpus\<close>\<close>

text \<open>\<open>data["text"]\<close>; \<open>None\<close> where it raises.\<close>

definition text_of :: "json \<Rightarrow> json option" where
  "text_of data = (case data of JObj d \<Rightarrow> map_of d (str ''text'') | _ \<Rightarrow> None)"

definition default_texts :: "json list" where
  "default_texts = [JStr (str ''Default benchmark sentence for classification.'')]"

text \<open>The file's content, if it exists; \<open>None\<close> where a line raises.\<close>

definition load_corpus :: "pystr option \<Rightarrow> json list option" where
  "load_corpus file =
     (case file of
        None \<Rightarrow> Some default_texts
      | Some content \<Rightarrow>
          (case Option.bind (read_jsonl content) (\<lambda>items. those (map text_of items)) of
             None \<Rightarrow> None
           | Some texts \<Rightarrow> Some (if texts = [] then default_texts else texts)))"

section \<open>The corpus\<close>

definition phrases :: "string list" where
  "phrases = short_phrases @ medium_phrases @ long_phrases"

lemma random_choice_in: "choice (length xs) < length xs \<Longrightarrow> random_choice choice xs \<in> set xs"
  by (simp add: random_choice_def)

lemma corpus_text_phrase:
  assumes "\<And>n. 0 < n \<Longrightarrow> choice i n < n"
  shows "corpus_text random choice i \<in> str ` set phrases"
proof -
  have "short_phrases \<noteq> []" "medium_phrases \<noteq> []" "long_phrases \<noteq> []"
    by (simp_all add: short_phrases_def medium_phrases_def long_phrases_def)
  with assms have "random_choice (choice i) xs \<in> set xs" if "xs \<in> {short_phrases, medium_phrases, long_phrases}" for xs
    using that by (intro random_choice_in) auto
  then show ?thesis by (simp add: corpus_text_def phrases_def)
qed

lemma phrases_printable: "p \<in> set phrases \<Longrightarrow> printable (str p) \<and> length (str p) < 2048 \<and> str p \<noteq> []"
proof -
  have "list_all (\<lambda>p. printable (str p) \<and> length (str p) < 2048 \<and> str p \<noteq> []) phrases"
    by code_simp
  then show "p \<in> set phrases \<Longrightarrow> ?thesis" by (simp add: list_all_iff)
qed

end
