(* ===== verification/Benchmark.thy ===== *)
theory Benchmark
  imports Corpus "HOL-Library.Multiset"
begin

text \<open>
  The closed-loop load generator, \<open>scripts/benchmark.py\<close>: \<open>concurrency\<close> tasks that run \<open>worker_loop\<close>
  over one shared counter and one list of results. A task is cut at its one suspension, the \<open>await\<close> of
  \<open>client.post\<close>; the lock around the counter is free whenever a task asks for it, because no task
  suspends while it holds it. The HTTP client and the clocks are the events' arguments.
\<close>

section \<open>What one request measures\<close>

record measured =
  m_status :: int
  m_error :: json
  m_worker :: json
  m_attempts :: json
  m_queue_ms :: json
  m_inference_ms :: json

text \<open>
  What \<open>client.post\<close> and \<open>resp.json()\<close> do: a status with the body, or the name of the exception's class.
\<close>

datatype post_outcome = Responded int "string + json" | PostRaised string

definition dict_get :: "(pystr, json) dict \<Rightarrow> string \<Rightarrow> json \<Rightarrow> json" where
  "dict_get d k dflt = (case map_of d (str k) of None \<Rightarrow> dflt | Some v \<Rightarrow> v)"

definition unmeasured :: measured where
  "unmeasured =
     \<lparr>m_status = 500, m_error = JNull, m_worker = JNull, m_attempts = JInt 1, m_queue_ms = JFloat 0,
      m_inference_ms = JFloat 0\<rparr>"

text \<open>The outer \<open>except\<close>: what was assigned before the exception stays.\<close>

definition failed :: "string \<Rightarrow> measured \<Rightarrow> measured" where
  "failed name m = m\<lparr>m_status := 0, m_error := JStr (str name)\<rparr>"

text \<open>The 200 branch; \<open>.get\<close> on what is no dictionary raises \<open>AttributeError\<close>.\<close>

definition read_success :: "string + json \<Rightarrow> measured \<Rightarrow> measured" where
  "read_success body m =
     (case body of
        Inl name \<Rightarrow> failed name m
      | Inr (JObj b) \<Rightarrow>
          (let m' = m\<lparr>m_worker := dict_get b ''worker_id'' JNull, m_attempts := dict_get b ''attempts'' (JInt 1)\<rparr>
           in case dict_get b ''timing_ms'' (JObj []) of
                JObj timing \<Rightarrow>
                  m'\<lparr>m_queue_ms := dict_get timing ''queue'' (JFloat 0),
                     m_inference_ms := dict_get timing ''inference'' (JFloat 0)\<rparr>
              | _ \<Rightarrow> failed ''AttributeError'' m')
      | Inr _ \<Rightarrow> failed ''AttributeError'' m)"

text \<open>The other statuses: the code in the body, or \<open>HTTP_\<close> and the status where reading it raises.\<close>

definition error_code :: "int \<Rightarrow> string + json \<Rightarrow> json" where
  "error_code status body =
     (let unreadable = JStr (str ''HTTP_'' @ int_repr status) in
      case body of
        Inl name \<Rightarrow> unreadable
      | Inr (JObj b) \<Rightarrow>
          (case dict_get b ''error'' (JObj []) of JObj e \<Rightarrow> dict_get e ''code'' JNull | _ \<Rightarrow> unreadable)
      | Inr _ \<Rightarrow> unreadable)"

definition measure_outcome :: "post_outcome \<Rightarrow> measured" where
  "measure_outcome out =
     (case out of
        PostRaised name \<Rightarrow> failed name unmeasured
      | Responded status body \<Rightarrow>
          (if status = 200 then read_success body (unmeasured\<lparr>m_status := status\<rparr>)
           else unmeasured\<lparr>m_status := status, m_error := error_code status body\<rparr>))"

section \<open>The tasks\<close>

record trial_record =
  tr_trial_id :: pystr
  tr_request_index :: nat
  tr_started_ns :: int
  tr_duration_ms :: pyfloat
  tr_measured :: measured

text \<open>A task, with its \<open>idx\<close>; while it waits also its \<open>req_idx\<close>, \<open>t0_ns\<close> and \<open>t0\<close>.\<close>

datatype loop_task = Ready | Posting nat nat int pyfloat | Finished

record trial =
  global_counter :: nat
  results :: "trial_record list"
  posted :: "json list"
  loop_tasks :: "loop_task list"

record plan =
  pl_trial_id :: pystr
  pl_texts :: "json list"
  pl_concurrency :: nat
  pl_end_time :: pyfloat

definition request_payload :: "pystr \<Rightarrow> nat \<Rightarrow> json \<Rightarrow> json" where
  "request_payload trial_id req_idx text =
     JObj [(str ''request_id'', JStr (str ''bm-'' @ trial_id @ str ''-'' @ decimal req_idx)),
           (str ''inputs'', JArr [text]), (str ''model_version'', JStr (str ''tinybert-sst2-v1'')),
           (str ''timeout_ms'', JInt 5000)]"

definition start_trial :: "plan \<Rightarrow> trial" where
  "start_trial p = \<lparr>global_counter = 0, results = [], posted = [], loop_tasks = replicate (pl_concurrency p) Ready\<rparr>"

text \<open>From the head of the loop to the \<open>await\<close>, or out of the loop.\<close>

definition loop_head :: "plan \<Rightarrow> nat \<Rightarrow> nat \<Rightarrow> pyfloat \<Rightarrow> int \<Rightarrow> pyfloat \<Rightarrow> trial \<Rightarrow> trial" where
  "loop_head p k idx now t0_ns t0 s =
     (if now < pl_end_time p
      then (let text = pl_texts p ! (idx mod length (pl_texts p));
                req_idx = global_counter s
            in s\<lparr>global_counter := Suc req_idx,
                 posted := posted s @ [request_payload (pl_trial_id p) req_idx text],
                 loop_tasks := (loop_tasks s)[k := Posting (Suc idx) req_idx t0_ns t0]\<rparr>)
      else s\<lparr>loop_tasks := (loop_tasks s)[k := Finished]\<rparr>)"

text \<open>From the end of the \<open>await\<close> to the next head.\<close>

definition record_result :: "plan \<Rightarrow> nat \<Rightarrow> int \<Rightarrow> pyfloat \<Rightarrow> post_outcome \<Rightarrow> pyfloat \<Rightarrow> trial \<Rightarrow> trial" where
  "record_result p req_idx t0_ns t0 out t1 s =
     s\<lparr>results := results s @
         [\<lparr>tr_trial_id = pl_trial_id p, tr_request_index = req_idx, tr_started_ns = t0_ns,
           tr_duration_ms = py_round2 ((t1 - t0) * 1000), tr_measured = measure_outcome out\<rparr>]\<rparr>"

datatype trial_event =
    TaskStarts nat pyfloat int pyfloat
  | PostEnds nat post_outcome pyfloat pyfloat int pyfloat

fun trial_step :: "plan \<Rightarrow> trial \<Rightarrow> trial_event \<Rightarrow> trial option" where
  "trial_step p s (TaskStarts k now t0_ns t0) =
     (if k < length (loop_tasks s) \<and> loop_tasks s ! k = Ready
      then Some (loop_head p k 0 now t0_ns t0 s) else None)"
| "trial_step p s (PostEnds k out t1 now t0_ns' t0') =
     (if k < length (loop_tasks s)
      then (case loop_tasks s ! k of
              Posting idx req_idx t0_ns t0 \<Rightarrow>
                Some (loop_head p k idx now t0_ns' t0' (record_result p req_idx t0_ns t0 out t1 s))
            | _ \<Rightarrow> None)
      else None)"

text \<open>\<open>asyncio.gather\<close> returns when every task has left its loop.\<close>

definition trial_over :: "trial \<Rightarrow> bool" where
  "trial_over s \<longleftrightarrow> list_all (\<lambda>t. t = Finished) (loop_tasks s)"

section \<open>\<open>run_benchmark\<close>\<close>

text \<open>
  The plans of the two phases: the warm-up, left out for 0 or fewer seconds, and the trial; \<open>now\<close> is the
  time its tasks are created.
\<close>

record bench_args =
  ba_concurrency :: nat
  ba_warmup :: int
  ba_duration :: int
  ba_trial_id :: pystr
  ba_output :: pystr

definition target_url :: "pystr \<Rightarrow> pystr" where
  "target_url url = rev (dropWhile (\<lambda>c. c = 47) (rev url)) @ str ''/v1/predict''"

definition warmup_plan :: "bench_args \<Rightarrow> json list \<Rightarrow> pyfloat \<Rightarrow> plan option" where
  "warmup_plan a texts now =
     (if 0 < ba_warmup a
      then Some \<lparr>pl_trial_id = str ''warmup'', pl_texts = texts, pl_concurrency = ba_concurrency a,
                 pl_end_time = now + of_int (ba_warmup a)\<rparr>
      else None)"

definition trial_plan :: "bench_args \<Rightarrow> json list \<Rightarrow> pyfloat \<Rightarrow> plan" where
  "trial_plan a texts now =
     \<lparr>pl_trial_id = ba_trial_id a, pl_texts = texts, pl_concurrency = ba_concurrency a,
      pl_end_time = now + of_int (ba_duration a)\<rparr>"

definition trial_json :: "trial_record \<Rightarrow> json" where
  "trial_json r =
     JObj [(str ''trial_id'', JStr (tr_trial_id r)), (str ''request_index'', JInt (int (tr_request_index r))),
           (str ''started_ns'', JInt (tr_started_ns r)), (str ''duration_ms'', JFloat (tr_duration_ms r)),
           (str ''http_status'', JInt (m_status (tr_measured r))), (str ''error_code'', m_error (tr_measured r)),
           (str ''worker_id'', m_worker (tr_measured r)), (str ''attempts'', m_attempts (tr_measured r)),
           (str ''input_count'', JInt 1), (str ''queue_ms'', m_queue_ms (tr_measured r)),
           (str ''inference_ms'', m_inference_ms (tr_measured r))]"

text \<open>The file written at the end, \<open>None\<close> where creating its directory raises.\<close>

definition save_results :: "(pyfloat \<Rightarrow> pystr) \<Rightarrow> pystr \<Rightarrow> trial \<Rightarrow> (pystr \<times> pystr) option" where
  "save_results float_repr output s =
     (if dirname output = [] then None
      else Some (output, write_jsonl float_repr (map trial_json (results s))))"

section \<open>Accounting\<close>

text \<open>The request a waiting task has in flight.\<close>

fun in_flight_index :: "loop_task \<Rightarrow> nat list" where
  "in_flight_index (Posting idx req_idx t0_ns t0) = [req_idx]"
| "in_flight_index _ = []"

definition in_flight_indices :: "trial \<Rightarrow> nat list" where
  "in_flight_indices s = concat (map in_flight_index (loop_tasks s))"

definition posts_ok :: "plan \<Rightarrow> trial \<Rightarrow> bool" where
  "posts_ok p s \<longleftrightarrow> length (posted s) = global_counter s \<and>
     (\<forall>i < global_counter s. \<exists>text \<in> set (pl_texts p). posted s ! i = request_payload (pl_trial_id p) i text)"

definition accounted :: "plan \<Rightarrow> trial \<Rightarrow> bool" where
  "accounted p s \<longleftrightarrow>
     mset (map tr_request_index (results s)) + mset (in_flight_indices s) = mset [0..<global_counter s] \<and>
     length (loop_tasks s) = pl_concurrency p \<and> posts_ok p s"

lemma mset_concat_update:
  "k < length xs \<Longrightarrow>
     mset (concat (map f (xs[k := x]))) + mset (f (xs ! k)) = mset (concat (map f xs)) + mset (f x)"
proof (induction xs arbitrary: k)
  case (Cons y xs)
  then show ?case by (cases k) (simp_all add: ac_simps)
qed simp

lemma multiset_swap:
  fixes A :: "'a multiset"
  assumes "A + F = C + f" "F' + f = F + g"
  shows "A + F' = C + g"
proof -
  have "(A + F') + f = A + (F' + f)" by (simp add: add.assoc)
  also have "\<dots> = (A + F) + g" by (simp add: assms(2) add.assoc)
  also have "\<dots> = (C + g) + f" by (simp add: assms(1) ac_simps)
  finally show ?thesis by simp
qed

lemma posts_ok_head:
  assumes "posts_ok p s" "pl_texts p \<noteq> []"
  shows "posts_ok p (loop_head p k idx now t0_ns t0 s)"
proof -
  have "pl_texts p ! (idx mod length (pl_texts p)) \<in> set (pl_texts p)"
    using assms(2) by (intro nth_mem) simp
  with assms(1) show ?thesis
    by (auto simp: posts_ok_def loop_head_def Let_def nth_append less_Suc_eq)
qed

lemma accounted_head:
  assumes "mset (map tr_request_index (results s)) + mset (in_flight_indices s) =
      mset [0..<global_counter s] + mset (in_flight_index (loop_tasks s ! k))"
    "k < length (loop_tasks s)" "length (loop_tasks s) = pl_concurrency p" "posts_ok p s" "pl_texts p \<noteq> []"
  shows "accounted p (loop_head p k idx now t0_ns t0 s)"
proof -
  have c: "mset (in_flight_indices (s\<lparr>loop_tasks := (loop_tasks s)[k := t]\<rparr>)) + mset (in_flight_index (loop_tasks s ! k))
      = mset (in_flight_indices s) + mset (in_flight_index t)" for t
    using mset_concat_update [OF assms(2), of in_flight_index t] by (simp add: in_flight_indices_def)
  then have "mset (map tr_request_index (results s)) + mset (in_flight_indices (s\<lparr>loop_tasks := (loop_tasks s)[k := t]\<rparr>)) =
      mset [0..<global_counter s] + mset (in_flight_index t)" for t
    using assms(1) by (blast intro: multiset_swap)
  with posts_ok_head [OF assms(4,5), of k idx now t0_ns t0] assms(3) show ?thesis
    by (simp add: accounted_def loop_head_def Let_def in_flight_indices_def del: mset_upt)
qed

lemma accounted_start: "accounted p (start_trial p)"
  by (simp add: accounted_def start_trial_def in_flight_indices_def posts_ok_def)

lemma accounted_step:
  assumes "pl_texts p \<noteq> []" "accounted p s" "trial_step p s e = Some t"
  shows "accounted p t"
proof (cases e)
  case (TaskStarts k now t0_ns t0)
  with assms(3) have k: "k < length (loop_tasks s)" "loop_tasks s ! k = Ready" and t: "t = loop_head p k 0 now t0_ns t0 s"
    by (auto split: if_splits)
  show ?thesis unfolding t
    by (rule accounted_head) (use assms(1,2) k in \<open>simp_all add: accounted_def\<close>)
next
  case (PostEnds k out t1 now t0_ns' t0')
  with assms(3) obtain idx req_idx t0_ns t0 where k: "k < length (loop_tasks s)"
    "loop_tasks s ! k = Posting idx req_idx t0_ns t0"
    and t: "t = loop_head p k idx now t0_ns' t0' (record_result p req_idx t0_ns t0 out t1 s)"
    by (auto split: if_splits loop_task.splits)
  show ?thesis unfolding t
    by (rule accounted_head)
      (use assms(1,2) k in \<open>auto simp: accounted_def record_result_def in_flight_indices_def posts_ok_def\<close>)
qed

end
