(* ===== verification/Csv.thy ===== *)
theory Csv
  imports Files
begin

text \<open>
  Python's \<open>csv\<close> module with its default dialect, as the resource sampler writes with it and the summary
  reads with it: \<open>csv.writer\<close>'s rows, the reader's automaton on a text whose line ends have been
  translated, and \<open>csv.DictReader\<close>.
\<close>

section \<open>Writing\<close>

definition needs_quotes :: "pystr \<Rightarrow> bool" where
  "needs_quotes field \<longleftrightarrow> list_ex (\<lambda>c. c \<in> {44, 34, 10, 13}) field"

definition csv_field :: "pystr \<Rightarrow> pystr" where
  "csv_field field =
     (if needs_quotes field then 34 # concat (map (\<lambda>c. if c = 34 then [34, 34] else [c]) field) @ [34] else field)"

fun join_fields :: "pystr list \<Rightarrow> pystr" where
  "join_fields [] = []"
| "join_fields [x] = x"
| "join_fields (x # y # xs) = x @ 44 # join_fields (y # xs)"

text \<open>A row ends in a carriage return and a newline; a row of one empty field is written in quotes.\<close>

definition csv_row :: "pystr list \<Rightarrow> pystr" where
  "csv_row row = (if row = [[]] then [34, 34] else join_fields (map csv_field row)) @ [13, 10]"

section \<open>Reading\<close>

datatype csv_state = StartRecord | StartField | InField | InQuotedField | QuoteInQuotedField

text \<open>The automaton with the field and the row it is collecting; the rows it completes.\<close>

fun csv_scan :: "csv_state \<Rightarrow> pystr \<Rightarrow> pystr list \<Rightarrow> pystr \<Rightarrow> pystr list list" where
  "csv_scan st field row [] = (if st = StartRecord then [] else [row @ [field]])"
| "csv_scan st field row (c # s) =
     (case st of
        StartRecord \<Rightarrow>
          if c = 10 then [] # csv_scan StartRecord [] [] s
          else if c = 34 then csv_scan InQuotedField [] [] s
          else if c = 44 then csv_scan StartField [] [[]] s
          else csv_scan InField [c] [] s
      | StartField \<Rightarrow>
          if c = 10 then (row @ [[]]) # csv_scan StartRecord [] [] s
          else if c = 34 then csv_scan InQuotedField [] row s
          else if c = 44 then csv_scan StartField [] (row @ [[]]) s
          else csv_scan InField [c] row s
      | InField \<Rightarrow>
          if c = 10 then (row @ [field]) # csv_scan StartRecord [] [] s
          else if c = 44 then csv_scan StartField [] (row @ [field]) s
          else csv_scan InField (field @ [c]) row s
      | InQuotedField \<Rightarrow>
          if c = 34 then csv_scan QuoteInQuotedField field row s
          else csv_scan InQuotedField (field @ [c]) row s
      | QuoteInQuotedField \<Rightarrow>
          if c = 34 then csv_scan InQuotedField (field @ [34]) row s
          else if c = 10 then (row @ [field]) # csv_scan StartRecord [] [] s
          else if c = 44 then csv_scan StartField [] (row @ [field]) s
          else csv_scan InField (field @ [c]) row s)"

definition csv_rows :: "pystr \<Rightarrow> pystr list list" where
  "csv_rows content = csv_scan StartRecord [] [] (universal_newlines content)"

text \<open>
  \<open>DictReader\<close>: the first row names the fields, empty rows are skipped, a field a row is too short for
  is \<open>None\<close>. (The surplus of a longer row goes under a key nobody asks for.)
\<close>

definition dict_row :: "pystr list \<Rightarrow> pystr list \<Rightarrow> (pystr, pystr option) dict" where
  "dict_row names row =
     fold (\<lambda>(k, v). AList.update k v)
       (zip names (map Some row @ replicate (length names - length row) None)) []"

definition dict_reader :: "pystr \<Rightarrow> (pystr, pystr option) dict list" where
  "dict_reader content =
     (case filter (\<lambda>row. row \<noteq> []) (csv_rows content) of
        [] \<Rightarrow> []
      | names # rows \<Rightarrow> map (dict_row names) rows)"

section \<open>Rows read back\<close>

text \<open>A whole field, from the start of one, up to the comma or newline behind it.\<close>

definition field_start :: "csv_state \<Rightarrow> pystr list \<Rightarrow> bool" where
  "field_start st row \<longleftrightarrow> st = StartField \<or> st = StartRecord \<and> row = []"

lemma scan_plain:
  "\<not> needs_quotes f \<Longrightarrow> csv_scan InField acc row (f @ s) = csv_scan InField (acc @ f) row s"
  by (induction f arbitrary: acc) (auto simp: needs_quotes_def)

lemma scan_quoted:
  "csv_scan InQuotedField acc row (concat (map (\<lambda>c. if c = 34 then [34, 34] else [c]) f) @ 34 # s) =
     csv_scan QuoteInQuotedField (acc @ f) row s"
  by (induction f arbitrary: acc) auto

lemma scan_field:
  assumes "field_start st row" "st = StartField \<or> f \<noteq> [] \<or> c = 44"
  shows "c = 44 \<Longrightarrow> csv_scan st [] row (csv_field f @ c # s) = csv_scan StartField [] (row @ [f]) s"
    "c = 10 \<Longrightarrow> csv_scan st [] row (csv_field f @ c # s) = (row @ [f]) # csv_scan StartRecord [] [] s"
proof -
  have "(c = 44 \<longrightarrow> csv_scan st [] row (csv_field f @ c # s) = csv_scan StartField [] (row @ [f]) s) \<and>
      (c = 10 \<longrightarrow> csv_scan st [] row (csv_field f @ c # s) = (row @ [f]) # csv_scan StartRecord [] [] s)"
  proof (cases "needs_quotes f")
    case True
    with assms(1) show ?thesis
      by (auto simp: field_start_def csv_field_def scan_quoted [where acc = "[]", simplified])
  next
    case False
    show ?thesis
    proof (cases f)
      case Nil
      with assms show ?thesis by (auto simp: field_start_def csv_field_def needs_quotes_def)
    next
      case (Cons d g)
      with False have "\<not> needs_quotes g" "d \<notin> {44, 34, 10, 13}" by (auto simp: needs_quotes_def)
      with Cons False assms(1) show ?thesis
        by (auto simp: field_start_def csv_field_def scan_plain)
    qed
  qed
  then show "c = 44 \<Longrightarrow> csv_scan st [] row (csv_field f @ c # s) = csv_scan StartField [] (row @ [f]) s"
    "c = 10 \<Longrightarrow> csv_scan st [] row (csv_field f @ c # s) = (row @ [f]) # csv_scan StartRecord [] [] s"
    by blast+
qed

lemma scan_fields:
  "fs \<noteq> [] \<Longrightarrow> field_start st row \<Longrightarrow> st = StartField \<or> fs \<noteq> [[]] \<Longrightarrow>
     csv_scan st [] row (join_fields (map csv_field fs) @ 10 # s) = (row @ fs) # csv_scan StartRecord [] [] s"
proof (induction fs arbitrary: st row rule: join_fields.induct)
  case (2 x)
  then show ?case by (auto simp: scan_field(2))
next
  case (3 x y xs)
  then have "csv_scan st [] row (csv_field x @ 44 # join_fields (map csv_field (y # xs)) @ 10 # s)
      = csv_scan StartField [] (row @ [x]) (join_fields (map csv_field (y # xs)) @ 10 # s)"
    by (intro scan_field(1)) auto
  with 3 show ?case by (simp add: field_start_def)
qed simp

definition row_line :: "pystr list \<Rightarrow> pystr" where
  "row_line row = (if row = [[]] then [34, 34] else join_fields (map csv_field row)) @ [10]"

lemma scan_row:
  "row \<noteq> [] \<Longrightarrow> csv_scan StartRecord [] [] (row_line row @ s) = row # csv_scan StartRecord [] [] s"
  using scan_fields [of row StartRecord "[]" s] by (auto simp: row_line_def field_start_def)

lemma scan_rows:
  "\<forall>row \<in> set rows. row \<noteq> [] \<Longrightarrow> csv_scan StartRecord [] [] (concat (map row_line rows)) = rows"
  by (induction rows) (auto simp: scan_row)

lemma universal_newlines_append: "13 \<notin> set s \<Longrightarrow> universal_newlines (s @ t) = s @ universal_newlines t"
  by (induction s) auto

lemma in_join_fields: "c \<in> set (join_fields xs) \<Longrightarrow> c = 44 \<or> (\<exists>x \<in> set xs. c \<in> set x)"
  by (induction xs rule: join_fields.induct) auto

lemma in_csv_field: "c \<in> set (csv_field f) \<Longrightarrow> c = 34 \<or> c \<in> set f"
  by (auto simp: csv_field_def split: if_splits)

lemma newline_row:
  assumes "\<forall>f \<in> set row. 13 \<notin> set f"
  shows "universal_newlines (csv_row row @ s) = row_line row @ universal_newlines s"
proof -
  let ?t = "if row = [[]] then [34, 34] else join_fields (map csv_field row)"
  have "13 \<notin> set ?t" using assms by (auto dest!: in_join_fields in_csv_field)
  then show ?thesis by (simp add: csv_row_def row_line_def universal_newlines_append)
qed

lemma csv_rows_written:
  assumes "\<forall>row \<in> set rows. row \<noteq> [] \<and> (\<forall>f \<in> set row. 13 \<notin> set f)"
  shows "csv_rows (concat (map csv_row rows)) = rows"
proof -
  have "universal_newlines (concat (map csv_row rows)) = concat (map row_line rows)"
    using assms by (induction rows) (simp_all add: newline_row)
  then show ?thesis using assms by (simp add: csv_rows_def scan_rows)
qed

lemma dict_row_distinct:
  assumes "distinct names" "length row = length names"
  shows "dict_row names row = zip names (map Some row)"
proof -
  have "fold (\<lambda>(k, v). AList.update k v) kvs d = d @ kvs" if "distinct (map fst (d @ kvs))" for kvs d :: "(pystr, pystr option) dict"
    using that by (induction kvs arbitrary: d) (auto simp: update_new)
  then show ?thesis using assms by (simp add: dict_row_def)
qed

end
