(* ===== verification/Resources.thy ===== *)
theory Resources
  imports Csv
begin

text \<open>
  The resource sampler, \<open>scripts/sample_resources.py\<close>: the reading of \<open>docker stats\<close>' sizes, of one
  line and of one sample, and the CSV file it writes. What \<open>docker stats\<close> prints, and the clock, are
  arguments; the upper-casing and the digits are ASCII's, and \<open>float\<close> reads no \<open>inf\<close> and no \<open>nan\<close>.
\<close>

section \<open>\<open>float\<close> on strings\<close>

text \<open>An underscore may stand between two digits.\<close>

fun underscores_ok :: "bool \<Rightarrow> pystr \<Rightarrow> bool" where
  "underscores_ok after_digit [] \<longleftrightarrow> True"
| "underscores_ok after_digit (c # s) \<longleftrightarrow>
     (if c = 95 then after_digit \<and> s \<noteq> [] \<and> is_digit (hd s) \<and> underscores_ok False s
      else underscores_ok (is_digit c) s)"

definition unsigned_float :: "bool \<Rightarrow> pystr \<Rightarrow> pyfloat option" where
  "unsigned_float neg s =
     (let ip = takeWhile is_digit s;
          r = dropWhile is_digit s;
          (fs, q) = (if take 1 r = [46] then (takeWhile is_digit (tl r), dropWhile is_digit (tl r)) else ([], r));
          (e, rest) = scan_exponent q
      in if ip = [] \<and> fs = [] \<or> rest \<noteq> [] then None
         else Some (float_value neg ip fs (case e of None \<Rightarrow> 0 | Some k \<Rightarrow> k)))"

definition py_float :: "pystr \<Rightarrow> pyfloat option" where
  "py_float s =
     (let t = py_strip s; u = filter (\<lambda>c. c \<noteq> 95) t in
      if \<not> underscores_ok False t then None
      else case u of
          [] \<Rightarrow> None
        | c # r \<Rightarrow> if c = 45 then unsigned_float True r
                   else if c = 43 then unsigned_float False r
                   else unsigned_float False u)"

text \<open>\<open>int\<close> of a float cuts towards zero.\<close>

definition py_trunc :: "pyfloat \<Rightarrow> int" where
  "py_trunc x = (if x < 0 then \<lceil>x\<rceil> else \<lfloor>x\<rfloor>)"

section \<open>\<open>parse_bytes\<close>\<close>

definition py_upper :: "pystr \<Rightarrow> pystr" where
  "py_upper s = map (\<lambda>c. if 97 \<le> c \<and> c \<le> 122 then c - 32 else c) s"

text \<open>\<open>s.replace(needle, "")\<close>, for a needle that is not empty.\<close>

function py_remove :: "pystr \<Rightarrow> pystr \<Rightarrow> pystr" where
  "py_remove needle [] = []"
| "py_remove needle (c # s) =
     (if needle \<noteq> [] \<and> prefix needle (c # s) then py_remove needle (drop (length needle) (c # s))
      else c # py_remove needle s)"
  by pat_completeness auto
termination
  by (relation "measure (\<lambda>(needle, s). length s)") auto

definition multipliers :: "(string \<times> int) list" where
  "multipliers =
     [(''KIB'', 1024), (''MIB'', 1024 ^ 2), (''GIB'', 1024 ^ 3), (''KB'', 1000), (''MB'', 1000 ^ 2),
      (''GB'', 1000 ^ 3), (''B'', 1)]"

text \<open>The loop over the units, and what follows it. \<open>None\<close> is the \<open>ValueError\<close> of the loop's \<open>float\<close>.\<close>

fun parse_units :: "(string \<times> int) list \<Rightarrow> pystr \<Rightarrow> int option" where
  "parse_units [] val_str = Some (case py_float val_str of None \<Rightarrow> 0 | Some x \<Rightarrow> py_trunc x)"
| "parse_units ((unit, mult) # units) val_str =
     (if suffix (str unit) val_str
      then map_option (\<lambda>num. py_trunc (num * of_int mult)) (py_float (py_strip (py_remove (str unit) val_str)))
      else parse_units units val_str)"

definition parse_bytes :: "pystr \<Rightarrow> int option" where
  "parse_bytes val_str = parse_units multipliers (py_upper (py_strip val_str))"

section \<open>One sample\<close>

definition line_break :: "codepoint \<Rightarrow> bool" where
  "line_break c \<longleftrightarrow> c \<in> {10, 11, 12, 13, 28, 29, 30, 133, 8232, 8233}"

function py_splitlines :: "pystr \<Rightarrow> pystr list" where
  "py_splitlines [] = []"
| "py_splitlines (c # s) =
     (if line_break c then [] # py_splitlines (if c = 13 \<and> take 1 s = [10] then tl s else s)
      else (case py_splitlines s of [] \<Rightarrow> [[c]] | l # ls \<Rightarrow> (c # l) # ls))"
  by pat_completeness auto
termination
  by (relation "measure length") auto

text \<open>
  One line of \<open>docker stats\<close>: the row it gives if it has three parts, \<open>None\<close> where reading a number
  raises.
\<close>

definition stats_row :: "(pyfloat \<Rightarrow> pystr) \<Rightarrow> pystr \<Rightarrow> pystr \<Rightarrow> pystr list list option" where
  "stats_row float_repr ts line =
     (case split_on 44 line of
        a # b # c # _ \<Rightarrow>
          (let name = py_strip a; cpu_str = py_strip (py_remove [37] b); mem_usage_str = py_strip c;
               sizes = (if 47 \<in> set mem_usage_str then split_once 47 mem_usage_str else (mem_usage_str, []))
           in case (if cpu_str = [] then Some 0 else py_float cpu_str, parse_bytes (fst sizes),
                    if 47 \<in> set mem_usage_str then parse_bytes (snd sizes) else Some 0) of
                (Some cpu_pct, Some mem_bytes, Some limit_bytes) \<Rightarrow>
                  Some [[ts, name, float_repr cpu_pct, int_repr mem_bytes, int_repr limit_bytes]]
              | _ \<Rightarrow> None)
      | _ \<Rightarrow> Some [])"

text \<open>An exception ends the sample; the rows written before it stay.\<close>

fun sample_lines :: "(pyfloat \<Rightarrow> pystr) \<Rightarrow> pystr \<Rightarrow> pystr list \<Rightarrow> pystr list list" where
  "sample_lines float_repr ts [] = []"
| "sample_lines float_repr ts (line # lines) =
     (if line = [] then sample_lines float_repr ts lines
      else (case stats_row float_repr ts line of
              None \<Rightarrow> []
            | Some rows \<Rightarrow> rows @ sample_lines float_repr ts lines))"

section \<open>The file\<close>

text \<open>One round of the loop: the time, the timestamp, and what \<open>docker stats\<close> prints, if it succeeds.\<close>

record sample_round =
  sa_now :: pyfloat
  sa_timestamp :: pystr
  sa_output :: "pystr option"

definition sample_rows :: "(pyfloat \<Rightarrow> pystr) \<Rightarrow> sample_round \<Rightarrow> pystr list list" where
  "sample_rows float_repr r =
     (case sa_output r of
        None \<Rightarrow> []
      | Some out \<Rightarrow> sample_lines float_repr (sa_timestamp r) (py_splitlines (py_strip out)))"

definition header_row :: "pystr list" where
  "header_row = map str [''timestamp'', ''container'', ''cpu_percent'', ''memory_bytes'', ''memory_limit_bytes'']"

definition sampled :: "(pyfloat \<Rightarrow> pystr) \<Rightarrow> pyfloat \<Rightarrow> int \<Rightarrow> sample_round list \<Rightarrow> pystr list list" where
  "sampled float_repr start_time duration rounds =
     concat (map (sample_rows float_repr) (takeWhile (\<lambda>r. sa_now r - start_time < of_int duration) rounds))"

definition sample_file :: "(pyfloat \<Rightarrow> pystr) \<Rightarrow> pyfloat \<Rightarrow> int \<Rightarrow> sample_round list \<Rightarrow> pystr" where
  "sample_file float_repr start_time duration rounds =
     concat (map csv_row (header_row # sampled float_repr start_time duration rounds))"

text \<open>The script's one file, \<open>None\<close> where creating its directory raises.\<close>

definition sample_resources ::
  "(pyfloat \<Rightarrow> pystr) \<Rightarrow> pystr \<Rightarrow> pyfloat \<Rightarrow> int \<Rightarrow> sample_round list \<Rightarrow> (pystr \<times> pystr) option" where
  "sample_resources float_repr output start_time duration rounds =
     (if dirname output = [] then None else Some (output, sample_file float_repr start_time duration rounds))"

section \<open>Sizes\<close>

lemma py_remove_end:
  assumes "u \<noteq> []" "hd u \<notin> set t"
  shows "py_remove u (t @ u) = t"
proof (use assms in \<open>induction t\<close>)
  case Nil
  have "py_remove u (c # s) = py_remove u (drop (length u) (c # s))" if "u = c # s" for c s
    using that by simp
  then have "py_remove u u = []" using assms(1) by (cases u) auto
  then show ?case by simp
next
  case (Cons c t)
  then have "\<not> prefix u (c # t @ u)" by (cases u) auto
  with Cons show ?case by simp
qed

definition number_text :: "pystr \<Rightarrow> bool" where
  "number_text t \<longleftrightarrow> t \<noteq> [] \<and> list_all (\<lambda>c. is_digit c \<or> c = 46) t"

text \<open>The text of a number is upper case, has no white space and no unit's letters.\<close>

lemma number_text_facts:
  assumes "number_text t" "u \<in> fst ` set multipliers"
  shows "py_upper (t @ str u) = t @ str u" "py_strip (t @ str u) = t @ str u" "py_strip t = t"
    "py_remove (str u) (t @ str u) = t"
proof -
  have t: "t \<noteq> []" "\<And>c. c \<in> set t \<Longrightarrow> 46 \<le> c \<and> c \<le> 57"
    using assms(1) by (auto simp: number_text_def list_all_iff is_digit_def)
  have u: "str u \<noteq> []" "\<And>c. c \<in> set (str u) \<Longrightarrow> 65 \<le> c \<and> c \<le> 90"
    using assms(2) by (auto simp: multipliers_def str_def)
  have space: "\<not> py_isspace c" if "c \<in> set (t @ str u)" for c
    using that t(2) [of c] u(2) [of c] by (auto simp: py_isspace_def)
  show "py_upper (t @ str u) = t @ str u"
    using t(2) u(2) by (auto simp: py_upper_def intro!: map_idI) force+
  show "py_strip (t @ str u) = t @ str u"
    using t(1) by (intro py_strip_trimmed space hd_in_set last_in_set) simp_all
  show "py_strip t = t"
    using t(1) space by (intro py_strip_trimmed) simp_all
  have "hd (str u) \<notin> set t" using t(2) [of "hd (str u)"] u(2) [OF hd_in_set [OF u(1)]] by auto
  with u(1) show "py_remove (str u) (t @ str u) = t" by (rule py_remove_end)
qed

lemma suffix_str: "suffix (str v) (str u) \<longleftrightarrow> suffix v u"
proof
  assume "suffix (str v) (str u)"
  then obtain zs where "str u = zs @ str v" by (auto simp: suffix_def)
  then obtain u1 u2 where "u = u1 @ u2" "str u2 = str v" by (auto simp: str_def map_eq_append_conv)
  then show "suffix v u" by (auto simp: suffix_def)
qed (auto simp: suffix_def str_def)

lemma suffix_unit:
  assumes "number_text t" "v \<in> fst ` set multipliers"
  shows "suffix (str v) (t @ str u) \<longleftrightarrow> suffix v u"
proof
  assume "suffix (str v) (t @ str u)"
  then consider us where "us @ str u = str v" "suffix us t" | "suffix (str v) (str u)"
    by (auto simp: suffix_def append_eq_append_conv2)
  then show "suffix v u"
  proof cases
    case (1 us)
    have "hd (str v) \<notin> set t"
      using assms by (auto simp: number_text_def list_all_iff is_digit_def multipliers_def str_def)
    moreover have "us \<noteq> [] \<Longrightarrow> hd (str v) \<in> set t"
      using 1 by (metis hd_append2 hd_in_set set_mono_suffix subsetD)
    ultimately have "us = []" by blast
    with 1 show ?thesis by simp
  qed (simp add: suffix_str)
next
  assume "suffix v u"
  then show "suffix (str v) (t @ str u)" by (intro suffix_appendI) (simp add: suffix_str)
qed

lemma parse_units_find:
  assumes "number_text t" "set units \<subseteq> set multipliers" "find (\<lambda>(v, m). suffix v u) units = Some (v, m)"
  shows "parse_units units (t @ str u) =
    map_option (\<lambda>num. py_trunc (num * of_int m)) (py_float (py_strip (py_remove (str v) (t @ str u))))"
  using assms(2,3)
proof (induction units)
  case (Cons un units)
  then have "fst un \<in> fst ` set multipliers" by auto
  with Cons show ?case using suffix_unit [OF assms(1), of "fst un" u] by (cases un) (auto split: if_splits)
qed simp

lemma unit_found: "(u, m) \<in> set multipliers \<Longrightarrow> find (\<lambda>(v, m). suffix v u) multipliers = Some (u, m)"
proof -
  have "list_all (\<lambda>um. find (\<lambda>(v, m). suffix v (fst um)) multipliers = Some um) multipliers" by code_simp
  then show "(u, m) \<in> set multipliers \<Longrightarrow> ?thesis" by (auto simp: list_all_iff)
qed

lemma parse_bytes_unit:
  assumes "number_text t" "py_float t = Some x" "(u, m) \<in> set multipliers"
  shows "parse_bytes (t @ str u) = Some (py_trunc (x * of_int m))"
proof -
  have u: "u \<in> fst ` set multipliers" using assms(3) by force
  note facts = number_text_facts [OF assms(1) u]
  show ?thesis
    using parse_units_find [OF assms(1) subset_refl unit_found [OF assms(3)]] assms(2)
    by (simp add: parse_bytes_def facts)
qed

end
