(* ===== verification/Summary.thy ===== *)
theory Summary
  imports Benchmark Resources "HOL-Library.Monad_Syntax"
begin

text \<open>
  The summary of a trial, \<open>scripts/summarize_results.py\<close>: percentiles, rates and counts over the records
  of the benchmark's file and over the sampler's CSV file, and the report. \<open>None\<close> stands for an exception
  (a missing key, a value of the wrong type). The status is a scalar, and a worker id that is true in
  Python is a text: other values would be printed, and counted under, forms that are not modelled.
\<close>

section \<open>\<open>percentile\<close>\<close>

definition percentile :: "pyfloat list \<Rightarrow> pyfloat \<Rightarrow> pyfloat" where
  "percentile data pct =
     (if data = [] then 0
      else let sorted_data = sort data;
               idx = \<lceil>pct * of_nat (length sorted_data)\<rceil> - 1;
               idx = max 0 (min idx (int (length sorted_data) - 1))
           in sorted_data ! nat idx)"

section \<open>Reading a record\<close>

definition json_field :: "string \<Rightarrow> json \<Rightarrow> json option" where
  "json_field k r = (case r of JObj d \<Rightarrow> map_of d (str k) | _ \<Rightarrow> None)"

text \<open>A number, as arithmetic and comparison take it; a \<open>bool\<close> is one.\<close>

definition json_num :: "json \<Rightarrow> pyfloat option" where
  "json_num j =
     (case j of JInt i \<Rightarrow> Some (of_int i) | JFloat x \<Rightarrow> Some x | JBool b \<Rightarrow> Some (of_bool b) | _ \<Rightarrow> None)"

definition num_field :: "string \<Rightarrow> json \<Rightarrow> pyfloat option" where
  "num_field k r = json_field k r \<bind> json_num"

text \<open>\<open>str(r["http_status"])\<close>\<close>

definition status_text :: "(pyfloat \<Rightarrow> pystr) \<Rightarrow> json \<Rightarrow> pystr option" where
  "status_text float_repr j =
     (case j of
        JNull \<Rightarrow> Some (str ''None'')
      | JBool b \<Rightarrow> Some (str (if b then ''True'' else ''False''))
      | JInt i \<Rightarrow> Some (int_repr i)
      | JFloat x \<Rightarrow> Some (float_repr x)
      | JStr s \<Rightarrow> Some s
      | _ \<Rightarrow> None)"

definition falsy :: "json \<Rightarrow> bool" where
  "falsy j \<longleftrightarrow> j \<in> {JNull, JBool False, JInt 0, JFloat 0, JStr [], JArr [], JObj []}"

text \<open>\<open>r.get("worker_id") or "unknown"\<close>, for a record that is a dictionary.\<close>

definition worker_of :: "json \<Rightarrow> pystr option" where
  "worker_of r =
     (case json_field ''worker_id'' r of
        None \<Rightarrow> Some (str ''unknown'')
      | Some j \<Rightarrow> if falsy j then Some (str ''unknown'') else (case j of JStr s \<Rightarrow> Some s | _ \<Rightarrow> None))"

definition attempts_of :: "json \<Rightarrow> pyfloat option" where
  "attempts_of r = (case json_field ''attempts'' r of None \<Rightarrow> Some 1 | Some j \<Rightarrow> json_num j)"

text \<open>\<open>counts[k] = counts.get(k, 0) + 1\<close>\<close>

definition count_key :: "pystr \<Rightarrow> (pystr, nat) dict \<Rightarrow> (pystr, nat) dict" where
  "count_key k d = AList.update k (Suc (case map_of d k of None \<Rightarrow> 0 | Some n \<Rightarrow> n)) d"

definition count_keys :: "pystr list \<Rightarrow> (pystr, nat) dict" where
  "count_keys ks = fold count_key ks []"

section \<open>The resource file\<close>

text \<open>\<open>float(row.get(k, 0))\<close>\<close>

definition float_field :: "string \<Rightarrow> (pystr, pystr option) dict \<Rightarrow> pyfloat option" where
  "float_field k row =
     (case map_of row (str k) of None \<Rightarrow> Some 0 | Some None \<Rightarrow> None | Some (Some s) \<Rightarrow> py_float s)"

text \<open>The average and the peak; the file's content, if one is named and it exists.\<close>

definition resource_summary :: "pystr option \<Rightarrow> (pyfloat \<times> pyfloat) option" where
  "resource_summary resource_csv =
     (case resource_csv of
        None \<Rightarrow> Some (0, 0)
      | Some content \<Rightarrow>
          do {
            cpus \<leftarrow> those (map (float_field ''cpu_percent'') (dict_reader content));
            mems \<leftarrow> those (map (float_field ''memory_bytes'') (dict_reader content));
            Some (if cpus = [] then 0 else sum_list cpus / of_nat (length cpus),
                  if mems = [] then 0 else Max (set mems) / (1024 * 1024))
          })"

section \<open>\<open>summarize_trial\<close>\<close>

record trial_summary =
  total_requests :: nat
  success_count :: nat
  duration_sec :: pyfloat
  attempted_throughput :: pyfloat
  successful_throughput :: pyfloat
  p50_latency_ms :: pyfloat
  p95_latency_ms :: pyfloat
  p99_latency_ms :: pyfloat
  status_counts :: "(pystr, nat) dict"
  worker_counts :: "(pystr, nat) dict"
  retries_count :: nat
  p50_queue_ms :: pyfloat
  p95_queue_ms :: pyfloat
  p50_inference_ms :: pyfloat
  p95_inference_ms :: pyfloat
  avg_cpu_percent :: pyfloat
  peak_mem_mb :: pyfloat

datatype summary = NoRecords | Summary trial_summary

definition summarize_records ::
  "(pyfloat \<Rightarrow> pystr) \<Rightarrow> json list \<Rightarrow> pystr option \<Rightarrow> trial_summary option" where
  "summarize_records float_repr records resource_csv =
     do {
       http_statuses \<leftarrow> those (map (json_field ''http_status'') records);
       let successful_records = map fst (filter (\<lambda>(r, j). json_num j = Some 200) (zip records http_statuses));
       starts \<leftarrow> those (map (num_field ''started_ns'') records);
       let total_sec = max (1 / 1000) ((Max (set starts) - Min (set starts)) / 10 ^ 9);
       latencies \<leftarrow> those (map (num_field ''duration_ms'') successful_records);
       status_texts \<leftarrow> those (map (status_text float_repr) http_statuses);
       worker_ids \<leftarrow> those (map worker_of successful_records);
       attempts \<leftarrow> those (map attempts_of records);
       queue_times \<leftarrow> those (map (num_field ''queue_ms'') successful_records);
       inference_times \<leftarrow> those (map (num_field ''inference_ms'') successful_records);
       (avg_cpu, peak_mem) \<leftarrow> resource_summary resource_csv;
       Some \<lparr>total_requests = length records, success_count = length successful_records,
             duration_sec = py_round2 total_sec,
             attempted_throughput = py_round2 (of_nat (length records) / total_sec),
             successful_throughput = py_round2 (of_nat (length successful_records) / total_sec),
             p50_latency_ms = py_round2 (percentile latencies (50 / 100)),
             p95_latency_ms = py_round2 (percentile latencies (95 / 100)),
             p99_latency_ms = py_round2 (percentile latencies (99 / 100)),
             status_counts = count_keys status_texts, worker_counts = count_keys worker_ids,
             retries_count = length (filter (\<lambda>n. 1 < n) attempts),
             p50_queue_ms = py_round2 (percentile queue_times (50 / 100)),
             p95_queue_ms = py_round2 (percentile queue_times (95 / 100)),
             p50_inference_ms = py_round2 (percentile inference_times (50 / 100)),
             p95_inference_ms = py_round2 (percentile inference_times (95 / 100)),
             avg_cpu_percent = py_round2 avg_cpu, peak_mem_mb = py_round2 peak_mem\<rparr>
     }"

definition summarize_trial ::
  "(pyfloat \<Rightarrow> pystr) \<Rightarrow> pystr option \<Rightarrow> pystr option \<Rightarrow> summary option" where
  "summarize_trial float_repr ndjson resource_csv =
     do {
       records \<leftarrow> (case ndjson of None \<Rightarrow> Some [] | Some content \<Rightarrow> read_jsonl content);
       if records = [] then Some NoRecords
       else map_option Summary (summarize_records float_repr records resource_csv)
     }"

section \<open>Percentiles are nearest ranks\<close>

text \<open>The number of data not above a value.\<close>

definition rank :: "pyfloat list \<Rightarrow> pyfloat \<Rightarrow> nat" where
  "rank data x = length (filter (\<lambda>y. y \<le> x) data)"

definition nearest_rank :: "pyfloat list \<Rightarrow> pyfloat \<Rightarrow> pyfloat \<Rightarrow> bool" where
  "nearest_rank data pct x \<longleftrightarrow>
     x \<in> set data \<and> pct * of_nat (length data) \<le> of_nat (rank data x) \<and>
     (\<forall>y \<in> set data. y < x \<longrightarrow> of_nat (rank data y) < pct * of_nat (length data))"

lemma rank_sort: "rank (sort data) x = rank data x"
  by (simp add: rank_def filter_sort)

lemma rank_nth:
  assumes "sorted xs" "i < length xs"
  shows "Suc i \<le> rank xs (xs ! i)" "y < xs ! i \<Longrightarrow> rank xs y \<le> i"
proof -
  have t: "xs = take (Suc i) xs @ drop (Suc i) xs" "xs = take i xs @ drop i xs" by simp_all
  have "\<forall>y \<in> set (take (Suc i) xs). y \<le> xs ! i"
    using assms by (auto simp: in_set_conv_nth sorted_iff_nth_mono)
  then have "filter (\<lambda>y. y \<le> xs ! i) (take (Suc i) xs) = take (Suc i) xs" by simp
  then have "rank xs (xs ! i) = length (take (Suc i) xs) + length (filter (\<lambda>y. y \<le> xs ! i) (drop (Suc i) xs))"
    unfolding rank_def by (metis filter_append length_append t(1))
  then show "Suc i \<le> rank xs (xs ! i)" using assms(2) by simp
  assume y: "y < xs ! i"
  have "\<forall>z \<in> set (drop i xs). xs ! i \<le> z"
    using assms by (auto simp: in_set_conv_nth sorted_iff_nth_mono)
  with y have "filter (\<lambda>z. z \<le> y) (drop i xs) = []" by (force simp: filter_empty_conv)
  then have "rank xs y = length (filter (\<lambda>z. z \<le> y) (take i xs))"
    unfolding rank_def by (metis append.right_neutral filter_append t(2))
  also have "\<dots> \<le> i" by (rule le_trans [OF length_filter_le]) simp
  finally show "rank xs y \<le> i" .
qed

lemma nearest_rank_unique: "nearest_rank data pct x \<Longrightarrow> nearest_rank data pct y \<Longrightarrow> x = y"
  by (force simp: nearest_rank_def not_less [symmetric] dest: bspec)

lemma percentile_nearest_rank:
  assumes "data \<noteq> []" "0 < pct" "pct \<le> 1"
  shows "nearest_rank data pct (percentile data pct)"
proof -
  have clamp: "1 \<le> k \<Longrightarrow> k \<le> m \<Longrightarrow> max 0 (min (k - 1) (m - 1)) = k - 1" for k m :: int by simp
  let ?s = "sort data" and ?n = "length data"
  have n: "0 < ?n" using assms(1) by simp
  then have pos: "0 < pct * of_nat ?n" using assms(2) by simp
  have le: "pct * of_nat ?n \<le> of_nat ?n" using assms(3) n by simp
  obtain k where k: "k = \<lceil>pct * of_nat ?n\<rceil>" by simp
  have c: "1 \<le> k" "k \<le> int ?n" using pos le unfolding k by (simp_all add: ceiling_le_iff one_le_ceiling)
  have bounds: "pct * of_nat ?n \<le> of_int k" "of_int k - 1 < pct * of_nat ?n"
    unfolding k using ceiling_correct [of "pct * of_nat ?n"] by simp_all
  obtain i where i_def: "i = nat (k - 1)" by simp
  have k_i: "of_int k = (of_nat (Suc i) :: real)" using c i_def by simp
  have "percentile data pct = ?s ! i"
    unfolding percentile_def Let_def length_sort k [symmetric] clamp [OF c] using assms(1) i_def by simp
  moreover have "i < ?n" using c i_def by linarith
  ultimately have i: "i < length ?s" "percentile data pct = ?s ! i" by simp_all
  have above: "pct * of_nat ?n \<le> of_nat (Suc i)" using bounds(1) k_i by simp
  have below: "of_nat i < pct * of_nat ?n" using bounds(2) k_i by simp
  have "?s ! i \<in> set data" using nth_mem [OF i(1)] by simp
  moreover have "of_nat (Suc i) \<le> (of_nat (rank data (?s ! i)) :: real)"
    using rank_nth(1) [OF sorted_sort i(1)] unfolding rank_sort by (rule of_nat_mono)
  moreover have "(of_nat (rank data y) :: real) \<le> of_nat i" if "y < ?s ! i" for y
    using rank_nth(2) [OF sorted_sort i(1) that] unfolding rank_sort by (rule of_nat_mono)
  ultimately show ?thesis
    using above below unfolding nearest_rank_def i(2) by (meson le_less_trans order_trans)
qed

lemma percentile_mono:
  assumes "0 < p" "p \<le> q" "q \<le> 1"
  shows "percentile data p \<le> percentile data q"
proof (cases "data = []")
  case False
  then have n: "0 < length data" by simp
  have "p * of_nat (length data) \<le> q * of_nat (length data)" using assms by (intro mult_right_mono) simp_all
  then have "\<lceil>p * of_nat (length data)\<rceil> \<le> \<lceil>q * of_nat (length data)\<rceil>" by (rule ceiling_mono)
  moreover have "nat (max 0 (min k (int (length data) - 1))) < length data" for k using n by linarith
  moreover have "k \<le> k' \<Longrightarrow> nat (max 0 (min (k - 1) m)) \<le> nat (max 0 (min (k' - 1) m))" for k k' m :: int by linarith
  ultimately show ?thesis using False
    by (simp add: percentile_def Let_def sorted_nth_mono)
qed (simp add: percentile_def)

section \<open>Counts\<close>

lemma map_of_count_key: "map_of (count_key k d) k' = (if k' = k then Some (Suc (case map_of d k of None \<Rightarrow> 0 | Some n \<Rightarrow> n)) else map_of d k')"
  by (simp add: count_key_def update_conv')

lemma distinct_count_key: "distinct (map fst d) \<Longrightarrow> distinct (map fst (count_key k d))"
  by (simp add: count_key_def distinct_update)

definition count_of :: "(pystr, nat) dict \<Rightarrow> pystr \<Rightarrow> nat" where
  "count_of d k = (case map_of d k of None \<Rightarrow> 0 | Some n \<Rightarrow> n)"

lemma count_of_count_key: "count_of (count_key k d) k' = count_of d k' + (if k' = k then 1 else 0)"
  by (simp add: count_of_def map_of_count_key)

lemma count_of_fold: "count_of (fold count_key ks d) k = count_of d k + count_list ks k"
  by (induction ks arbitrary: d) (simp_all add: count_of_count_key)

lemma count_of_count_keys: "count_of (count_keys ks) k = count_list ks k"
  by (simp add: count_keys_def count_of_fold) (simp add: count_of_def)

lemma sum_update_count:
  "distinct (map fst d) \<Longrightarrow> sum_list (map snd (count_key k d)) = Suc (sum_list (map snd d))"
  unfolding count_key_def by (induction d) (auto split: option.splits simp: map_of_eq_None_iff update_new)

lemma sum_fold_count:
  "distinct (map fst d) \<Longrightarrow> sum_list (map snd (fold count_key ks d)) = length ks + sum_list (map snd d)"
  by (induction ks arbitrary: d) (simp_all add: sum_update_count distinct_count_key)

lemma sum_count_keys: "sum_list (map snd (count_keys ks)) = length ks"
  by (simp add: count_keys_def sum_fold_count)

lemma distinct_count_keys: "distinct (map fst (count_keys ks))"
proof -
  have "distinct (map fst d) \<Longrightarrow> distinct (map fst (fold count_key ks d))" for d
    by (induction ks arbitrary: d) (simp_all add: distinct_count_key)
  then show ?thesis by (simp add: count_keys_def)
qed

end
