(* ===== verification/Summary_Report.thy ===== *)
theory Summary_Report
  imports Summary
begin

text \<open>
  The end of \<open>main\<close> in \<open>scripts/summarize_results.py\<close>: the Markdown report, with Python's \<open>repr\<close> of texts
  and of the two dictionaries of counts. Which code points from 128 on are printable is the parameter
  \<open>isprintable\<close>. The figures of a summary are floats here; of a record file with an integer for a time
  Python would print that figure without its \<open>.0\<close>.
\<close>

section \<open>\<open>repr\<close>\<close>

definition hex2 :: "nat \<Rightarrow> pystr" where
  "hex2 c = map hex_digit [c div 16 mod 16, c mod 16]"

definition py_escape :: "(codepoint \<Rightarrow> bool) \<Rightarrow> codepoint \<Rightarrow> codepoint \<Rightarrow> pystr" where
  "py_escape isprintable q c =
     (if c = q \<or> c = 92 then [92, c]
      else if c = 9 then [92, 116] else if c = 10 then [92, 110] else if c = 13 then [92, 114]
      else if c < 32 \<or> c = 127 then [92, 120] @ hex2 c
      else if c < 127 \<or> isprintable c then [c]
      else if c < 256 then [92, 120] @ hex2 c
      else if c < 65536 then [92, 117] @ hex4 c
      else [92, 85] @ hex4 (c div 65536) @ hex4 (c mod 65536))"

text \<open>Single quotes, unless the text has some and no double quotes.\<close>

definition quote :: "pystr \<Rightarrow> codepoint" where
  "quote s = (if 39 \<in> set s \<and> 34 \<notin> set s then 34 else 39)"

definition py_repr :: "(codepoint \<Rightarrow> bool) \<Rightarrow> pystr \<Rightarrow> pystr" where
  "py_repr isprintable s = quote s # concat (map (py_escape isprintable (quote s)) s) @ [quote s]"

definition entry_repr :: "(codepoint \<Rightarrow> bool) \<Rightarrow> pystr \<times> nat \<Rightarrow> pystr" where
  "entry_repr isprintable e = py_repr isprintable (fst e) @ str '': '' @ decimal (snd e)"

definition counts_repr :: "(codepoint \<Rightarrow> bool) \<Rightarrow> (pystr, nat) dict \<Rightarrow> pystr" where
  "counts_repr isprintable d = 123 # join_items (map (entry_repr isprintable) d) @ [125]"

section \<open>\<open>main\<close>\<close>

definition bullet :: "string \<Rightarrow> pystr \<Rightarrow> pystr" where
  "bullet label content = str ''- **'' @ str label @ str ''**: '' @ content"

definition report_lines :: "(codepoint \<Rightarrow> bool) \<Rightarrow> (pyfloat \<Rightarrow> pystr) \<Rightarrow> trial_summary \<Rightarrow> pystr list" where
  "report_lines isprintable float_repr t =
     (let ms = (\<lambda>x. float_repr x @ str '' ms''); sep = str '' / '' in
      [str ''# Benchmark Trial Summary'', [],
       bullet ''Attempted Throughput'' (float_repr (attempted_throughput t) @ str '' req/s''),
       bullet ''Successful Throughput'' (float_repr (successful_throughput t) @ str '' req/s''),
       bullet ''Latency (p50/p95/p99)'' (ms (p50_latency_ms t) @ sep @ ms (p95_latency_ms t) @ sep @ ms (p99_latency_ms t)),
       bullet ''HTTP Statuses'' (counts_repr isprintable (status_counts t)),
       bullet ''Worker Distribution'' (counts_repr isprintable (worker_counts t)),
       bullet ''Retries'' (decimal (retries_count t)),
       bullet ''Queue Time (p50/p95)'' (ms (p50_queue_ms t) @ sep @ ms (p95_queue_ms t)),
       bullet ''Inference Time (p50/p95)'' (ms (p50_inference_ms t) @ sep @ ms (p95_inference_ms t)),
       bullet ''Avg CPU'' (float_repr (avg_cpu_percent t) @ str ''%''),
       bullet ''Peak Memory'' (float_repr (peak_mem_mb t) @ str '' MB'')])"

definition report_text :: "(codepoint \<Rightarrow> bool) \<Rightarrow> (pyfloat \<Rightarrow> pystr) \<Rightarrow> trial_summary \<Rightarrow> pystr" where
  "report_text isprintable float_repr t = concat (map (\<lambda>l. l @ [10]) (report_lines isprintable float_repr t))"

text \<open>
  After the summary is printed: the report, if an output is named, with its path. Its first figure
  indexes the summary, so for one without records it raises (\<open>None\<close>), as creating the directory of a bare
  file name does.
\<close>

datatype report = NoReport | Report pystr pystr

definition write_report ::
  "(codepoint \<Rightarrow> bool) \<Rightarrow> (pyfloat \<Rightarrow> pystr) \<Rightarrow> pystr option \<Rightarrow> summary \<Rightarrow> report option" where
  "write_report isprintable float_repr output s =
     (case output of
        None \<Rightarrow> Some NoReport
      | Some path \<Rightarrow>
          (if path = [] then Some NoReport
           else if dirname path = [] then None
           else (case s of
                   NoRecords \<Rightarrow> None
                 | Summary t \<Rightarrow> Some (Report path (report_text isprintable float_repr t)))))"

section \<open>A text is read back from its \<open>repr\<close>\<close>

definition read_escape :: "pystr \<Rightarrow> (codepoint \<times> pystr) option" where
  "read_escape s =
     (case s of
        [] \<Rightarrow> None
      | a # r \<Rightarrow>
          if a \<noteq> 92 then Some (a, r)
          else (case r of
                  [] \<Rightarrow> None
                | b # t \<Rightarrow>
                    if b = 110 then Some (10, t) else if b = 114 then Some (13, t) else if b = 116 then Some (9, t)
                    else if b = 120 then take_u ([48, 48] @ t)
                    else if b = 117 then take_u t
                    else if b = 85 then do { (u, t') \<leftarrow> take_u t; (v, t'') \<leftarrow> take_u t'; Some (65536 * u + v, t'') }
                    else Some (b, t)))"

lemma take_u_hex2: "c < 256 \<Longrightarrow> take_u (48 # 48 # hex2 c @ r) = Some (c, r)"
  using take_u_hex4 [of c r] by (simp add: hex4_def hex2_def hex_digit_def)

lemma quote_cases: "quote s = 34 \<or> quote s = 39"
  by (simp add: quote_def)

lemma read_py_escape:
  assumes "q = 34 \<or> q = 39" "c < 1114112"
  shows "read_escape (py_escape p q c @ r) = Some (c, r)"
  using assms by (auto simp: py_escape_def read_escape_def take_u_hex2)

lemma py_escape_starts:
  assumes "q = 34 \<or> q = 39"
  obtains a b where "py_escape p q c = a # b" "a \<noteq> q"
proof -
  have "py_escape p q c \<noteq> []" "hd (py_escape p q c) \<noteq> q" using assms by (auto simp: py_escape_def)
  then show ?thesis using that by (cases "py_escape p q c") simp_all
qed

lemma escapes_inject:
  assumes "concat (map (py_escape p q) s) @ q # r = concat (map (py_escape p q) s') @ q # r'"
    "q = 34 \<or> q = 39" "\<forall>c \<in> set s \<union> set s'. c < 1114112"
  shows "s = s' \<and> r = r'"
  using assms
proof (induction s arbitrary: s')
  case Nil
  show ?case
  proof (cases s')
    case (Cons c t)
    obtain a b where "py_escape p q c = a # b" "a \<noteq> q" using py_escape_starts [OF Nil.prems(2)] by blast
    with Nil.prems(1) Cons show ?thesis by simp
  qed (use Nil.prems in simp)
next
  case step: (Cons c s)
  obtain a b where ab: "py_escape p q c = a # b" "a \<noteq> q" using py_escape_starts [OF step.prems(2)] by blast
  show ?case
  proof (cases s')
    case Nil
    with step.prems(1) ab show ?thesis by simp
  next
    case (Cons d t)
    have "read_escape (py_escape p q c @ concat (map (py_escape p q) s) @ q # r) =
      read_escape (py_escape p q d @ concat (map (py_escape p q) t) @ q # r')"
      using step.prems(1) Cons by simp
    then have "c = d" "concat (map (py_escape p q) s) @ q # r = concat (map (py_escape p q) t) @ q # r'"
      using step.prems(2,3) Cons by (simp_all add: read_py_escape)
    with step.IH [of t] step.prems(2,3) Cons show ?thesis by simp
  qed
qed

lemma py_repr_inject:
  assumes "py_repr p s @ r = py_repr p s' @ r'" "\<forall>c \<in> set s \<union> set s'. c < 1114112"
  shows "s = s' \<and> r = r'"
proof -
  have "quote s = quote s'" using assms(1) by (simp add: py_repr_def)
  with assms(1) have "concat (map (py_escape p (quote s)) s) @ quote s # r = concat (map (py_escape p (quote s)) s') @ quote s # r'"
    by (simp add: py_repr_def)
  from escapes_inject [OF this quote_cases assms(2)] show ?thesis .
qed

section \<open>The counts are read back from theirs\<close>

lemma decimal_inject:
  assumes "decimal m @ r = decimal n @ r'" "stops r" "stops r'"
  shows "m = n \<and> r = r'"
proof -
  have "takeWhile is_digit (decimal k @ x) = decimal k" if "stops x" for k x
    using takeWhile_digits [OF decimal_is_digit that] by simp
  with assms have "decimal m = decimal n" by metis
  moreover from this have "int m = int n" using py_digits_decimal by (metis option.inject)
  ultimately show ?thesis using assms(1) by simp
qed

definition more_entries :: "(codepoint \<Rightarrow> bool) \<Rightarrow> (pystr, nat) dict \<Rightarrow> pystr" where
  "more_entries p d = concat (map (\<lambda>e. [44, 32] @ entry_repr p e) d) @ [125]"

lemma join_entries: "join_items (map (entry_repr p) (e # d)) @ [125] = entry_repr p e @ more_entries p d"
  by (induction d arbitrary: e) (simp_all add: more_entries_def)

lemma more_entries_stops: "stops (more_entries p d)"
  by (cases d) (simp_all add: more_entries_def stops_def is_digit_def)

definition code_points :: "(pystr, nat) dict \<Rightarrow> bool" where
  "code_points d \<longleftrightarrow> (\<forall>s \<in> fst ` set d. \<forall>c \<in> set s. c < 1114112)"

lemma entry_inject:
  assumes "entry_repr p e @ more_entries p d = entry_repr p e' @ more_entries p d'"
    "code_points (e # d)" "code_points (e' # d')"
  shows "e = e' \<and> more_entries p d = more_entries p d'"
proof -
  have "fst e = fst e' \<and> str '': '' @ decimal (snd e) @ more_entries p d = str '': '' @ decimal (snd e') @ more_entries p d'"
    using assms by (intro py_repr_inject) (auto simp: entry_repr_def code_points_def)
  then show ?thesis
    using decimal_inject [OF _ more_entries_stops more_entries_stops] by (metis prod.expand same_append_eq)
qed

lemma more_entries_inject:
  "more_entries p d = more_entries p d' \<Longrightarrow> code_points d \<Longrightarrow> code_points d' \<Longrightarrow> d = d'"
proof (induction d arbitrary: d')
  case Nil
  then show ?case by (cases d') (simp_all add: more_entries_def)
next
  case step: (Cons e d)
  then obtain e' t where d': "d' = e' # t" by (cases d') (simp_all add: more_entries_def)
  have "entry_repr p e @ more_entries p d = entry_repr p e' @ more_entries p t"
    using step.prems(1) d' by (simp add: more_entries_def)
  with entry_inject step.prems(2,3) d' have "e = e'" "more_entries p d = more_entries p t" by blast+
  with step.IH step.prems(2,3) d' show ?case by (auto simp: code_points_def)
qed

lemma counts_repr_inject:
  assumes "counts_repr p d = counts_repr p d'" "code_points d" "code_points d'"
  shows "d = d'"
proof -
  have start: "hd (entry_repr p e @ x) \<noteq> 125" "entry_repr p e \<noteq> []" for e x
    using quote_cases [of "fst e"] by (auto simp: entry_repr_def py_repr_def)
  show ?thesis
  proof (cases d; cases d')
    fix e t e' t' assume d: "d = e # t" "d' = e' # t'"
    with assms(1) have "entry_repr p e @ more_entries p t = entry_repr p e' @ more_entries p t'"
      by (metis counts_repr_def join_entries list.inject)
    with entry_inject assms(2,3) d have "e = e'" "more_entries p t = more_entries p t'" by blast+
    with more_entries_inject assms(2,3) d show ?thesis by (auto simp: code_points_def)
  next
    fix e t assume d: "d = []" "d' = e # t"
    with assms(1) have "[125] = entry_repr p e @ more_entries p t"
      by (metis append_Nil counts_repr_def join_entries join_items.simps(1) list.inject list.simps(8))
    with start show ?thesis by (metis list.sel(1))
  next
    fix e t assume d: "d = e # t" "d' = []"
    with assms(1) have "[125] = entry_repr p e @ more_entries p t"
      by (metis append_Nil counts_repr_def join_entries join_items.simps(1) list.inject list.simps(8))
    with start show ?thesis by (metis list.sel(1))
  qed simp
qed

section \<open>The lines of the report\<close>

definition unbroken :: "pystr \<Rightarrow> bool" where
  "unbroken s \<longleftrightarrow> 10 \<notin> set s \<and> 13 \<notin> set s"

lemma unbroken_simps [simp]:
  "unbroken []" "unbroken (c # s) \<longleftrightarrow> c \<noteq> 10 \<and> c \<noteq> 13 \<and> unbroken s"
  "unbroken (s @ t) \<longleftrightarrow> unbroken s \<and> unbroken t"
  by (auto simp: unbroken_def)

lemma unbroken_decimal [simp]: "unbroken (decimal n)"
  using decimal_digits [of 10 n] decimal_digits [of 13 n] by (auto simp: unbroken_def)

lemma unbroken_hex [simp]: "unbroken (hex4 n)" "unbroken (hex2 n)"
  by (simp_all add: hex4_def hex2_def hex_digit_def)

lemma unbroken_py_escape: "q = 34 \<or> q = 39 \<Longrightarrow> unbroken (py_escape p q c)"
  by (auto simp: py_escape_def)

lemma unbroken_concat: "(\<And>x. x \<in> set xs \<Longrightarrow> unbroken (f x)) \<Longrightarrow> unbroken (concat (map f xs))"
  by (induction xs) simp_all

lemma unbroken_py_repr [simp]: "unbroken (py_repr p s)"
  using quote_cases [of s] by (auto simp: py_repr_def intro!: unbroken_concat unbroken_py_escape)

lemma unbroken_entry [simp]: "unbroken (entry_repr p e)"
  by (simp add: entry_repr_def str_def)

lemma unbroken_counts [simp]: "unbroken (counts_repr p d)"
proof (cases d)
  case (Cons e t)
  have "unbroken (more_entries p t)" by (auto simp: more_entries_def intro!: unbroken_concat)
  then show ?thesis using join_entries [of p e t] by (simp add: counts_repr_def Cons)
qed (simp add: counts_repr_def)

lemma report_lines_unbroken:
  assumes "\<forall>x. unbroken (float_repr x)"
  shows "\<forall>l \<in> set (report_lines p float_repr t). unbroken l"
  using assms by (simp add: report_lines_def Let_def bullet_def str_def)

lemma text_lines_report:
  assumes "\<forall>x. unbroken (float_repr x)"
  shows "text_lines (report_text p float_repr t) = map (\<lambda>l. l @ [10]) (report_lines p float_repr t)"
proof -
  note l = report_lines_unbroken [OF assms, of p t]
  have "13 \<notin> set (report_text p float_repr t)" using l by (auto simp: report_text_def unbroken_def)
  then have "universal_newlines (report_text p float_repr t) = report_text p float_repr t"
    by (rule universal_newlines_id)
  then show ?thesis using l by (simp add: text_lines_def report_text_def file_lines_concat unbroken_def)
qed

text \<open>
  C37: The report tells the counts. Whatever the status texts and the worker ids contain (quotes, line
  breaks, braces), the report is its heading, an empty line and ten bullets, and it determines the two
  dictionaries of counts and the number of retries: summaries with the same report agree on them.
\<close>

theorem report_tells_counts:
  assumes "\<forall>x. unbroken (float_repr x)"
    and "write_report isprintable float_repr output (Summary t) = Some (Report path content)"
    and "write_report isprintable float_repr output' (Summary t') = Some (Report path' content)"
    and "code_points (status_counts t @ worker_counts t @ status_counts t' @ worker_counts t')"
  shows "length (text_lines content) = 12 \<and> status_counts t = status_counts t' \<and>
    worker_counts t = worker_counts t' \<and> retries_count t = retries_count t'"
proof -
  have c: "content = report_text isprintable float_repr t" "content = report_text isprintable float_repr t'"
    using assms(2,3) by (auto simp: write_report_def split: option.splits if_splits)
  have "map (\<lambda>l. l @ [10]) (report_lines isprintable float_repr t) = map (\<lambda>l. l @ [10]) (report_lines isprintable float_repr t')"
    using c text_lines_report [OF assms(1)] by metis
  then have "report_lines isprintable float_repr t = report_lines isprintable float_repr t'"
    by (rule map_injective) (simp add: inj_def)
  then have same: "counts_repr isprintable (status_counts t) = counts_repr isprintable (status_counts t')"
    "counts_repr isprintable (worker_counts t) = counts_repr isprintable (worker_counts t')"
    "decimal (retries_count t) = decimal (retries_count t')"
    by (simp_all add: report_lines_def Let_def bullet_def)
  have codes: "code_points (status_counts t)" "code_points (status_counts t')"
    "code_points (worker_counts t)" "code_points (worker_counts t')"
    using assms(4) by (auto simp: code_points_def)
  have "length (text_lines content) = 12"
    unfolding c(1) text_lines_report [OF assms(1)] by (simp add: report_lines_def Let_def)
  moreover have "retries_count t = retries_count t'"
    using decimal_inject [of _ "[]" _ "[]"] same(3) by (simp add: stops_def)
  ultimately show ?thesis
    using counts_repr_inject [OF same(1) codes(1,2)] counts_repr_inject [OF same(2) codes(3,4)] by blast
qed

definition whole_repr :: "pyfloat \<Rightarrow> pystr" where
  "whole_repr x = int_repr \<lfloor>x\<rfloor> @ str ''.0''"

definition odd_summary :: trial_summary where
  "odd_summary =
     \<lparr>total_requests = 3, success_count = 2, duration_sec = 2, attempted_throughput = 1, successful_throughput = 1,
      p50_latency_ms = 4, p95_latency_ms = 5, p99_latency_ms = 5, status_counts = [(str ''200'', 2), (str ''None'', 1)],
      worker_counts = [([39, 10, 125], 1), ([34, 39, 233], 1)], retries_count = 1, p50_queue_ms = 0, p95_queue_ms = 1,
      p50_inference_ms = 2, p95_inference_ms = 3, avg_cpu_percent = 50, peak_mem_mb = 100\<rparr>"

lemma odd_counts_repr:
  "counts_repr (\<lambda>c. True) (worker_counts odd_summary) =
     [123, 34, 39, 92, 110, 125, 34, 58, 32, 49, 44, 32, 39, 34, 92, 39, 233, 39, 58, 32, 49, 125]"
  by (simp add: odd_summary_def counts_repr_def entry_repr_def py_repr_def quote_def py_escape_def str_def decimal.simps)

theorem report_tells_counts_witness:
  "length (text_lines (report_text (\<lambda>c. True) whole_repr odd_summary)) = 12 \<and>
   worker_counts odd_summary = worker_counts (odd_summary\<lparr>total_requests := 5\<rparr>)"
proof -
  let ?c = "report_text (\<lambda>c. True) whole_repr odd_summary"
  have float: "\<forall>x. unbroken (whole_repr x)" by (simp add: whole_repr_def int_repr_def str_def)
  have "report_text (\<lambda>c. True) whole_repr (odd_summary\<lparr>total_requests := 5\<rparr>) = ?c"
    by (simp add: report_text_def report_lines_def)
  then have written: "write_report (\<lambda>c. True) whole_repr (Some (str ''out/a.md'')) (Summary odd_summary) = Some (Report (str ''out/a.md'') ?c)"
    "write_report (\<lambda>c. True) whole_repr (Some (str ''out/b.md'')) (Summary (odd_summary\<lparr>total_requests := 5\<rparr>)) = Some (Report (str ''out/b.md'') ?c)"
    by (simp_all add: write_report_def dirname_def str_def)
  from report_tells_counts [OF float written] show ?thesis
    by (simp add: odd_summary_def code_points_def str_def)
qed

end
