(* ===== verification/Download.thy ===== *)
theory Download
  imports Prelude
begin

text \<open>
  The model download, \<open>scripts/download_model.py\<close>: the checksum, read in chunks, the download of one file
  through a temporary one, and the loop over the files. The file system maps a path, directory and name,
  to the bytes of the file there. The digest (\<open>hashlib.sha256\<close>) and the servers are arguments; a run may
  stop between any two operations, so \<open>download_steps\<close> lists the file systems it goes through.
\<close>

section \<open>Files and digests\<close>

type_synonym path = "string \<times> string"
type_synonym bytes = "nat list"
type_synonym filesystem = "path \<Rightarrow> bytes option"

text \<open>The chunks of 8192 bytes the loop feeds to \<open>update\<close>.\<close>

function chunks :: "bytes \<Rightarrow> bytes list" where
  "chunks bs = (if bs = [] then [] else take 8192 bs # chunks (drop 8192 bs))"
  by pat_completeness auto
termination
  by (relation "measure length") auto

declare chunks.simps [simp del]

text \<open>The digest object holds what it was fed; \<open>sha256\<close> is the digest of a whole input.\<close>

definition verify_sha256 :: "(bytes \<Rightarrow> string) \<Rightarrow> path \<Rightarrow> string \<Rightarrow> filesystem \<Rightarrow> bool" where
  "verify_sha256 sha256 file_path expected_sha256 fs =
     (case fs file_path of
        None \<Rightarrow> False
      | Some bs \<Rightarrow> sha256 (fold (\<lambda>chunk h. h @ chunk) (chunks bs) []) = expected_sha256)"

section \<open>The temporary file\<close>

text \<open>\<open>PurePath.suffix\<close>: from the last dot on, unless that is the first or the last character.\<close>

definition path_suffix :: "string \<Rightarrow> string" where
  "path_suffix name =
     (let tail = rev (takeWhile (\<lambda>c. c \<noteq> CHR ''.'') (rev name)); i = length name - Suc (length tail)
      in if CHR ''.'' \<in> set name \<and> 0 < i \<and> tail \<noteq> [] then drop i name else [])"

text \<open>\<open>with_suffix\<close>\<close>

definition with_suffix :: "path \<Rightarrow> string \<Rightarrow> path" where
  "with_suffix p s = (fst p, take (length (snd p) - length (path_suffix (snd p))) (snd p) @ s)"

definition temp_path :: "path \<Rightarrow> path" where
  "temp_path dest = with_suffix dest (path_suffix (snd dest) @ ''.tmp'')"

section \<open>\<open>download_file\<close>\<close>

text \<open>
  What \<open>urlretrieve\<close> does: it writes the whole answer, or raises with a part written, or raises before
  the file is opened.
\<close>

datatype retrieval = Complete bytes | Interrupted bytes | Refused

datatype download_result = Downloaded | AlreadyThere | Mismatch | RetrieveRaised

definition download_file ::
  "(bytes \<Rightarrow> string) \<Rightarrow> retrieval \<Rightarrow> path \<Rightarrow> string \<Rightarrow> filesystem \<Rightarrow> download_result \<times> filesystem list" where
  "download_file sha256 answer dest_path expected_sha256 fs =
     (if verify_sha256 sha256 dest_path expected_sha256 fs then (AlreadyThere, [fs])
      else
        let temp = temp_path dest_path in
        case answer of
          Refused \<Rightarrow> (RetrieveRaised, [fs])
        | Interrupted part \<Rightarrow> (RetrieveRaised, [fs, fs(temp \<mapsto> part)])
        | Complete bs \<Rightarrow>
            (let fs1 = fs(temp \<mapsto> bs) in
             if \<not> verify_sha256 sha256 temp expected_sha256 fs1
             then (Mismatch, [fs, fs1, fs1(temp := None)])
             else (Downloaded, [fs, fs1, fs1(dest_path := fs1 temp, temp := None)])))"

text \<open>\<open>main\<close>: the files in order, until one raises.\<close>

record model_file =
  mf_path :: path
  mf_url :: string
  mf_sha256 :: string

definition FILES :: "model_file list" where
  "FILES =
     [\<lparr>mf_path = (''artifacts/model'', ''model.onnx''),
       mf_url = ''https://huggingface.co/fxmarty/tiny-bert-sst2-distilled-onnx-subfolder/resolve/d3017b38272765ae30e68f73de1fcb432bb97f3d/my_subfolder/model.onnx'',
       mf_sha256 = ''23ea44ed3eb302e22045900ba8565dd672a9f4c127f5514ce182f01d83fe2e3a''\<rparr>,
      \<lparr>mf_path = (''artifacts/model'', ''config.json''),
       mf_url = ''https://huggingface.co/fxmarty/tiny-bert-sst2-distilled-onnx-subfolder/resolve/d3017b38272765ae30e68f73de1fcb432bb97f3d/my_subfolder/config.json'',
       mf_sha256 = ''3049b86c8f85f0bb54c79b359c9b91f6581e13f2a28d5e5eaac97381b53cb077''\<rparr>,
      \<lparr>mf_path = (''artifacts/model'', ''tokenizer.json''),
       mf_url = ''https://huggingface.co/philschmid/tiny-bert-sst2-distilled/resolve/874eb28543ea7a7df80b6158bbf772d203efcab6/tokenizer.json'',
       mf_sha256 = ''99e552efd3b68340ef1b1106ea152526659a9c525992f008fe4c182a5a587234''\<rparr>,
      \<lparr>mf_path = (''artifacts/model/licenses'', ''onnx-export-README.md''),
       mf_url = ''https://huggingface.co/fxmarty/tiny-bert-sst2-distilled-onnx-subfolder/raw/d3017b38272765ae30e68f73de1fcb432bb97f3d/README.md'',
       mf_sha256 = ''98b45ea81164d1e1a1dd82255207053b15cd6c69d922a1c5cf3387ce604d4b74''\<rparr>,
      \<lparr>mf_path = (''artifacts/model/licenses'', ''source-model-README.md''),
       mf_url = ''https://huggingface.co/philschmid/tiny-bert-sst2-distilled/raw/874eb28543ea7a7df80b6158bbf772d203efcab6/README.md'',
       mf_sha256 = ''8b2aeb54de195d4023fdb47af43646271c9b354a6e853d3a41ed93b3f52d0b7d''\<rparr>]"

fun download_all ::
  "(bytes \<Rightarrow> string) \<Rightarrow> (string \<Rightarrow> retrieval) \<Rightarrow> model_file list \<Rightarrow> filesystem \<Rightarrow> bool \<times> filesystem list" where
  "download_all sha256 servers [] fs = (True, [fs])"
| "download_all sha256 servers (item # items) fs =
     (case download_file sha256 (servers (mf_url item)) (mf_path item) (mf_sha256 item) fs of
        (result, states) \<Rightarrow>
          if result \<in> {Mismatch, RetrieveRaised} then (False, states)
          else (case download_all sha256 servers items (last states) of
                  (ok, rest) \<Rightarrow> (ok, states @ rest)))"

section \<open>The checksum\<close>

lemma concat_chunks: "concat (chunks bs) = bs"
  by (induction bs rule: chunks.induct) (simp add: chunks.simps)

lemma fold_append: "fold (\<lambda>chunk h. h @ chunk) cs h = h @ concat cs"
  by (induction cs arbitrary: h) simp_all

lemma verify_iff:
  "verify_sha256 sha256 p digest fs \<longleftrightarrow> (\<exists>bs. fs p = Some bs \<and> sha256 bs = digest)"
  by (auto simp: verify_sha256_def fold_append concat_chunks split: option.splits)

section \<open>The temporary file is beside the destination\<close>

lemma path_suffix_end: "\<exists>stem. name = stem @ path_suffix name"
proof (cases "path_suffix name = []")
  case False
  then have "path_suffix name = drop (length name - Suc (length (takeWhile (\<lambda>c. c \<noteq> CHR ''.'') (rev name)))) name"
    by (simp add: path_suffix_def Let_def split: if_splits)
  then show ?thesis by (metis append_take_drop_id)
qed simp

lemma temp_path_eq: "temp_path dest = (fst dest, snd dest @ ''.tmp'')"
proof -
  obtain stem where "snd dest = stem @ path_suffix (snd dest)" using path_suffix_end by blast
  then have "take (length (snd dest) - length (path_suffix (snd dest))) (snd dest) = stem"
    by (metis add_diff_cancel_right' append_eq_conv_conj length_append)
  with \<open>snd dest = stem @ path_suffix (snd dest)\<close> show ?thesis
    by (simp add: temp_path_def with_suffix_def)
qed

lemma temp_path_neq [simp]: "temp_path dest \<noteq> dest" "dest \<noteq> temp_path dest"
  by (simp_all add: temp_path_eq prod_eq_iff)

section \<open>One download\<close>

definition verified :: "(bytes \<Rightarrow> string) \<Rightarrow> path \<Rightarrow> string \<Rightarrow> filesystem \<Rightarrow> bool" where
  "verified sha256 p digest fs \<longleftrightarrow> (\<exists>bs. fs p = Some bs \<and> sha256 bs = digest)"

lemma download_states_ne: "download_file sha256 answer dest digest fs = (result, states) \<Longrightarrow> states \<noteq> []"
  by (auto simp: download_file_def Let_def split: if_splits retrieval.splits)

text \<open>At every point the destination is as it was or verified, and no third file is touched.\<close>

lemma download_file_states:
  assumes "download_file sha256 answer dest digest fs = (result, states)" "fs' \<in> set states"
  shows "fs' dest = fs dest \<or> verified sha256 dest digest fs'"
    "p \<noteq> dest \<Longrightarrow> p \<noteq> temp_path dest \<Longrightarrow> fs' p = fs p"
  using assms
  by (auto simp: download_file_def Let_def verify_iff verified_def split: if_splits retrieval.splits)

lemma download_file_result:
  assumes "download_file sha256 answer dest digest fs = (result, states)"
  shows "result \<in> {Downloaded, AlreadyThere} \<longleftrightarrow> verified sha256 dest digest (last states)"
    "result \<in> {Downloaded, Mismatch} \<Longrightarrow> last states (temp_path dest) = None"
    "result = AlreadyThere \<longleftrightarrow> verified sha256 dest digest fs"
    "result = AlreadyThere \<Longrightarrow> states = [fs]"
  using assms
  by (auto simp: download_file_def Let_def verify_iff verified_def split: if_splits retrieval.splits)

section \<open>All of them\<close>

text \<open>No file is the temporary file of another.\<close>

definition separate :: "model_file list \<Rightarrow> bool" where
  "separate items \<longleftrightarrow> distinct (map mf_path items) \<and>
     list_all (\<lambda>a. list_all (\<lambda>b. mf_path a \<noteq> temp_path (mf_path b)) items) items"

lemma separateD:
  "separate (item # items) \<Longrightarrow> separate items"
  "separate (item # items) \<Longrightarrow> it \<in> set items \<Longrightarrow> mf_path it \<noteq> mf_path item \<and> mf_path item \<noteq> mf_path it \<and> mf_path it \<noteq> temp_path (mf_path item)
     \<and> mf_path item \<noteq> temp_path (mf_path it)"
  by (auto simp: separate_def list_all_iff) (metis image_eqI)+

lemma download_all_ne: "download_all sha256 servers items fs = (ok, states) \<Longrightarrow> states \<noteq> []"
  by (cases items) (auto split: prod.splits if_splits dest: download_states_ne)

text \<open>Files that are neither downloaded nor a temporary one stay.\<close>

lemma download_all_other:
  assumes "download_all sha256 servers items fs = (ok, states)" "fs' \<in> set states"
    "\<And>it. it \<in> set items \<Longrightarrow> p \<noteq> mf_path it \<and> p \<noteq> temp_path (mf_path it)"
  shows "fs' p = fs p"
  using assms
proof (induction items arbitrary: fs states ok)
  case (Cons item items)
  obtain result first where d: "download_file sha256 (servers (mf_url item)) (mf_path item) (mf_sha256 item) fs = (result, first)"
    by fastforce
  have p: "p \<noteq> mf_path item" "p \<noteq> temp_path (mf_path item)" using Cons.prems(3) by auto
  have first: "f \<in> set first \<Longrightarrow> f p = fs p" for f using download_file_states(2) [OF d _ p] .
  show ?case
  proof (cases "fs' \<in> set first")
    case False
    with Cons.prems(1,2) d obtain ok' rest where
      r: "download_all sha256 servers items (last first) = (ok', rest)" "fs' \<in> set rest"
      by (auto split: if_splits prod.splits)
    have "fs' p = last first p" by (rule Cons.IH [OF r]) (use Cons.prems(3) in auto)
    with first [of "last first"] download_states_ne [OF d] show ?thesis by simp
  qed (rule first)
qed simp

lemma download_all_safe:
  assumes "download_all sha256 servers items fs = (ok, states)" "fs' \<in> set states" "separate items" "it \<in> set items"
  shows "fs' (mf_path it) = fs (mf_path it) \<or> verified sha256 (mf_path it) (mf_sha256 it) fs'"
  using assms
proof (induction items arbitrary: fs states ok)
  case (Cons item items)
  obtain result first where d: "download_file sha256 (servers (mf_url item)) (mf_path item) (mf_sha256 item) fs = (result, first)"
    by fastforce
  note own = download_file_states [OF d] and sep = separateD [OF Cons.prems(3)]
  show ?case
  proof (cases "fs' \<in> set first")
    case True
    show ?thesis
    proof (cases "it = item")
      case False
      then have "mf_path it \<noteq> mf_path item" "mf_path it \<noteq> temp_path (mf_path item)"
        using sep(2) [of it] Cons.prems(4) by auto
      from own(2) [OF True this] show ?thesis ..
    qed (use own(1) [OF True] in simp)
  next
    case False
    with Cons.prems(1,2) d obtain ok' rest where
      r: "download_all sha256 servers items (last first) = (ok', rest)" "fs' \<in> set rest"
      by (auto split: if_splits prod.splits)
    have last: "last first \<in> set first" using download_states_ne [OF d] by simp
    show ?thesis
    proof (cases "it \<in> set items")
      case True
      with Cons.IH [OF r sep(1) True] own(2) [OF last] sep(2) show ?thesis by simp
    next
      case False
      with Cons.prems(4) have it: "it = item" by simp
      have "fs' (mf_path item) = last first (mf_path item)"
        by (rule download_all_other [OF r]) (use sep(2) in auto)
      with own(1) [OF last] show ?thesis by (auto simp: it verified_def)
    qed
  qed
qed simp

lemma download_all_ok:
  assumes "download_all sha256 servers items fs = (True, states)" "separate items" "it \<in> set items"
  shows "verified sha256 (mf_path it) (mf_sha256 it) (last states)"
  using assms
proof (induction items arbitrary: fs states)
  case (Cons item items)
  obtain result first where d: "download_file sha256 (servers (mf_url item)) (mf_path item) (mf_sha256 item) fs = (result, first)"
    by fastforce
  note sep = separateD [OF Cons.prems(2)]
  from Cons.prems(1) d obtain rest where res: "result \<notin> {Mismatch, RetrieveRaised}"
    and r: "download_all sha256 servers items (last first) = (True, rest)" and states: "states = first @ rest"
    by (auto split: if_splits prod.splits)
  have rest: "rest \<noteq> []" using download_all_ne [OF r] .
  show ?case
  proof (cases "it \<in> set items")
    case True
    with Cons.IH [OF r sep(1)] rest show ?thesis by (simp add: states)
  next
    case False
    with Cons.prems(3) have it: "it = item" by simp
    have "verified sha256 (mf_path item) (mf_sha256 item) (last first)"
      using download_file_result(1) [OF d] res by (cases result) auto
    moreover have "last rest (mf_path item) = last first (mf_path item)"
      by (rule download_all_other [OF r]) (use sep(2) rest in auto)
    ultimately show ?thesis using rest by (simp add: states it verified_def)
  qed
qed simp

lemma download_all_again:
  "\<forall>it \<in> set items. verified sha256 (mf_path it) (mf_sha256 it) fs \<Longrightarrow>
     download_all sha256 servers items fs = (True, replicate (Suc (length items)) fs)"
proof (induction items)
  case (Cons item items)
  then have "download_file sha256 (servers (mf_url item)) (mf_path item) (mf_sha256 item) fs = (AlreadyThere, [fs])"
    by (simp add: download_file_def verify_iff verified_def)
  with Cons show ?case by simp
qed simp

lemma FILES_separate: "separate FILES"
  by (simp add: separate_def FILES_def temp_path_eq)

section \<open>A complete download\<close>

text \<open>Files that are there, under a digest that recognises each by its first byte.\<close>

definition served_files :: filesystem where
  "served_files = map_of (zip (map mf_path FILES) [[0], [1], [2], [3], [4]])"

definition toy_digest :: "bytes \<Rightarrow> string" where
  "toy_digest bs = mf_sha256 (FILES ! hd bs)"

lemma FILES_ne: "FILES \<noteq> []"
  by (simp add: FILES_def)

lemma served_verified: "\<forall>item \<in> set FILES. verified toy_digest (mf_path item) (mf_sha256 item) served_files"
  by (simp add: verified_def toy_digest_def served_files_def FILES_def)

end
