(* ===== verification/Scenario.thy ===== *)
theory Scenario
  imports Json
begin

text \<open>
  The end-to-end failure test, \<open>scripts/failure_scenario.py\<close>: what \<open>main\<close> concludes from what it sees.
  The gateway's answers, the containers and the clock are the fields of an environment; a reply is
  indexed by the number of the request, a command by its place. The prints are left out.
\<close>

section \<open>The environment\<close>

text \<open>
  What a request for the readiness gives: a response, an error status (with \<open>None\<close> where its body cannot be
  decoded, in the handler), or the text of any other exception; a prediction gives a reply or the text of
  an exception.
\<close>

datatype get_outcome = GetResponse int pystr | GetHttpError int "pystr option" | GetRaised pystr

datatype post_result = Replied json | PostFailed pystr

record scenario_env =
  se_time :: nat
  se_ready :: "nat \<Rightarrow> get_outcome"
  se_posts :: "nat \<Rightarrow> post_result"
  se_commands :: "nat \<Rightarrow> pystr option"

definition http_get :: "get_outcome \<Rightarrow> (int \<times> pystr) option" where
  "http_get out =
     (case out of
        GetResponse status body \<Rightarrow> Some (status, body)
      | GetHttpError code body \<Rightarrow> map_option (\<lambda>b. (code, b)) body
      | GetRaised message \<Rightarrow> Some (0, message))"

definition predict_payload :: "pystr \<Rightarrow> nat \<Rightarrow> int \<Rightarrow> json" where
  "predict_payload sentinel time timeout_ms =
     JObj [(str ''request_id'', JStr (str ''sentinel-'' @ decimal time)), (str ''inputs'', JArr [JStr sentinel]),
           (str ''model_version'', JStr (str ''tinybert-sst2-v1'')), (str ''timeout_ms'', JInt timeout_ms)]"

definition http_post_predict :: "scenario_env \<Rightarrow> nat \<Rightarrow> json" where
  "http_post_predict env i =
     (case se_posts env i of Replied j \<Rightarrow> j | PostFailed message \<Rightarrow> JObj [(str ''error'', JStr message)])"

definition scenario_sentinel :: "scenario_env \<Rightarrow> pystr" where
  "scenario_sentinel env = str ''SECRET_SENTINEL_'' @ decimal (se_time env) @ str ''_DO_NOT_LOG''"

section \<open>Reading replies\<close>

text \<open>\<open>k in res\<close> and \<open>r.get(k)\<close>; \<open>None\<close> where they raise.\<close>

definition contains_key :: "string \<Rightarrow> json \<Rightarrow> bool option" where
  "contains_key k j =
     (case j of
        JObj d \<Rightarrow> Some (map_of d (str k) \<noteq> None)
      | JArr vs \<Rightarrow> Some (JStr (str k) \<in> set vs)
      | JStr s \<Rightarrow> Some (py_contains (str k) s)
      | _ \<Rightarrow> None)"

definition served_by :: "string \<Rightarrow> json \<Rightarrow> bool option" where
  "served_by w j =
     (case j of JObj d \<Rightarrow> Some (map_of d (str ''worker_id'') = Some (JStr (str w))) | _ \<Rightarrow> None)"

text \<open>The two loops over replies: the hits of a stopped worker, and the search for a first hit.\<close>

definition worker1_hits :: "scenario_env \<Rightarrow> nat option" where
  "worker1_hits env =
     map_option (\<lambda>hits. length (filter id hits))
       (those (map (\<lambda>i. served_by ''worker-1'' (http_post_predict env i)) [1..<21]))"

fun find_recovered :: "scenario_env \<Rightarrow> nat list \<Rightarrow> bool option" where
  "find_recovered env [] = Some False"
| "find_recovered env (i # is) =
     (case served_by ''worker-1'' (http_post_predict env i) of
        None \<Rightarrow> None
      | Some hit \<Rightarrow> if hit then Some True else find_recovered env is)"

section \<open>\<open>main\<close>\<close>

text \<open>The first loop: whether it ended in its \<open>break\<close>.\<close>

fun wait_ready :: "scenario_env \<Rightarrow> nat list \<Rightarrow> bool option" where
  "wait_ready env [] = Some False"
| "wait_ready env (i # is) =
     (case http_get (se_ready env i) of
        None \<Rightarrow> None
      | Some (code, body) \<Rightarrow> if code = 200 then Some True else wait_ready env is)"

text \<open>The exit: the last line reached, with whether the worker was seen again; \<open>sys.exit(1)\<close>; a traceback.\<close>

datatype verdict = Passed bool | ExitOne | Crashed

definition check_logs :: "scenario_env \<Rightarrow> bool \<Rightarrow> verdict" where
  "check_logs env recovered =
     (case se_commands env 2 of
        None \<Rightarrow> Crashed
      | Some logs \<Rightarrow> if py_contains (scenario_sentinel env) logs then ExitOne else Passed recovered)"

definition check_recovery :: "scenario_env \<Rightarrow> verdict" where
  "check_recovery env =
     (case se_commands env 1 of
        None \<Rightarrow> Crashed
      | Some _ \<Rightarrow> (case find_recovered env [21..<41] of None \<Rightarrow> Crashed | Some recovered \<Rightarrow> check_logs env recovered))"

definition check_outage :: "scenario_env \<Rightarrow> verdict" where
  "check_outage env =
     (case se_commands env 0 of
        None \<Rightarrow> Crashed
      | Some _ \<Rightarrow>
          (case worker1_hits env of
             None \<Rightarrow> Crashed
           | Some hits \<Rightarrow> if 0 < hits then ExitOne else check_recovery env))"

definition check_prediction :: "scenario_env \<Rightarrow> verdict" where
  "check_prediction env =
     (case contains_key ''predictions'' (http_post_predict env 0) of
        None \<Rightarrow> Crashed
      | Some has \<Rightarrow>
          if \<not> has then ExitOne
          else if served_by ''worker-1'' (http_post_predict env 0) = None then Crashed
          else check_outage env)"

definition failure_scenario :: "scenario_env \<Rightarrow> verdict" where
  "failure_scenario env =
     (case wait_ready env [0..<30] of
        None \<Rightarrow> Crashed
      | Some ready \<Rightarrow> if ready then check_prediction env else ExitOne)"

section \<open>What a pass says\<close>

text \<open>A reply that is a dictionary does not come from a worker.\<close>

definition not_from :: "string \<Rightarrow> json \<Rightarrow> bool" where
  "not_from w j \<longleftrightarrow> served_by w j = Some False"

lemma those_no_hits:
  "map_option (\<lambda>hits. length (filter id hits)) (those (map f xs)) = Some 0 \<longleftrightarrow> (\<forall>x \<in> set xs. f x = Some False)"
  by (induction xs) (auto split: option.splits if_splits)

lemma no_hits: "worker1_hits env = Some 0 \<longleftrightarrow> (\<forall>i \<in> {1..20}. not_from ''worker-1'' (http_post_predict env i))"
proof -
  have "set [1..<21] = {1..20 :: nat}" by auto
  then show ?thesis unfolding worker1_hits_def those_no_hits not_from_def by simp
qed

lemma find_recovered_False:
  "find_recovered env is = Some False \<longleftrightarrow> (\<forall>i \<in> set is. not_from ''worker-1'' (http_post_predict env i))"
  by (induction "is") (auto simp: not_from_def split: option.splits)

lemma find_recovered_True:
  "find_recovered env is = Some True \<Longrightarrow> \<exists>i \<in> set is. served_by ''worker-1'' (http_post_predict env i) = Some True"
  by (induction "is") (auto split: option.splits if_splits)

text \<open>A failed request is not from a worker, whatever its message.\<close>

lemma not_from_failed: "se_posts env i = PostFailed message \<Longrightarrow> not_from w (http_post_predict env i)"
  by (simp add: not_from_def served_by_def http_post_predict_def)

lemma failure_scenario_passes:
  "failure_scenario env = Passed b \<longleftrightarrow>
     wait_ready env [0..<30] = Some True \<and>
     (\<exists>d. http_post_predict env 0 = JObj d \<and> map_of d (str ''predictions'') \<noteq> None) \<and>
     se_commands env 0 \<noteq> None \<and> (\<forall>i \<in> {1..20}. not_from ''worker-1'' (http_post_predict env i)) \<and>
     se_commands env 1 \<noteq> None \<and> find_recovered env [21..<41] = Some b \<and>
     (\<exists>logs. se_commands env 2 = Some logs \<and> \<not> py_contains (scenario_sentinel env) logs)"
proof -
  let ?j = "http_post_predict env 0"
  have "check_logs env r = Passed b \<longleftrightarrow>
      r = b \<and> (\<exists>logs. se_commands env 2 = Some logs \<and> \<not> py_contains (scenario_sentinel env) logs)" for r
    by (auto simp: check_logs_def split: option.splits)
  then have "check_recovery env = Passed b \<longleftrightarrow> se_commands env 1 \<noteq> None \<and> find_recovered env [21..<41] = Some b \<and>
      (\<exists>logs. se_commands env 2 = Some logs \<and> \<not> py_contains (scenario_sentinel env) logs)"
    by (simp add: check_recovery_def split: option.split)
  then have outage: "check_outage env = Passed b \<longleftrightarrow> se_commands env 0 \<noteq> None \<and> worker1_hits env = Some 0 \<and> se_commands env 1 \<noteq> None \<and>
      find_recovered env [21..<41] = Some b \<and>
      (\<exists>logs. se_commands env 2 = Some logs \<and> \<not> py_contains (scenario_sentinel env) logs)"
    by (auto simp: check_outage_def split: option.split)
  have reply: "contains_key ''predictions'' ?j = Some True \<and> served_by ''worker-1'' ?j \<noteq> None \<longleftrightarrow>
      (\<exists>d. ?j = JObj d \<and> map_of d (str ''predictions'') \<noteq> None)"
    by (cases ?j) (auto simp: contains_key_def served_by_def)
  have "check_prediction env = Passed b \<longleftrightarrow>
      (contains_key ''predictions'' ?j = Some True \<and> served_by ''worker-1'' ?j \<noteq> None) \<and> check_outage env = Passed b"
    by (cases "contains_key ''predictions'' ?j") (simp_all add: check_prediction_def)
  moreover have "failure_scenario env = Passed b \<longleftrightarrow> wait_ready env [0..<30] = Some True \<and> check_prediction env = Passed b"
    by (auto simp: failure_scenario_def split: option.split)
  ultimately show ?thesis unfolding reply outage no_hits by blast
qed

text \<open>The gateway became ready: some poll was answered with 200, and none before it crashed the script.\<close>

definition polled_ready :: "scenario_env \<Rightarrow> nat \<Rightarrow> bool" where
  "polled_ready env n \<longleftrightarrow> (\<exists>i body. i < n \<and> http_get (se_ready env i) = Some (200, body) \<and>
     list_all (\<lambda>j. http_get (se_ready env j) \<noteq> None) [0..<i])"

lemma wait_ready_from:
  "wait_ready env [m..<m + n] = Some True \<longleftrightarrow>
     (\<exists>i body. m \<le> i \<and> i < m + n \<and> http_get (se_ready env i) = Some (200, body) \<and>
        (\<forall>j. m \<le> j \<and> j < i \<longrightarrow> http_get (se_ready env j) \<noteq> None))"
proof (induction n arbitrary: m)
  case (Suc n)
  have upt: "[m..<m + Suc n] = m # [Suc m..<Suc m + n]" by (simp add: upt_conv_Cons)
  have before: "(\<forall>j. m \<le> j \<and> j < i \<longrightarrow> Q j) \<longleftrightarrow> Q m \<and> (\<forall>j. Suc m \<le> j \<and> j < i \<longrightarrow> Q j)" if "Suc m \<le> i" for i Q
    using that by (metis Suc_le_eq le_neq_implies_less less_imp_le_nat order_refl)
  show ?case
  proof (cases "http_get (se_ready env m)")
    case None
    then have "\<not> (\<exists>i body. m \<le> i \<and> i < m + Suc n \<and> http_get (se_ready env i) = Some (200, body) \<and>
        (\<forall>j. m \<le> j \<and> j < i \<longrightarrow> http_get (se_ready env j) \<noteq> None))"
      by (metis le_neq_implies_less option.distinct(1) order_refl)
    with None show ?thesis unfolding upt by simp
  next
    case (Some r)
    obtain code body where r: "r = (code, body)" by fastforce
    show ?thesis
    proof (cases "code = 200")
      case True
      with Some r show ?thesis unfolding upt by (auto intro: exI [of _ m])
    next
      case False
      have "(\<exists>i body. m \<le> i \<and> i < m + Suc n \<and> http_get (se_ready env i) = Some (200, body) \<and>
          (\<forall>j. m \<le> j \<and> j < i \<longrightarrow> http_get (se_ready env j) \<noteq> None)) \<longleftrightarrow>
        (\<exists>i body. Suc m \<le> i \<and> i < Suc m + n \<and> http_get (se_ready env i) = Some (200, body) \<and>
          (\<forall>j. Suc m \<le> j \<and> j < i \<longrightarrow> http_get (se_ready env j) \<noteq> None))"
        (is "?L \<longleftrightarrow> ?R")
      proof
        assume ?L
        then obtain i b where i: "m \<le> i" "i < m + Suc n" "http_get (se_ready env i) = Some (200, b)"
          "\<forall>j. m \<le> j \<and> j < i \<longrightarrow> http_get (se_ready env j) \<noteq> None" by blast
        then have "m \<noteq> i" using Some r False by auto
        with i show ?R by (intro exI [of _ i] exI [of _ b]) auto
      next
        assume ?R
        then obtain i b where i: "Suc m \<le> i" "i < Suc m + n" "http_get (se_ready env i) = Some (200, b)"
          "\<forall>j. Suc m \<le> j \<and> j < i \<longrightarrow> http_get (se_ready env j) \<noteq> None" by blast
        with before [OF i(1), of "\<lambda>j. http_get (se_ready env j) \<noteq> None"] Some show ?L
          by (intro exI [of _ i] exI [of _ b]) auto
      qed
      with Some r False Suc [of "Suc m"] show ?thesis unfolding upt by simp
    qed
  qed
qed simp

lemma wait_ready_iff: "wait_ready env [0..<n] = Some True \<longleftrightarrow> polled_ready env n"
  using wait_ready_from [of env 0 n] by (auto simp: polled_ready_def list_all_iff)

end
