(* ===== verification/Script_Properties.thy ===== *)
theory Script_Properties
  imports App_Properties Summary_Report Download Scenario
begin

text \<open>
  The properties of the scripts, and of the scripts against the gateway: the corpus, the load generator
  and its summary, the resource sampler, the model download and the failure scenario.
\<close>

section \<open>The corpus\<close>

lemma utf8_size_printable: "printable s \<Longrightarrow> utf8_size s = length s \<and> \<not> list_ex surrogate s"
  by (induction s) (auto simp: utf8_size_def surrogate_def)

lemma phrase_ok: "p \<in> set phrases \<Longrightarrow> item_ok documented_config (str p)"
  using phrases_printable [of p] utf8_size_printable [of "str p"]
  by (simp add: item_ok_def documented_config_def)

lemma length_decimal: "length (decimal n) \<le> Suc n"
proof (induction n rule: decimal.induct)
  case (1 n)
  show ?case
  proof (cases "n < 10")
    case False
    then have "length (decimal (n div 10)) \<le> Suc (n div 10)" by (rule 1)
    also have "Suc (n div 10) \<le> n" using False by linarith
    finally show ?thesis using False by (simp add: decimal.simps [of n])
  qed (simp add: decimal.simps [of n])
qed

lemma corpus_record_readable:
  "i \<le> 4000 \<Longrightarrow> readable float_repr (corpus_record random choice i) \<and> floats (corpus_record random choice i) = {}"
  using length_decimal [of i] by (simp add: corpus_record_def int_repr_def corpus_text_def)

text \<open>
  The corpus the generator writes is the corpus the benchmark loads: whatever the random generator
  draws, the file is read back as its 1000 texts, in order, each one of the phrases, and each an input
  the gateway accepts under its documented settings.
\<close>

lemma corpus_loaded:
  assumes "\<And>i n. 0 < n \<Longrightarrow> choice i n < n"
  shows "\<exists>texts. load_corpus (Some (generate_corpus float_repr random choice)) = Some (map JStr texts)
    \<and> texts = map (corpus_text random choice) [1..<1001] \<and> length texts = 1000
    \<and> set texts \<subseteq> str ` set phrases \<and> list_all (item_ok documented_config) texts"
proof -
  let ?texts = "map (corpus_text random choice) [1..<1001]"
  have "read_jsonl (generate_corpus float_repr random choice) = Some (map (corpus_record random choice) [1..<1001])"
    unfolding generate_corpus_def by (rule read_write_jsonl) (simp add: corpus_record_readable)
  moreover have "those (map text_of (map (corpus_record random choice) [1..<1001])) = Some (map JStr ?texts)"
    unfolding map_map comp_def by (rule those_map_Some) (simp add: text_of_def corpus_record_def)
  ultimately have "load_corpus (Some (generate_corpus float_repr random choice)) = Some (map JStr ?texts)"
    by (simp add: load_corpus_def del: upt_Suc)
  moreover have "set ?texts \<subseteq> str ` set phrases" using corpus_text_phrase [OF assms] by auto
  moreover have "list_all (item_ok documented_config) ?texts"
    using calculation(2) phrase_ok by (auto simp: list_all_iff subset_iff)
  ultimately show ?thesis by (intro exI [of _ ?texts]) simp
qed

theorem corpus_loaded_witness:
  "\<exists>texts. load_corpus (Some (generate_corpus cents_repr (\<lambda>_. 7 / 10) (\<lambda>i n. i mod n))) = Some (map JStr texts)
    \<and> length texts = 1000"
proof -
  have "i mod n < n" if "0 < n" for i n :: nat using that by simp
  from corpus_loaded [of "\<lambda>i n. i mod n" cents_repr "\<lambda>_. 7 / 10", OF this] show ?thesis by blast
qed

section \<open>The load generator\<close>

interpretation trial_accounts: inductive_invariant "\<lambda>s. s = start_trial p" "\<lambda>s e t. trial_step p s e = Some t"
  "\<lambda>s. pl_texts p \<noteq> [] \<longrightarrow> accounted p s" for p
  by unfold_locales (auto simp: accounted_start dest: accounted_step)

definition trial_reachable :: "plan \<Rightarrow> trial \<Rightarrow> bool" where
  "trial_reachable p s \<longleftrightarrow> reachable (\<lambda>s. s = start_trial p) (\<lambda>s e t. trial_step p s e = Some t) s"

lemma trial_accounted: "trial_reachable p s \<Longrightarrow> pl_texts p \<noteq> [] \<Longrightarrow> accounted p s"
  using trial_accounts.holds unfolding trial_reachable_def by blast

lemma trial_run_reachable: "run_steps (trial_step p) (start_trial p) es = Some s \<Longrightarrow> trial_reachable p s"
  unfolding trial_reachable_def by (rule reachable_run [OF reachable_init]) auto

lemma in_flight_bound: "length (concat (map in_flight_index ts)) \<le> length ts"
proof (induction ts)
  case (Cons t ts)
  then show ?case by (cases t) auto
qed simp

text \<open>
  C34: The load generator accounts for every request. However its tasks interleave, the indices of the
  records and of the requests in flight are 0 to the counter, each once; there are never more requests in
  flight than tasks; and when all tasks have left their loops there is exactly one record per request
  that was posted.
\<close>

theorem trial_accounting:
  assumes "trial_reachable p s" "pl_texts p \<noteq> []"
  shows "mset (map tr_request_index (results s) @ in_flight_indices s) = mset [0..<global_counter s]
    \<and> length (in_flight_indices s) \<le> pl_concurrency p \<and> length (posted s) = global_counter s
    \<and> (trial_over s \<longrightarrow> mset (map tr_request_index (results s)) = mset [0..<length (posted s)])"
proof -
  have a: "accounted p s" using assms by (rule trial_accounted)
  moreover have "length (in_flight_indices s) \<le> pl_concurrency p"
    using a in_flight_bound [of "loop_tasks s"] by (simp add: accounted_def in_flight_indices_def)
  moreover have "trial_over s \<Longrightarrow> in_flight_indices s = []"
    by (auto simp: trial_over_def in_flight_indices_def list_all_iff)
  ultimately show ?thesis by (auto simp: accounted_def posts_ok_def)
qed

definition demo_plan :: plan where
  "demo_plan = \<lparr>pl_trial_id = str ''t1'', pl_texts = [JStr (str ''a''), JStr (str ''b'')], pl_concurrency = 2, pl_end_time = 10\<rparr>"

text \<open>Two tasks, three requests: one is answered, one refused, one fails.\<close>

definition demo_answer :: json where
  "demo_answer = JObj [(str ''worker_id'', JStr (str ''worker-2'')), (str ''attempts'', JInt 2),
     (str ''timing_ms'', JObj [(str ''queue'', JFloat (1 / 2)), (str ''inference'', JFloat 3)])]"

definition demo_events :: "trial_event list" where
  "demo_events =
     [TaskStarts 0 1 1000 1, TaskStarts 1 2 2000 2, PostEnds 1 (Responded 429 (Inr (JObj []))) 3 4 4000 4,
      PostEnds 0 (Responded 200 (Inr demo_answer)) 5 11 0 0, PostEnds 1 (PostRaised ''ReadTimeout'') 12 13 0 0]"

definition demo_trial :: trial where
  "demo_trial = the (run_steps (trial_step demo_plan) (start_trial demo_plan) demo_events)"

lemma demo_run: "run_steps (trial_step demo_plan) (start_trial demo_plan) demo_events = Some demo_trial"
proof -
  have "\<exists>s. run_steps (trial_step demo_plan) (start_trial demo_plan) demo_events = Some s"
    by (simp add: demo_events_def start_trial_def demo_plan_def loop_head_def record_result_def numeral_2_eq_2)
  then show ?thesis unfolding demo_trial_def by auto
qed

theorem trial_accounting_witness:
  "mset (map tr_request_index (results demo_trial) @ in_flight_indices demo_trial) = mset [0..<global_counter demo_trial]"
  using trial_accounting [OF trial_run_reachable [OF demo_run]] by (simp add: demo_plan_def del: mset_append mset_upt)

lemma decimal_mono: "m \<le> n \<Longrightarrow> length (decimal m) \<le> length (decimal n)"
proof (induction n arbitrary: m rule: decimal.induct)
  case (1 n)
  show ?case
  proof (cases "m < 10")
    case True
    then show ?thesis by (subst decimal.simps) (simp add: Suc_leI)
  next
    case False
    with 1 have "length (decimal (m div 10)) \<le> length (decimal (n div 10))" by (simp add: div_le_mono)
    with False "1.prems" show ?thesis by (simp add: decimal.simps [of m] decimal.simps [of n])
  qed
qed

lemma decimal_request_chars: "list_all request_id_char (decimal n)"
  by (auto simp: list_all_iff request_id_char_def dest: decimal_digits)

text \<open>A payload with one acceptable input, the model's version and a timeout in bounds is valid.\<close>

lemma single_input_valid:
  assumes "item_ok documented_config x" "list_all request_id_char rid" "1 \<le> length rid" "length rid \<le> 64"
    "100 \<le> timeout_ms" "timeout_ms \<le> 10000"
  shows "validate documented_config fresh (Some (JObj
      [(str ''request_id'', JStr rid), (str ''inputs'', JArr [JStr x]),
       (str ''model_version'', JStr (str ''tinybert-sst2-v1'')), (str ''timeout_ms'', JInt timeout_ms)]))
    = Inr \<lparr>v_request_id = rid, v_inputs = [x], v_model_version = str ''tinybert-sst2-v1'', v_timeout_ms = timeout_ms\<rparr>"
proof -
  have "request_id_match rid" unfolding request_id_match_iff using assms(2-4) by blast
  moreover have "utf8_size x \<le> 4096" using assms(1) by (simp add: item_ok_def documented_config_def)
  ultimately have "valid_payload documented_config fresh
      [(str ''request_id'', JStr rid), (str ''inputs'', JArr [JStr x]),
       (str ''model_version'', JStr (str ''tinybert-sst2-v1'')), (str ''timeout_ms'', JInt timeout_ms)]
      \<lparr>v_request_id = rid, v_inputs = [x], v_model_version = str ''tinybert-sst2-v1'', v_timeout_ms = timeout_ms\<rparr>"
    using assms
    by (simp add: valid_payload_def id_resolves_def inputs_accepted_def timeout_read_def allowed_keys_def total_size_def)
      (simp add: documented_config_def)
  then show ?thesis unfolding validate_Inr by blast
qed

text \<open>
  C36: The gateway accepts what the load generator posts. For texts that are acceptable inputs, as the
  corpus's are, and a trial id of the request id's alphabet that leaves room for the number, every payload
  ever posted passes the gateway's validation, with its one input and the timeout of 5000 ms.
\<close>

theorem benchmark_requests_accepted:
  assumes "trial_reachable p s" "pl_texts p \<noteq> []"
    "\<forall>text \<in> set (pl_texts p). \<exists>x. text = JStr x \<and> item_ok documented_config x"
    "list_all request_id_char (pl_trial_id p)"
    "length (pl_trial_id p) + length (decimal (global_counter s)) \<le> 60"
    "payload \<in> set (posted s)"
  shows "\<exists>v x. validate documented_config fresh (Some payload) = Inr v \<and> JStr x \<in> set (pl_texts p)
    \<and> v_inputs v = [x] \<and> v_timeout_ms v = 5000"
proof -
  have posts: "posts_ok p s" using trial_accounted [OF assms(1,2)] by (simp add: accounted_def)
  then obtain i tx where i: "i < global_counter s" "tx \<in> set (pl_texts p)"
    "payload = request_payload (pl_trial_id p) i tx"
    using assms(6) by (auto simp: posts_ok_def in_set_conv_nth)
  obtain x where x: "tx = JStr x" "item_ok documented_config x" using assms(3) i(2) by blast
  let ?rid = "str ''bm-'' @ pl_trial_id p @ str ''-'' @ decimal i"
  have "length ?rid \<le> 64" using assms(5) decimal_mono [of i "global_counter s"] i(1) by simp
  moreover have "list_all request_id_char ?rid"
    using assms(4) decimal_request_chars [of i] by (simp add: str_def request_id_char_def)
  ultimately show ?thesis
    using single_input_valid [OF x(2), of ?rid 5000 fresh] i x by (auto simp: request_payload_def)
qed

theorem benchmark_requests_accepted_witness:
  "\<exists>v. validate documented_config [] (Some (request_payload (str ''t1'') 1 (JStr (str ''a'')))) = Inr v \<and> v_timeout_ms v = 5000"
proof -
  have ok: "\<forall>text \<in> set (pl_texts demo_plan). \<exists>x. text = JStr x \<and> item_ok documented_config x"
    by (simp add: demo_plan_def item_ok_def utf8_size_def surrogate_def documented_config_def str_def)
  have "global_counter demo_trial = 3 \<and> request_payload (str ''t1'') 1 (JStr (str ''a'')) \<in> set (posted demo_trial)"
    by (simp add: demo_trial_def demo_events_def start_trial_def demo_plan_def loop_head_def record_result_def numeral_2_eq_2)
  then show ?thesis
    using benchmark_requests_accepted [OF trial_run_reachable [OF demo_run] _ ok, of "request_payload (str ''t1'') 1 (JStr (str ''a''))" "[]"]
    by (auto simp: demo_plan_def str_def request_id_char_def decimal.simps)
qed

section \<open>What the load generator records of the gateway's answers\<close>

text \<open>
  The load generator records the gateway's answers for what they are. Of every response to a prediction
  request it records the status; of a success the worker and the attempt that answered and no error; of an
  error the stable code in its body, from which the status follows.
\<close>

lemma gateway_answers_recorded:
  assumes "handle_request c env fallback clock r s = (Inr resp, t)" "is_predict r"
  shows "\<exists>j m. content_json (hr_content resp) = Some j \<and> m = measure_outcome (Responded (int (hr_status resp)) (Inr j))
    \<and> m_status m = int (hr_status resp)
    \<and> (hr_status resp = 200 \<longrightarrow> (\<exists>pc. hr_content resp = PredictContent pc \<and> m_worker m = JStr (pc_worker_id pc)
          \<and> m_attempts m = JInt (int (pc_attempts pc)) \<and> m_error m = JNull))
    \<and> (hr_status resp \<noteq> 200 \<longrightarrow> (\<exists>code. m_error m = JStr (str code) \<and> hr_status resp = status_of_code code))"
  using handle_request_cases [OF assms]
proof
  assume "relays c env (ht_body r) (add_active 1 s) resp"
  then obtain pc where "hr_status resp = 200" "hr_content resp = PredictContent pc" by (auto simp: relays_def)
  then show ?thesis
    by (simp add: content_json_def measure_outcome_def read_success_def unmeasured_def dict_get_def Let_def)
next
  assume "error_shape resp"
  then obtain rid b where b: "hr_content resp = ErrorContent rid b" "hr_status resp = status_of_code (eb_code b)"
    "hr_status resp \<in> {400, 413, 429, 500, 503, 504}"
    unfolding error_shape_def by blast
  then have "hr_status resp \<noteq> 200" by auto
  with b show ?thesis
    by (simp add: content_json_def measure_outcome_def error_code_def unmeasured_def dict_get_def Let_def
        del: status_of_code.simps)
qed

theorem gateway_answers_recorded_witness:
  "m_error (measure_outcome (Responded 400 (Inr (the (content_json
      (hr_content (error_response [] (InvalidRequestError ''Invalid JSON payload.''))))))))
    = JStr (str ''INVALID_REQUEST'')"
proof -
  obtain t where t: "handle_request documented_config (json_env None) (\<lambda>_. health_live) (\<lambda>_. 0)
      plain_request (open_gateway True) =
      (Inr (error_response [] (InvalidRequestError ''Invalid JSON payload.'')), t)"
    using no_worker_response by blast
  from gateway_answers_recorded [OF t plain_is_predict] show ?thesis
    by (auto simp: error_response_def content_json_def to_dict_def measure_outcome_def error_code_def dict_get_def)
qed

section \<open>The summary\<close>

text \<open>
  A percentile is the nearest rank: of a non-empty list of data and a fraction up to 1, \<open>percentile\<close>
  gives exactly the least datum that at least that fraction of the data does not exceed.
\<close>

lemma percentile_is_nearest_rank:
  assumes "data \<noteq> []" "0 < pct" "pct \<le> 1"
  shows "percentile data pct = x \<longleftrightarrow> nearest_rank data pct x"
  using percentile_nearest_rank [OF assms] nearest_rank_unique by blast

theorem percentile_is_nearest_rank_witness:
  "percentile [5, 1, 4, 2, 3] (95 / 100) = 5 \<and> percentile [5, 1, 4, 2, 3] (1 / 2) = 3"
proof -
  have "nearest_rank [5, 1, 4, 2, 3] (95 / 100) 5" "nearest_rank [5, 1, 4, 2, 3] (1 / 2) 3"
    by (simp_all add: nearest_rank_def rank_def)
  with percentile_is_nearest_rank [of "[5, 1, 4, 2, 3]" "95 / 100" 5] percentile_is_nearest_rank [of "[5, 1, 4, 2, 3]" "1 / 2" 3]
  show ?thesis by simp
qed

text \<open>Rounding keeps the order.\<close>

lemma round_half_even_mono:
  assumes "x \<le> y"
  shows "round_half_even x \<le> round_half_even y"
proof (cases "\<lfloor>x\<rfloor> = \<lfloor>y\<rfloor>")
  case True
  with assms show ?thesis by (auto simp: round_half_even_def Let_def)
next
  case False
  with floor_mono [OF assms] have "\<lfloor>x\<rfloor> + 1 \<le> \<lfloor>y\<rfloor>" by linarith
  moreover have "round_half_even x \<le> \<lfloor>x\<rfloor> + 1" "\<lfloor>y\<rfloor> \<le> round_half_even y"
    by (simp_all add: round_half_even_def Let_def)
  ultimately show ?thesis by linarith
qed

lemma py_round2_mono: "x \<le> y \<Longrightarrow> py_round2 x \<le> py_round2 y"
  by (simp add: py_round2_def divide_right_mono round_half_even_mono)

lemma decimal_inj: "decimal m = decimal n \<longleftrightarrow> m = n"
  by (metis py_digits_decimal of_nat_eq_iff option.inject)

lemma int_repr_inj: "int_repr i = int_repr j \<longleftrightarrow> i = j"
proof -
  have "decimal m \<noteq> 45 # decimal n" for m n
    using decimal_digits [of 45 m] by auto
  then show ?thesis by (auto simp: int_repr_def decimal_inj dest: sym)
qed

text \<open>A record the benchmark can write so that the summary can read it.\<close>

definition recordable :: "(pyfloat \<Rightarrow> pystr) \<Rightarrow> trial_record \<Rightarrow> bool" where
  "recordable float_repr r \<longleftrightarrow>
     readable float_repr (trial_json r) \<and> (\<forall>x \<in> floats (trial_json r). printable (float_repr x)) \<and>
     (\<exists>x. m_queue_ms (tr_measured r) = JFloat x) \<and> (\<exists>x. m_inference_ms (tr_measured r) = JFloat x) \<and>
     (\<exists>n. m_attempts (tr_measured r) = JInt n) \<and>
     (m_worker (tr_measured r) = JNull \<or> (\<exists>w. m_worker (tr_measured r) = JStr w))"

abbreviation succeeded :: "trial_record \<Rightarrow> bool" where
  "succeeded r \<equiv> m_status (tr_measured r) = 200"

lemma trial_fields:
  "json_field ''http_status'' (trial_json r) = Some (JInt (m_status (tr_measured r)))"
  "json_field ''started_ns'' (trial_json r) = Some (JInt (tr_started_ns r))"
  "json_field ''duration_ms'' (trial_json r) = Some (JFloat (tr_duration_ms r))"
  "json_field ''queue_ms'' (trial_json r) = Some (m_queue_ms (tr_measured r))"
  "json_field ''inference_ms'' (trial_json r) = Some (m_inference_ms (tr_measured r))"
  "json_field ''attempts'' (trial_json r) = Some (m_attempts (tr_measured r))"
  "json_field ''worker_id'' (trial_json r) = Some (m_worker (tr_measured r))"
  unfolding json_field_def trial_json_def json.case by simp_all

lemma trial_numbers:
  "num_field ''started_ns'' (trial_json r) = Some (of_int (tr_started_ns r))"
  "num_field ''duration_ms'' (trial_json r) = Some (tr_duration_ms r)"
  by (simp_all add: num_field_def trial_fields json_num_def)

lemma those_map_the: "(\<And>x. x \<in> set xs \<Longrightarrow> f x \<noteq> None) \<Longrightarrow> those (map f xs) = Some (map (\<lambda>x. the (f x)) xs)"
  by (rule those_map_Some) auto

lemma successful_trials:
  "map fst (filter (\<lambda>(r, j). json_num j = Some 200) (zip (map trial_json rs) (map (\<lambda>r. JInt (m_status (tr_measured r))) rs)))
     = map trial_json (filter succeeded rs)"
  by (induction rs) (auto simp: json_num_def)

lemma recordable_reads:
  assumes "recordable float_repr r"
  shows "num_field ''queue_ms'' (trial_json r) \<noteq> None" "num_field ''inference_ms'' (trial_json r) \<noteq> None"
    "worker_of (trial_json r) \<noteq> None" "attempts_of (trial_json r) \<noteq> None"
  using assms
  by (auto simp: recordable_def num_field_def trial_fields json_num_def worker_of_def attempts_of_def falsy_def)

text \<open>The summary of a trial's records, with everything it counts.\<close>

lemma summarize_trial_records:
  assumes "\<forall>r \<in> set rs. recordable float_repr r"
  shows "\<exists>t worker_ids. summarize_records float_repr (map trial_json rs) None = Some t \<and>
    total_requests t = length rs \<and> success_count t = length (filter succeeded rs) \<and>
    status_counts t = count_keys (map (\<lambda>r. int_repr (m_status (tr_measured r))) rs) \<and>
    worker_counts t = count_keys worker_ids \<and> length worker_ids = length (filter succeeded rs) \<and>
    p50_latency_ms t = py_round2 (percentile (map tr_duration_ms (filter succeeded rs)) (50 / 100)) \<and>
    p95_latency_ms t = py_round2 (percentile (map tr_duration_ms (filter succeeded rs)) (95 / 100)) \<and>
    p99_latency_ms t = py_round2 (percentile (map tr_duration_ms (filter succeeded rs)) (99 / 100))"
proof -
  let ?ok = "filter succeeded rs"
  have reads: "\<And>r. r \<in> set rs \<Longrightarrow> recordable float_repr r" using assms by blast
  have statuses: "those (map (json_field ''http_status'') (map trial_json rs)) = Some (map (\<lambda>r. JInt (m_status (tr_measured r))) rs)"
    unfolding map_map comp_def by (rule those_map_Some) (rule trial_fields(1))
  have starts: "those (map (num_field ''started_ns'') (map trial_json rs)) = Some (map (\<lambda>r. of_int (tr_started_ns r)) rs)"
    unfolding map_map comp_def by (rule those_map_Some) (rule trial_numbers(1))
  have latencies: "those (map (num_field ''duration_ms'') (map trial_json ?ok)) = Some (map tr_duration_ms ?ok)"
    unfolding map_map comp_def by (rule those_map_Some) (rule trial_numbers(2))
  have texts: "those (map (status_text float_repr) (map (\<lambda>r. JInt (m_status (tr_measured r))) rs))
      = Some (map (\<lambda>r. int_repr (m_status (tr_measured r))) rs)"
    unfolding map_map comp_def by (rule those_map_Some) (simp add: status_text_def)
  obtain worker_ids where workers: "those (map worker_of (map trial_json ?ok)) = Some worker_ids" "length worker_ids = length ?ok"
    using those_map_the [of "map trial_json ?ok" worker_of] recordable_reads(3) reads by fastforce
  obtain attempts where attempts: "those (map attempts_of (map trial_json rs)) = Some attempts"
    using those_map_the [of "map trial_json rs" attempts_of] recordable_reads(4) reads by fastforce
  obtain queue where queue: "those (map (num_field ''queue_ms'') (map trial_json ?ok)) = Some queue"
    using those_map_the [of "map trial_json ?ok" "num_field ''queue_ms''"] recordable_reads(1) reads by fastforce
  obtain inference where inference: "those (map (num_field ''inference_ms'') (map trial_json ?ok)) = Some inference"
    using those_map_the [of "map trial_json ?ok" "num_field ''inference_ms''"] recordable_reads(2) reads by fastforce
  show ?thesis
    unfolding summarize_records_def statuses Option.bind.bind_lunit Let_def successful_trials starts latencies texts
      workers(1) attempts queue inference resource_summary_def
    using workers(2) by (simp del: filter.simps map_map) blast
qed

lemma length_filter_statuses:
  "count_list (map (\<lambda>r. int_repr (m_status (tr_measured r))) rs) (int_repr st)
     = length (filter (\<lambda>r. m_status (tr_measured r) = st) rs)"
  by (induction rs) (auto simp: int_repr_inj)

lemma saved_results_read:
  assumes "\<forall>r \<in> set (results s). recordable float_repr r" "save_results float_repr output s = Some (path, content)"
  shows "read_jsonl content = Some (map trial_json (results s))"
proof -
  have "content = write_jsonl float_repr (map trial_json (results s))"
    using assms(2) by (simp add: save_results_def split: if_splits)
  with assms(1) show ?thesis by (auto simp: recordable_def intro!: read_write_jsonl)
qed

text \<open>
  C35: The summary of a finished trial is the summary of what was posted. From the file the load generator
  saves, the summary script reads as many requests as were posted; the success count is the number of
  200s; the count under each status is the number of records with it, and these counts and those of the
  workers add up; and the latency percentiles are in order.
\<close>

theorem trial_summarised:
  assumes "trial_reachable p s" "pl_texts p \<noteq> []" "trial_over s" "results s \<noteq> []"
    "\<forall>r \<in> set (results s). recordable float_repr r" "save_results float_repr output s = Some (path, content)"
  shows "\<exists>t. summarize_trial float_repr (Some content) None = Some (Summary t)
    \<and> total_requests t = length (posted s) \<and> success_count t = length (filter succeeded (results s))
    \<and> (\<forall>st. count_of (status_counts t) (int_repr st) = length (filter (\<lambda>r. m_status (tr_measured r) = st) (results s)))
    \<and> sum_list (map snd (status_counts t)) = total_requests t \<and> sum_list (map snd (worker_counts t)) = success_count t
    \<and> p50_latency_ms t \<le> p95_latency_ms t \<and> p95_latency_ms t \<le> p99_latency_ms t"
proof -
  obtain t worker_ids where t: "summarize_records float_repr (map trial_json (results s)) None = Some t"
    "total_requests t = length (results s)" "success_count t = length (filter succeeded (results s))"
    "status_counts t = count_keys (map (\<lambda>r. int_repr (m_status (tr_measured r))) (results s))"
    "worker_counts t = count_keys worker_ids" "length worker_ids = length (filter succeeded (results s))"
    "p50_latency_ms t = py_round2 (percentile (map tr_duration_ms (filter succeeded (results s))) (50 / 100))"
    "p95_latency_ms t = py_round2 (percentile (map tr_duration_ms (filter succeeded (results s))) (95 / 100))"
    "p99_latency_ms t = py_round2 (percentile (map tr_duration_ms (filter succeeded (results s))) (99 / 100))"
    using summarize_trial_records [OF assms(5)] by blast
  have "in_flight_indices s = []"
    using assms(3) by (auto simp: trial_over_def in_flight_indices_def list_all_iff)
  then have "mset (map tr_request_index (results s)) = mset [0..<global_counter s]" "length (posted s) = global_counter s"
    using trial_accounted [OF assms(1,2)] by (simp_all add: accounted_def posts_ok_def)
  then have "length (results s) = length (posted s)" by (metis length_map length_upt mset_eq_length minus_nat.diff_0)
  moreover have "summarize_trial float_repr (Some content) None = Some (Summary t)"
    using saved_results_read [OF assms(5,6)] assms(4) t(1) by (simp add: summarize_trial_def)
  ultimately show ?thesis
    by (intro exI [of _ t]) (simp add: t(2-) count_of_count_keys length_filter_statuses sum_count_keys py_round2_mono percentile_mono)
qed

lemma cents_round [simp]: "float_text cents_repr (py_round2 x)"
  unfolding py_round2_def by (rule float_text_cents)

lemma cents_numerals: "float_text cents_repr 0" "float_text cents_repr (1 / 2)" "float_text cents_repr 3"
  using float_text_cents [of 0] float_text_cents [of 50] float_text_cents [of 300] by simp_all

lemma demo_results:
  "\<exists>d1 d2 d3. results demo_trial =
     [\<lparr>tr_trial_id = str ''t1'', tr_request_index = 1, tr_started_ns = 2000, tr_duration_ms = py_round2 d1,
       tr_measured = measure_outcome (Responded 429 (Inr (JObj [])))\<rparr>,
      \<lparr>tr_trial_id = str ''t1'', tr_request_index = 0, tr_started_ns = 1000, tr_duration_ms = py_round2 d2,
       tr_measured = measure_outcome (Responded 200 (Inr demo_answer))\<rparr>,
      \<lparr>tr_trial_id = str ''t1'', tr_request_index = 2, tr_started_ns = 4000, tr_duration_ms = py_round2 d3,
       tr_measured = measure_outcome (PostRaised ''ReadTimeout'')\<rparr>] \<and> trial_over demo_trial \<and> length (posted demo_trial) = 3"
  by (simp add: demo_trial_def demo_events_def start_trial_def demo_plan_def loop_head_def record_result_def trial_over_def
      numeral_2_eq_2) blast

lemma length_int_repr: "0 \<le> i \<Longrightarrow> i \<le> 4000 \<Longrightarrow> length (int_repr i) \<le> 4300"
  using length_decimal [of "nat i"] by (simp add: int_repr_def)

lemma demo_recordable: "\<forall>r \<in> set (results demo_trial). recordable cents_repr r"
proof -
  have measured: "measure_outcome (Responded 429 (Inr (JObj []))) = unmeasured\<lparr>m_status := 429\<rparr>"
    "measure_outcome (PostRaised ''ReadTimeout'') = failed ''ReadTimeout'' unmeasured"
    "measure_outcome (Responded 200 (Inr demo_answer)) = \<lparr>m_status = 200, m_error = JNull, m_worker = JStr (str ''worker-2''),
       m_attempts = JInt 2, m_queue_ms = JFloat (1 / 2), m_inference_ms = JFloat 3\<rparr>"
    by (simp_all add: measure_outcome_def error_code_def dict_get_def unmeasured_def read_success_def demo_answer_def)
  obtain d1 d2 d3 where r: "results demo_trial =
     [\<lparr>tr_trial_id = str ''t1'', tr_request_index = 1, tr_started_ns = 2000, tr_duration_ms = py_round2 d1,
       tr_measured = measure_outcome (Responded 429 (Inr (JObj [])))\<rparr>,
      \<lparr>tr_trial_id = str ''t1'', tr_request_index = 0, tr_started_ns = 1000, tr_duration_ms = py_round2 d2,
       tr_measured = measure_outcome (Responded 200 (Inr demo_answer))\<rparr>,
      \<lparr>tr_trial_id = str ''t1'', tr_request_index = 2, tr_started_ns = 4000, tr_duration_ms = py_round2 d3,
       tr_measured = measure_outcome (PostRaised ''ReadTimeout'')\<rparr>]"
    using demo_results by blast
  show ?thesis
    unfolding r measured
    by (simp add: recordable_def trial_json_def printable_cents unmeasured_def failed_def length_int_repr cents_numerals)
      (rule exI [of _ "1 / 2"], simp)
qed

theorem trial_summarised_witness:
  "\<exists>t content. summarize_trial cents_repr (Some content) None = Some (Summary t) \<and> total_requests t = 3 \<and> success_count t = 1"
proof -
  have over: "trial_over demo_trial" "length (posted demo_trial) = 3" "results demo_trial \<noteq> []"
    "length (filter succeeded (results demo_trial)) = 1"
    using demo_results
    by (auto simp: measure_outcome_def error_code_def dict_get_def unmeasured_def failed_def read_success_def demo_answer_def)
  have "dirname (str ''out/t1.ndjson'') \<noteq> []" by (simp add: dirname_def str_def)
  then obtain path content where saved: "save_results cents_repr (str ''out/t1.ndjson'') demo_trial = Some (path, content)"
    by (simp add: save_results_def)
  have "pl_texts demo_plan \<noteq> []" by (simp add: demo_plan_def)
  from trial_summarised [OF trial_run_reachable [OF demo_run] this over(1,3) demo_recordable saved] over(2,4)
  show ?thesis by metis
qed

text \<open>
  An output path without a directory loses the run. For a path without a slash the load generator
  raises when its trial is over and nothing is saved, whatever was recorded; and so do the sampler, before
  its first sample, and the summary's report.
\<close>

lemma bare_output_loses_results:
  assumes "47 \<notin> set output" "output \<noteq> []"
  shows "save_results float_repr output s = None \<and> write_report isprintable float_repr (Some output) summary = None \<and>
    sample_resources float_repr output start_time duration rounds = None"
proof -
  have no_slash: "dropWhile (\<lambda>c. c \<noteq> 47) (rev output) = []" using assms(1) by (simp add: dropWhile_eq_Nil_conv) auto
  have "dirname output = []" unfolding dirname_def no_slash Let_def by simp
  then show ?thesis using assms(2) by (simp add: save_results_def write_report_def sample_resources_def)
qed

theorem bare_output_loses_results_witness:
  "save_results cents_repr (str ''trial.ndjson'') demo_trial = None"
  using bare_output_loses_results [of "str ''trial.ndjson''" cents_repr demo_trial] by (simp add: str_def)

section \<open>The model download\<close>

text \<open>
  C38: A download never leaves an unverified file in place. However the servers answer, and wherever the run
  stops, every file of the list is at every moment what it was before the run, or has the expected digest;
  and no file is touched but these and their temporary ones.
\<close>

theorem downloads_safe:
  assumes "download_all sha256 servers FILES fs = (ok, states)" "fs' \<in> set states" "item \<in> set FILES"
  shows "(fs' (mf_path item) = fs (mf_path item) \<or> verified sha256 (mf_path item) (mf_sha256 item) fs')
    \<and> (\<forall>p. (\<forall>it \<in> set FILES. p \<noteq> mf_path it \<and> p \<noteq> temp_path (mf_path it)) \<longrightarrow> fs' p = fs p)"
  using download_all_safe [OF assms(1,2) FILES_separate assms(3)] download_all_other [OF assms(1,2)] by blast

text \<open>A server that breaks off after one byte, over an empty file system.\<close>

lemma broken_download:
  "\<exists>states. download_all (\<lambda>bs. []) (\<lambda>url. Interrupted [7]) FILES (\<lambda>p. None) = (False, states) \<and>
     (\<lambda>p. None)(temp_path (''artifacts/model'', ''model.onnx'') \<mapsto> [7]) \<in> set states"
  by (simp add: FILES_def download_file_def verify_iff Let_def)

theorem downloads_safe_witness:
  "((\<lambda>p. None)(temp_path (''artifacts/model'', ''model.onnx'') \<mapsto> [7])) (''artifacts/model'', ''model.onnx'') = None"
proof -
  obtain states where states: "download_all (\<lambda>bs. []) (\<lambda>url. Interrupted [7]) FILES (\<lambda>p. None) = (False, states)"
    "(\<lambda>p. None)(temp_path (''artifacts/model'', ''model.onnx'') \<mapsto> [7]) \<in> set states"
    using broken_download by blast
  have item: "hd FILES \<in> set FILES" "mf_path (hd FILES) = (''artifacts/model'', ''model.onnx'')" "mf_sha256 (hd FILES) \<noteq> []"
    by (simp_all add: FILES_def)
  from downloads_safe [OF states item(1)] show ?thesis unfolding item(2) by (auto simp: verified_def)
qed

text \<open>
  A download that ends well is complete, and need not be repeated: if no file raises, every file of the
  list has its digest at the end; and a run over such files succeeds without asking a server and leaves the
  file system as it is.
\<close>

lemma downloads_complete:
  assumes "download_all sha256 servers FILES fs = (True, states)"
  shows "(\<forall>item \<in> set FILES. verified sha256 (mf_path item) (mf_sha256 item) (last states))
    \<and> download_all sha256 servers' FILES (last states) = (True, replicate (Suc (length FILES)) (last states))"
proof -
  have "\<forall>item \<in> set FILES. verified sha256 (mf_path item) (mf_sha256 item) (last states)"
    using download_all_ok [OF assms FILES_separate] by blast
  with download_all_again [OF this] show ?thesis by blast
qed

theorem downloads_complete_witness:
  "download_all toy_digest (\<lambda>url. Refused) FILES served_files = (True, replicate (Suc (length FILES)) served_files)"
  using downloads_complete [OF download_all_again [OF served_verified, of "\<lambda>url. Refused"], of "\<lambda>url. Refused"] FILES_ne by simp

section \<open>The resource file\<close>

lemma in_py_strip: "c \<in> set (py_strip s) \<Longrightarrow> c \<in> set s"
  by (auto simp: py_strip_def dest!: set_dropWhileD)

lemma in_split_on: "p \<in> set (split_on c s) \<Longrightarrow> x \<in> set p \<Longrightarrow> x \<in> set s"
  by (induction s arbitrary: p) (fastforce split: if_splits list.splits)+

lemma in_splitlines: "l \<in> set (py_splitlines s) \<Longrightarrow> x \<in> set l \<Longrightarrow> \<not> line_break x"
proof (induction s arbitrary: l rule: py_splitlines.induct)
  case (2 c s)
  then show ?case by (fastforce split: if_splits list.splits)
qed simp

text \<open>The rows of a sample: the timestamp, a name without a line break, and three numbers.\<close>

definition sampled_row :: "(pyfloat \<Rightarrow> pystr) \<Rightarrow> pystr list \<Rightarrow> bool" where
  "sampled_row float_repr row \<longleftrightarrow>
     (\<exists>ts name cpu mem limit. row = [ts, name, float_repr cpu, int_repr mem, int_repr limit] \<and> 13 \<notin> set name)"

lemma stats_row_sampled:
  assumes "stats_row float_repr ts line = Some rows" "row \<in> set rows" "13 \<notin> set line"
  shows "sampled_row float_repr row \<and> hd row = ts"
proof -
  from assms(1,2) obtain a b c rest where s: "split_on 44 line = a # b # c # rest"
    by (auto simp: stats_row_def split: list.splits)
  have "13 \<notin> set (py_strip a)" using in_py_strip [of 13 a] in_split_on [of a 44 line 13] assms(3) s by auto
  with assms(1,2) s show ?thesis
    by (auto simp: stats_row_def sampled_row_def Let_def split: option.splits prod.splits if_splits)
qed

lemma sample_lines_sampled:
  assumes "row \<in> set (sample_lines float_repr ts lines)" "\<forall>l \<in> set lines. 13 \<notin> set l"
  shows "sampled_row float_repr row \<and> hd row = ts"
  using assms
proof (induction lines)
  case (Cons l lines)
  then show ?case
    by (cases "stats_row float_repr ts l") (auto split: if_splits dest: stats_row_sampled)
qed simp

lemma sampled_rows:
  assumes "row \<in> set (sampled float_repr start_time duration rounds)" "\<forall>r \<in> set rounds. 13 \<notin> set (sa_timestamp r)"
  shows "sampled_row float_repr row \<and> 13 \<notin> set (hd row)"
proof -
  obtain r out where r: "r \<in> set rounds" "sa_output r = Some out"
    "row \<in> set (sample_lines float_repr (sa_timestamp r) (py_splitlines (py_strip out)))"
  proof -
    obtain r where r: "r \<in> set rounds" "row \<in> set (sample_rows float_repr r)"
      using assms(1) by (auto simp: sampled_def dest: set_takeWhileD)
    then show ?thesis using that by (cases "sa_output r") (auto simp: sample_rows_def)
  qed
  have "\<forall>l \<in> set (py_splitlines (py_strip out)). 13 \<notin> set l"
    using in_splitlines by (fastforce simp: line_break_def)
  from sample_lines_sampled [OF r(3) this] assms(2) r(1) show ?thesis by auto
qed

lemma py_float_decimal: "py_float (decimal n) = Some (of_nat n)"
proof -
  have d: "list_all is_digit (decimal n)" by (rule decimal_is_digit)
  have strip: "py_strip (decimal n) = decimal n"
    by (rule py_strip_trimmed) (simp_all add: decimal_not_space [OF hd_in_set] decimal_not_space [OF last_in_set])
  have under: "list_all is_digit s \<Longrightarrow> underscores_ok b s" "list_all is_digit s \<Longrightarrow> filter (\<lambda>c. c \<noteq> 95) s = s" for b s
    by (induction s arbitrary: b) (auto simp: is_digit_def)
  obtain c r where c: "decimal n = c # r" by (cases "decimal n") auto
  then have "c \<noteq> 45" "c \<noteq> 43" "c \<noteq> 95" using d by (auto simp: is_digit_def)
  moreover have "unsigned_float False (decimal n) = Some (of_nat n)"
  proof -
    have "takeWhile is_digit (decimal n) = decimal n" "dropWhile is_digit (decimal n) = []"
      using takeWhile_digits [OF d, of "[]"] by (simp_all add: stops_def)
    note parts = this
    show ?thesis
      unfolding unsigned_float_def parts Let_def
      using digits_value_decimal [of n "[]"] by (simp add: scan_exponent_def float_value_def)
  qed
  ultimately show ?thesis using under [OF d] strip c by (simp add: py_float_def Let_def)
qed

lemma py_float_int_repr: "0 \<le> i \<Longrightarrow> py_float (int_repr i) = Some (of_int i)"
  using py_float_decimal [of "nat i"] by (simp add: int_repr_def)

text \<open>What the summary reads from a row.\<close>

lemma dict_reader_sampled:
  assumes "\<forall>row \<in> set (sampled float_repr start_time duration rounds). length row = 5 \<and> (\<forall>f \<in> set row. 13 \<notin> set f)"
  shows "dict_reader (sample_file float_repr start_time duration rounds) =
    map (\<lambda>row. zip header_row (map Some row)) (sampled float_repr start_time duration rounds)"
proof -
  let ?rows = "sampled float_repr start_time duration rounds"
  have header: "header_row \<noteq> []" "length header_row = 5" "distinct header_row" "\<forall>f \<in> set header_row. 13 \<notin> set f"
    by (simp_all add: header_row_def str_def)
  have rows: "\<forall>row \<in> set (header_row # ?rows). row \<noteq> [] \<and> (\<forall>f \<in> set row. 13 \<notin> set f)"
    using assms header by fastforce
  then have "filter (\<lambda>row. row \<noteq> []) (header_row # ?rows) = header_row # ?rows" by (intro filter_True) blast
  then have "dict_reader (sample_file float_repr start_time duration rounds) = map (dict_row header_row) ?rows"
    by (simp only: dict_reader_def sample_file_def csv_rows_written [OF rows] list.case)
  also have "\<dots> = map (\<lambda>row. zip header_row (map Some row)) ?rows"
    using assms header(2,3) by (intro map_cong) (simp_all add: dict_row_distinct)
  finally show ?thesis .
qed

lemma sampled_fields:
  "float_field ''cpu_percent'' (zip header_row [Some a, Some b, Some c, Some d, Some e]) = py_float c"
  "float_field ''memory_bytes'' (zip header_row [Some a, Some b, Some c, Some d, Some e]) = py_float d"
  by (simp_all add: float_field_def header_row_def)

definition readable_row :: "pystr list \<Rightarrow> bool" where
  "readable_row row \<longleftrightarrow> length row = 5 \<and> (\<forall>f \<in> set row. 13 \<notin> set f) \<and> py_float (row ! 2) \<noteq> None \<and>
     (\<exists>mem \<ge> 0. row ! 3 = int_repr mem)"

lemma sampled_readable:
  assumes "row \<in> set (sampled float_repr start_time duration rounds)" "\<forall>r \<in> set rounds. 13 \<notin> set (sa_timestamp r)"
    "py_float (row ! 2) \<noteq> None" "13 \<notin> set (row ! 2)" "\<exists>mem \<ge> 0. row ! 3 = int_repr mem"
  shows "readable_row row"
proof -
  obtain ts name cpu mem limit where r: "row = [ts, name, float_repr cpu, int_repr mem, int_repr limit]"
    "13 \<notin> set name" "13 \<notin> set ts"
    using sampled_rows [OF assms(1,2)] by (auto simp: sampled_row_def)
  moreover have "13 \<notin> set (int_repr i)" for i
    using printable_int_repr [of i] by (auto simp: printable_def list_all_iff)
  ultimately show ?thesis using assms(3-5) by (auto simp: readable_row_def)
qed

lemma readable_row_fields:
  assumes "readable_row row"
  shows "float_field ''cpu_percent'' (zip header_row (map Some row)) = Some (the (py_float (row ! 2)))"
    "float_field ''memory_bytes'' (zip header_row (map Some row)) = Some (the (py_float (row ! 3)))"
proof -
  obtain a b c d e where "row = [a, b, c, d, e]"
    using assms by (auto simp: readable_row_def eval_nat_numeral length_Suc_conv)
  moreover have "py_float (row ! 3) \<noteq> None"
    using assms py_float_int_repr by (fastforce simp: readable_row_def)
  ultimately show "float_field ''cpu_percent'' (zip header_row (map Some row)) = Some (the (py_float (row ! 2)))"
    "float_field ''memory_bytes'' (zip header_row (map Some row)) = Some (the (py_float (row ! 3)))"
    using assms by (auto simp: sampled_fields readable_row_def)
qed

text \<open>
  C40: The summary reads the sampler's file back. Whatever the containers are called, the average and the
  peak it reports are the mean of the processor shares and the maximum of the memory sizes of the rows the
  sampler wrote, for shares whose text \<open>float\<close> reads and sizes that are not negative.
\<close>

theorem resource_file_summarised:
  assumes "\<forall>r \<in> set rounds. 13 \<notin> set (sa_timestamp r)" "rows = sampled float_repr start_time duration rounds"
    "\<forall>row \<in> set rows. py_float (row ! 2) \<noteq> None \<and> 13 \<notin> set (row ! 2) \<and> (\<exists>mem \<ge> 0. row ! 3 = int_repr mem)"
  shows "resource_summary (Some (sample_file float_repr start_time duration rounds)) =
    Some (if rows = [] then 0 else sum_list (map (\<lambda>row. the (py_float (row ! 2))) rows) / of_nat (length rows),
          if rows = [] then 0 else Max (set (map (\<lambda>row. the (py_float (row ! 3))) rows)) / (1024 * 1024))"
proof -
  have rows: "readable_row row" if "row \<in> set rows" for row
    using sampled_readable [OF that [unfolded assms(2)] assms(1)] assms(3) that by blast
  have reader: "dict_reader (sample_file float_repr start_time duration rounds) = map (\<lambda>row. zip header_row (map Some row)) rows"
    unfolding assms(2) by (rule dict_reader_sampled) (use rows in \<open>auto simp: readable_row_def assms(2)\<close>)
  have "those (map (float_field ''cpu_percent'') (map (\<lambda>row. zip header_row (map Some row)) rows))
      = Some (map (\<lambda>row. the (py_float (row ! 2))) rows)"
    "those (map (float_field ''memory_bytes'') (map (\<lambda>row. zip header_row (map Some row)) rows))
      = Some (map (\<lambda>row. the (py_float (row ! 3))) rows)"
    unfolding map_map comp_def by (rule those_map_Some, rule readable_row_fields, erule rows)+
  then show ?thesis
    unfolding resource_summary_def option.case reader by simp
qed

definition demo_round :: sample_round where
  "demo_round = \<lparr>sa_now = 1, sa_timestamp = str ''T'', sa_output = Some (str ''w,0%,5B / 9B'')\<rparr>"

lemma demo_sampled: "sampled cents_repr 0 60 [demo_round] = [[str ''T'', str ''w'', cents_repr 0, int_repr 5, int_repr 9]]"
  by (simp add: sampled_def demo_round_def sample_rows_def stats_row_def py_strip_def py_isspace_def str_def line_break_def
      py_float_def unsigned_float_def is_digit_def scan_exponent_def float_value_def digits_value_def parse_bytes_def
      multipliers_def py_upper_def suffix_to_prefix py_trunc_def split_once_def Let_def)

lemma demo_floats: "py_float (cents_repr 0) = Some 0" "13 \<notin> set (cents_repr 0)"
  by (simp_all add: cents_repr_def cents_text_def decimal_zero py_float_def py_strip_def py_isspace_def unsigned_float_def
      is_digit_def scan_exponent_def float_value_def digits_value_def)

theorem resource_file_summarised_witness:
  "resource_summary (Some (sample_file cents_repr 0 60 [demo_round])) = Some (0, 5 / (1024 * 1024))"
proof -
  have "py_float (int_repr 5) = Some 5" using py_float_int_repr [of 5] by simp
  moreover have "\<forall>r \<in> set [demo_round]. 13 \<notin> set (sa_timestamp r)" by (simp add: demo_round_def str_def)
  moreover have "\<exists>mem \<ge> 0. int_repr 5 = int_repr mem" by (rule exI [of _ 5]) simp
  ultimately show ?thesis
    using resource_file_summarised [of "[demo_round]" _ cents_repr 0 60, OF _ demo_sampled [symmetric]] demo_floats
    by (simp add: numeral_2_eq_2 numeral_3_eq_3)
qed

section \<open>The failure scenario\<close>

text \<open>
  What a pass of the failure scenario says. It ends with its last line exactly when the gateway became
  ready within 30 polls, the first prediction was answered with predictions, the commands succeeded, none
  of the 20 replies during the outage came from the stopped worker, and the sentinel is nowhere in the
  logs; whether the worker was seen again after its restart makes no difference to the verdict.
\<close>

lemma scenario_passes_iff:
  "(\<exists>recovered. failure_scenario env = Passed recovered) \<longleftrightarrow>
     polled_ready env 30 \<and>
     (\<exists>d. http_post_predict env 0 = JObj d \<and> map_of d (str ''predictions'') \<noteq> None) \<and>
     se_commands env 0 \<noteq> None \<and> (\<forall>i \<in> {1..20}. not_from ''worker-1'' (http_post_predict env i)) \<and>
     se_commands env 1 \<noteq> None \<and> find_recovered env [21..<41] \<noteq> None \<and>
     (\<exists>logs. se_commands env 2 = Some logs \<and> \<not> py_contains (scenario_sentinel env) logs)"
  unfolding failure_scenario_passes wait_ready_iff by auto

text \<open>A gateway that answers the first prediction and nothing from then on.\<close>

definition silent_scenario :: scenario_env where
  "silent_scenario = \<lparr>se_time = 0, se_ready = (\<lambda>_. GetResponse 200 []),
     se_posts = (\<lambda>i. if i = 0 then Replied (JObj [(str ''predictions'', JArr [])]) else PostFailed []),
     se_commands = (\<lambda>_. Some [])\<rparr>"

theorem scenario_passes_iff_witness: "\<exists>recovered. failure_scenario silent_scenario = Passed recovered"
proof -
  have silent: "not_from w (http_post_predict silent_scenario i)" if "0 < i" for w i
    by (rule not_from_failed [of _ _ "[]"]) (use that in \<open>simp add: silent_scenario_def\<close>)
  then have "find_recovered silent_scenario [21..<41] = Some False"
    unfolding find_recovered_False by simp
  moreover have "\<not> py_contains (scenario_sentinel silent_scenario) []" by (simp add: scenario_sentinel_def)
  moreover have "\<exists>d. http_post_predict silent_scenario 0 = JObj d \<and> map_of d (str ''predictions'') \<noteq> None"
    by (simp add: http_post_predict_def silent_scenario_def)
  moreover have "polled_ready silent_scenario 30" "se_commands silent_scenario i = Some []" for i
    by (auto simp: silent_scenario_def polled_ready_def http_get_def intro!: exI [of _ 0])
  ultimately show ?thesis
    using silent by (intro scenario_passes_iff [THEN iffD2]) simp
qed

text \<open>So a gateway that answers nothing once the worker is stopped passes, with a warning.\<close>

lemma scenario_passes_without_answers:
  assumes "se_ready env 0 = GetResponse 200 []" "se_posts env 0 = Replied (JObj [(str ''predictions'', JArr [])])"
    "\<forall>i > 0. \<exists>m. se_posts env i = PostFailed m" "\<forall>i. se_commands env i = Some []"
  shows "failure_scenario env = Passed False"
proof -
  have "not_from w (http_post_predict env i)" if "0 < i" for w i
    using assms(3) that not_from_failed by blast
  then have "\<forall>i \<in> {1..20}. not_from ''worker-1'' (http_post_predict env i)" "find_recovered env [21..<41] = Some False"
    unfolding find_recovered_False by simp_all
  moreover have "\<not> py_contains (scenario_sentinel env) []" by (simp add: scenario_sentinel_def)
  moreover have "\<exists>d. http_post_predict env 0 = JObj d \<and> map_of d (str ''predictions'') \<noteq> None"
    by (simp add: http_post_predict_def assms(2))
  moreover have "polled_ready env 30" using assms(1) by (auto simp: polled_ready_def http_get_def intro!: exI [of _ 0])
  ultimately show ?thesis using assms(4) unfolding failure_scenario_passes wait_ready_iff by simp
qed

section \<open>From the scenario's request to the gateway's validation\<close>

lemma utf8_encode_printable: "printable s \<Longrightarrow> utf8_encode s = Some s"
  by (induction s) (simp_all add: utf8_char_def)

lemma length_dumps_str: "length (dumps_str s) \<le> 12 * length s + 2"
proof -
  have "length (escape c) \<le> 12" for c by (simp add: escape_def hex4_def)
  then have "length (concat (map escape s)) \<le> 12 * length s"
    by (induction s) (auto intro: add_mono)
  then show ?thesis by (simp add: dumps_str_def)
qed

lemma sentinel_printable: "printable (scenario_sentinel env)"
  using printable_int_repr [of "int (se_time env)"]
  by (simp add: scenario_sentinel_def str_def int_repr_def)

lemma sentinel_ok: "length (decimal (se_time env)) \<le> 50 \<Longrightarrow> item_ok documented_config (scenario_sentinel env)"
  using utf8_size_printable [OF sentinel_printable, of env]
  by (simp add: item_ok_def documented_config_def) (simp add: scenario_sentinel_def)

lemma unpaired_printable: "printable s \<Longrightarrow> unpaired s"
  by (rule unpaired_small) (auto simp: printable_def list_all_iff)

lemma payload_readable:
  assumes "length (decimal (se_time env)) \<le> 50"
  shows "readable float_repr (predict_payload (scenario_sentinel env) (se_time env) 1000)"
    "floats (predict_payload (scenario_sentinel env) (se_time env) 1000) = {}"
    "length (dumps float_repr (predict_payload (scenario_sentinel env) (se_time env) 1000)) \<le> 4000"
proof -
  have "printable (decimal (se_time env))" using printable_int_repr [of "int (se_time env)"] by (simp add: int_repr_def)
  then have rid: "unpaired (str ''sentinel-'' @ decimal (se_time env))"
    by (intro unpaired_printable) (simp add: str_def)
  show "readable float_repr (predict_payload (scenario_sentinel env) (se_time env) 1000)"
    using rid unpaired_printable [OF sentinel_printable] length_int_repr [of 1000] by (simp add: predict_payload_def)
  show "floats (predict_payload (scenario_sentinel env) (se_time env) 1000) = {}" by (simp add: predict_payload_def)
  have "length (int_repr 1000) = 4" by (simp add: int_repr_def decimal.simps)
  moreover have "length (scenario_sentinel env) \<le> 77" using assms by (simp add: scenario_sentinel_def)
  ultimately show "length (dumps float_repr (predict_payload (scenario_sentinel env) (se_time env) 1000)) \<le> 4000"
    using assms length_dumps_str [of "scenario_sentinel env"] length_dumps_str [of "str ''sentinel-'' @ decimal (se_time env)"]
      length_dumps_str [of "str ''request_id''"] length_dumps_str [of "str ''inputs''"] length_dumps_str [of "str ''model_version''"]
      length_dumps_str [of "str ''timeout_ms''"] length_dumps_str [of "str ''tinybert-sst2-v1''"]
    by (simp add: predict_payload_def)
qed

text \<open>
  The scenario's probe reaches the gateway's prediction. The bytes the script sends, with the length it
  declares, are not refused at the door of an open gateway; and where the body is read as JSON text, the
  gateway's validation takes from it the sentinel as the one input, the script's request id and its
  timeout.
\<close>

lemma probe_accepted:
  assumes "length (decimal (se_time env)) \<le> 50"
    "utf8_encode (dumps float_repr (predict_payload (scenario_sentinel env) (se_time env) 1000)) = Some body"
    "is_predict r" "ht_body r = body" "ht_content_length r = Some (decimal (length body))" "accepting_requests s"
    "\<And>b. printable b \<Longrightarrow> re_json e b = loads b"
  shows "early_response documented_config r s = None
    \<and> validate documented_config (re_uuid e) (re_json e (ht_body r)) =
      Inr \<lparr>v_request_id = str ''sentinel-'' @ decimal (se_time env), v_inputs = [scenario_sentinel env],
           v_model_version = str ''tinybert-sst2-v1'', v_timeout_ms = 1000\<rparr>"
proof -
  let ?payload = "predict_payload (scenario_sentinel env) (se_time env) 1000"
  note p = payload_readable [OF assms(1)]
  have plain: "printable (dumps float_repr ?payload)" using p(2) by (intro printable_dumps) simp
  then have body: "body = dumps float_repr ?payload" using assms(2) by (simp add: utf8_encode_printable)
  have size: "length body \<le> 4000" using p(3) [of float_repr] body by simp
  have "length (decimal (length body)) \<le> 4300" using length_decimal [of "length body"] size by linarith
  then have "py_int (decimal (length body)) = Some (int (length body))" by (rule py_int_decimal)
  then have early: "early_response documented_config r s = None"
    using assms(3-6) size by (simp add: early_defs is_predict_def documented_config_def)
  have json: "re_json e (ht_body r) = Some ?payload"
    using assms(4) assms(7) [OF plain] loads_dumps [OF p(1) [of float_repr], of "[]"] by (simp add: body)
  have "list_all request_id_char (str ''sentinel-'' @ decimal (se_time env))"
    using decimal_request_chars [of "se_time env"] by (simp add: str_def request_id_char_def)
  then have "validate documented_config (re_uuid e) (Some ?payload) =
      Inr \<lparr>v_request_id = str ''sentinel-'' @ decimal (se_time env), v_inputs = [scenario_sentinel env],
           v_model_version = str ''tinybert-sst2-v1'', v_timeout_ms = 1000\<rparr>"
    using single_input_valid [OF sentinel_ok [OF assms(1)], of "str ''sentinel-'' @ decimal (se_time env)" 1000 "re_uuid e"] assms(1)
    by (simp add: predict_payload_def)
  with early json show ?thesis by simp
qed

definition quiet_env :: scenario_env where
  "quiet_env = \<lparr>se_time = 7, se_ready = (\<lambda>_. GetResponse 200 []), se_posts = (\<lambda>_. PostFailed []), se_commands = (\<lambda>_. Some [])\<rparr>"

definition probe_request :: http_request where
  "probe_request =
     (let body = dumps cents_repr (predict_payload (scenario_sentinel quiet_env) (se_time quiet_env) 1000)
      in \<lparr>ht_method = ''POST'', ht_path = str ''/v1/predict'', ht_content_length = Some (decimal (length body)), ht_body = body\<rparr>)"

theorem probe_accepted_witness:
  "early_response documented_config probe_request (open_gateway True) = None
    \<and> (\<exists>v. validate documented_config [] (loads (ht_body probe_request)) = Inr v \<and> v_timeout_ms v = 1000)"
proof -
  let ?e = "\<lparr>re_uuid = [], re_json = loads, re_perf = (\<lambda>_. 0), re_loop_time = 2, re_attempts = failover_env\<rparr>"
  have time: "length (decimal (se_time quiet_env)) \<le> 50" by (simp add: quiet_env_def decimal.simps)
  have "printable (dumps cents_repr (predict_payload (scenario_sentinel quiet_env) (se_time quiet_env) 1000))"
    using payload_readable(2) [OF time] by (intro printable_dumps) simp
  then have body: "utf8_encode (dumps cents_repr (predict_payload (scenario_sentinel quiet_env) (se_time quiet_env) 1000)) = Some (ht_body probe_request)"
    by (simp add: utf8_encode_printable probe_request_def Let_def)
  from probe_accepted [OF time body, of probe_request "open_gateway True" ?e] show ?thesis
    by (simp add: is_predict_def probe_request_def open_gateway_def Let_def)
qed

end
