(* ===== verification/Shutdown_Properties.thy ===== *)
theory Shutdown_Properties
  imports Gateway_Properties
begin

text \<open>
  The shutdown of the gateway, interleaved with everything else its event loop runs: what the pollers
  may still do once \<open>stop\<close> has begun, how long it takes, and which channels it leaves closed.
\<close>

section \<open>The clients leave the registry's tasks alone\<close>

definition same_tasks :: "'a sched_scheme \<Rightarrow> 'a sched_scheme \<Rightarrow> bool" where
  "same_tasks s t \<longleftrightarrow> stopping t = stopping s \<and> poller_tasks t = poller_tasks s \<and>
     map fst (workers t) = map fst (workers s)"

lemma same_tasks_trans: "same_tasks s t \<Longrightarrow> same_tasks t u \<Longrightarrow> same_tasks s u"
  by (simp add: same_tasks_def)

lemma same_tasks_refl [simp]: "same_tasks s s"
  by (simp add: same_tasks_def)

lemma same_tasks_ops [simp]:
  "same_tasks s (upd_worker wid f t) = same_tasks s t"
  "same_tasks s (inc_rpc_failures wid q t) = same_tasks s t" "same_tasks s (inc_retries q t) = same_tasks s t"
  "same_tasks s (set_outstanding_gauge wid v t) = same_tasks s t" "same_tasks s (inc_routing wid t) = same_tasks s t"
  "same_tasks s (set_healthy_gauge wid v t) = same_tasks s t" "same_tasks s (log_call a b e d t) = same_tasks s t"
  "same_tasks s (t\<lparr>cursor := k\<rparr>) = same_tasks s t"
  by (simp_all add: same_tasks_def obs_defs upd_worker_def)

lemma same_tasks_client [simp]:
  "same_tasks s (mark_unhealthy_immediately c wid t) = same_tasks s t"
  "same_tasks s (release_worker wid t) = same_tasks s t"
  "same_tasks s (snd (select_worker c X t)) = same_tasks s t"
  by (auto simp: mark_unhealthy_immediately_def release_worker_def select_worker_def Let_def split: option.split)

lemma same_tasks_begin: "same_tasks s (snd (attempt_begin c now k s))"
proof (cases "select_worker c (exclude_ids k) s")
  case (Pair r t)
  have "same_tasks s (snd (select_worker c (exclude_ids k) s))" by simp
  with Pair have "same_tasks s t" by (simp del: same_tasks_client)
  with Pair show ?thesis by (auto simp: attempt_begin_def Let_def split: sum.split)
qed

lemma same_tasks_end: "same_tasks s (snd (attempt_end c attempt now k wid out s))"
  by (auto simp: attempt_end_def split_beta handle_outcome_def Let_def split: rpc_outcome.split)

lemma same_tasks_launch: "launch c now k attempt g = (r, h) \<Longrightarrow> same_tasks g h"
  using same_tasks_begin [of g c now k] by (auto dest!: launch_spec split: sum.splits)

text \<open>A step of a prediction: the registry's tasks stay where they are.\<close>

lemma client_step:
  assumes "loop_step c s e = Some t" "(\<exists>i v m ts n n'. e = StartPredict i v m ts n n') \<or> (\<exists>i out n n'. e = Resume i out n n')"
  shows "tasks t = tasks s \<and> same_tasks (gw s) (gw t)"
  using assms(2)
proof (elim disjE exE)
  fix i v m ts n n' assume e: "e = StartPredict i v m ts n n'"
  obtain r h where l: "launch c n' (start_call n i v m ts) 1 (gw s) = (r, h)" by fastforce
  with assms(1) e same_tasks_launch [OF l] show ?thesis by (cases r) auto
next
  fix i out n n' assume e: "e = Resume i out n n'"
  let ?f = "flights s ! i"
  obtain r g where a: "attempt_end c (fl_attempt ?f) n (fl_call ?f) (fl_worker ?f) out (gw s) = (r, g)" by fastforce
  then have g: "same_tasks (gw s) g"
    using same_tasks_end [of "gw s" c "fl_attempt ?f" n "fl_call ?f" "fl_worker ?f" out] by simp
  show ?thesis
  proof (cases r)
    case (Retry x)
    obtain r' h where l: "launch c n' ((fl_call ?f)\<lparr>exclude_ids := x\<rparr>) (Suc (fl_attempt ?f)) g = (r', h)" by fastforce
    with assms(1) e a Retry same_tasks_trans [OF g same_tasks_launch [OF l]] show ?thesis
      by (cases r') (auto split: if_splits)
  qed (use assms(1) e a g in \<open>auto split: if_splits\<close>)
qed

section \<open>The invariant of the tasks\<close>

definition loop_tasks_ok :: "event_loop \<Rightarrow> bool" where
  "loop_tasks_ok s \<longleftrightarrow> pollers_ok (tasks s) (gw s)"

lemma loop_tasks_step:
  assumes "loop_tasks_ok s" "loop_step c s e = Some t"
  shows "loop_tasks_ok t"
proof -
  have client: ?thesis if "tasks t = tasks s \<and> same_tasks (gw s) (gw t)"
    using that assms(1) pollers_ok_cong [of "gw t" "gw s" "tasks s"]
    by (simp add: loop_tasks_ok_def same_tasks_def)
  show ?thesis
  proof (cases e)
    case (StartPredict i v m ts n n')
    with client_step [OF assms(2)] client show ?thesis by blast
  next
    case (Resume i out n n')
    with client_step [OF assms(2)] client show ?thesis by blast
  qed (use assms in \<open>auto simp: loop_tasks_ok_def with_tasks_def
      intro: pollers_ok_resumes pollers_ok_returns pollers_ok_begins pollers_ok_stop\<close>)
qed

lemma loop_tasks_init: "init_loop c s \<Longrightarrow> loop_tasks_ok s"
  by (auto simp: init_loop_def loop_tasks_ok_def start_registry_def intro: pollers_ok_started)

interpretation shutdown_invariant: inductive_invariant "deployed c" "loop_rel c" loop_tasks_ok for c
  by unfold_locales (auto simp: deployed_def loop_rel_def intro: loop_tasks_init loop_tasks_step)

section \<open>The shutdown ends\<close>

text \<open>The workers are those of the configuration.\<close>

lemma keys_step:
  assumes "loop_step c s e = Some t"
  shows "map fst (workers (gw t)) = map fst (workers (gw s))"
proof (cases e)
  case (StartPredict i v m ts n n')
  with client_step [OF assms] show ?thesis by (auto simp: same_tasks_def)
next
  case (Resume i out n n')
  with client_step [OF assms] show ?thesis by (auto simp: same_tasks_def)
next
  case StopRegistry
  then obtain q h where "stop_begins (tasks s) (gw s) = Some (q, h)" "gw t = h"
    using assms by (auto simp: with_tasks_def)
  then show ?thesis
    using cancel_next_frame(1) [of "poller_tasks (gw s)" "tasks s" "(gw s)\<lparr>stopping := True\<rparr>"]
    by (simp add: stop_begins_def del: cancel_next_frame split: if_splits)
next
  case StopResumes
  then obtain q h where "stop_resumes (tasks s) (gw s) = Some (q, h)" "gw t = h"
    using assms by (auto simp: with_tasks_def)
  then show ?thesis
    by (elim stop_resumesE) (metis cancel_next_frame(1) snd_conv, simp)
qed (use assms in \<open>auto simp: with_tasks_def poller_resumes_def probe_returns_def split: if_splits\<close>)

lemma stop_work_cong:
  assumes "poller_tasks t = poller_tasks s" "map fst (workers t) = map fst (workers s)" "stopper q = stopper p"
  shows "stop_work q t = stop_work p s"
  using assms map_eq_imp_length_eq [OF assms(2)] by (simp add: stop_work_def split: stopper.split)

text \<open>Each resumption of \<open>stop\<close> leaves it less to do, and no other step leaves it more.\<close>

lemma stop_work_step:
  assumes "loop_step c s e = Some t"
  shows "stop_work (tasks t) (gw t) + (if e = StopResumes then 1 else 0) \<le> stop_work (tasks s) (gw s)"
proof (cases e)
  case (StartPredict i v m ts n n')
  with client_step [OF assms] stop_work_cong [of "gw t" "gw s"] show ?thesis by (simp add: same_tasks_def)
next
  case (Resume i out n n')
  with client_step [OF assms] stop_work_cong [of "gw t" "gw s"] show ?thesis by (simp add: same_tasks_def)
next
  case (PollBegin w)
  with assms stop_work_cong [of "gw t" "gw s" "tasks t" "tasks s"] show ?thesis
    by (auto simp: with_tasks_def poller_resumes_def split: if_splits)
next
  case (PollEnd w out n)
  with assms stop_work_cong [of "gw t" "gw s" "tasks t" "tasks s"] show ?thesis
    by (auto simp: with_tasks_def probe_returns_def split: if_splits)
next
  case StopRegistry
  with assms show ?thesis by (auto simp: with_tasks_def dest: stop_begins_work)
next
  case StopResumes
  with assms show ?thesis by (auto simp: with_tasks_def dest: stop_resumes_work)
qed

definition stop_bounded :: "gateway_config \<Rightarrow> event_loop \<Rightarrow> bool" where
  "stop_bounded c s \<longleftrightarrow> stop_work (tasks s) (gw s) \<le> 2 * length (configured_workers c)"

lemma stop_bounded_init: "init_loop c s \<Longrightarrow> stop_bounded c s"
  by (simp add: init_loop_def stop_bounded_def stop_work_def started_pollers_def start_registry_def
      init_sched_def init_workers_def)

interpretation stop_bound: inductive_invariant "deployed c" "loop_rel c" "stop_bounded c" for c
  by unfold_locales
    (auto simp: deployed_def loop_rel_def stop_bounded_def dest: stop_work_step
      dest!: stop_bounded_init [unfolded stop_bounded_def])

lemma count_stop_resumes:
  "run_steps (loop_step c) s es = Some t \<Longrightarrow> count_list es StopResumes \<le> stop_work (tasks s) (gw s)"
proof (induction es arbitrary: s)
  case (Cons e es)
  then obtain u where u: "loop_step c s e = Some u" "run_steps (loop_step c) u es = Some t"
    by (auto split: option.splits)
  with Cons.IH [OF u(2)] stop_work_step [OF u(1)] show ?case by auto
qed simp

text \<open>
  C20: The shutdown is bounded and never stuck. However it is interleaved with predictions and pollers,
  \<open>stop\<close> resumes at most twice as often as there are workers, and until it is done its next
  resumption is possible.
\<close>

theorem shutdown_ends:
  assumes "reachable (deployed c) (loop_rel c) s" "run_steps (loop_step c) s es = Some t"
  shows "count_list es StopResumes \<le> 2 * length (configured_workers c) \<and>
    (stopper (tasks t) \<in> {Serving, Stopped} \<or> loop_step c t StopResumes \<noteq> None)"
proof -
  have "reachable (deployed c) (loop_rel c) t"
    using assms by (auto simp: loop_rel_def intro: reachable_run)
  then have "pollers_ok (tasks t) (gw t)" using shutdown_invariant.holds by (simp add: loop_tasks_ok_def)
  moreover have "stop_work (tasks s) (gw s) \<le> 2 * length (configured_workers c)"
    using stop_bound.holds [OF assms(1)] by (simp add: stop_bounded_def)
  ultimately show ?thesis
    using count_stop_resumes [OF assms(2)] stop_resumes_enabled [of "tasks t" "gw t"]
    by (auto simp: with_tasks_def)
qed

lemmas stop_defs = concrete_defs stop_begins_def stop_resumes_def cancel_next.simps close_next.simps
  channel_open_def close_node_def

text \<open>A probe of the first worker is on its way when the shutdown begins.\<close>

definition stop_events :: "loop_event list" where
  "stop_events = 
     [PollBegin w1, StopRegistry, StopResumes, StopResumes, StopResumes, StopResumes, StopResumes]"

lemma stop_run:
  "\<exists>t. run_steps (loop_step documented_config) started_loop stop_events = Some t \<and> stopper (tasks t) = Stopped \<and>
     node w1 (gw t) \<noteq> None"
  by (simp add: stop_events_def stop_defs)

theorem shutdown_ends_witness:
  "\<exists>t. run_steps (loop_step documented_config) started_loop stop_events = Some t \<and>
     count_list stop_events StopResumes \<le> 8"
proof -
  obtain t where t: "run_steps (loop_step documented_config) started_loop stop_events = Some t"
    using stop_run by blast
  have "length (configured_workers documented_config) = 4" by (simp add: documented_config_def)
  with shutdown_ends [OF started_loop_reachable t] t show ?thesis by simp
qed

section \<open>What it leaves behind\<close>

lemma close_next_open:
  "channel_open w s \<Longrightarrow> w \<in> set wids \<Longrightarrow> \<exists>us. close_next wids s = Closing us \<and> w \<in> set us"
  by (induction wids) auto

lemma channel_open_key: "channel_open w s \<Longrightarrow> w \<in> set (map fst (workers s))"
  by (auto simp: channel_open_def node_def split: option.splits dest!: map_of_SomeD intro: rev_image_eqI)

lemma channel_open_close: "channel_open w (upd_worker v close_node s) \<longleftrightarrow> w \<noteq> v \<and> channel_open w s"
  by (auto simp: channel_open_def close_node_def split: option.splits)

text \<open>Without predictions: a channel that is open is still to be closed.\<close>

definition closing_up :: "event_loop \<Rightarrow> bool" where
  "closing_up s \<longleftrightarrow> loop_tasks_ok s \<and> flights s = [] \<and>
     (case stopper (tasks s) of
        Closing wids \<Rightarrow> \<forall>w. channel_open w (gw s) \<longrightarrow> w \<in> set wids
      | Stopped \<Rightarrow> \<forall>w. \<not> channel_open w (gw s)
      | _ \<Rightarrow> True)"

fun starts_prediction :: "loop_event \<Rightarrow> bool" where
  "starts_prediction (StartPredict i v m ts n n') \<longleftrightarrow> True"
| "starts_prediction _ \<longleftrightarrow> False"

definition all_to_close :: "stopper \<Rightarrow> 'a registry_scheme \<Rightarrow> bool" where
  "all_to_close st s \<longleftrightarrow>
     (case st of
        Closing wids \<Rightarrow> \<forall>w. channel_open w s \<longrightarrow> w \<in> set wids
      | Stopped \<Rightarrow> \<forall>w. \<not> channel_open w s
      | _ \<Rightarrow> True)"

lemma all_to_close_next: "(\<And>w. channel_open w s \<Longrightarrow> w \<in> set wids) \<Longrightarrow> all_to_close (close_next wids s) s"
  using close_next_cases [of wids s] close_next_open [of _ s wids] by (fastforce simp: all_to_close_def)

lemma all_to_close_cancel: "cancel_next wids p s = (q, t) \<Longrightarrow> all_to_close (stopper q) t"
proof (induction wids p s rule: cancel_next.induct)
  case (1 p s)
  have "all_to_close (close_next (map fst (workers t)) t) t"
    by (rule all_to_close_next) (rule channel_open_key)
  with 1 show ?case by auto
qed (auto simp: all_to_close_def split: if_splits)

lemma all_to_close_resumes:
  assumes "stop_resumes p s = Some (q, t)" "all_to_close (stopper p) s"
  shows "all_to_close (stopper q) t"
  using assms(1)
proof (cases rule: stop_resumesE)
  case (cancelling wids)
  then show ?thesis by (metis all_to_close_cancel)
next
  case (closing wid wids)
  have "all_to_close (close_next wids t) t"
    by (rule all_to_close_next) (use assms(2) closing in \<open>auto simp: all_to_close_def channel_open_close\<close>)
  with closing(3) show ?thesis by simp
qed

lemma closing_up_iff: "closing_up s \<longleftrightarrow> loop_tasks_ok s \<and> flights s = [] \<and> all_to_close (stopper (tasks s)) (gw s)"
  by (simp add: closing_up_def all_to_close_def)

lemma closing_up_step:
  assumes "closing_up s" "loop_step c s e = Some t" "\<not> starts_prediction e"
  shows "closing_up t"
proof -
  have ok: "loop_tasks_ok t" using assms(1,2) loop_tasks_step by (auto simp: closing_up_def)
  have ended: "phase_of (tasks s) w = Over" if "stopper (tasks s) \<notin> {Serving, Cancelling ws}" "\<nexists>us. stopper (tasks s) = Cancelling us" for w ws
    using assms(1) that by (auto simp: closing_up_def loop_tasks_ok_def pollers_ok_def split: stopper.splits)
  show ?thesis
  proof (cases e)
    case (PollBegin w)
    with assms ok ended [of undefined w] show ?thesis
      by (cases "stopper (tasks s)") (auto simp: closing_up_iff with_tasks_def poller_resumes_def all_to_close_def split: if_splits)
  next
    case (PollEnd w out n)
    with assms ok ended [of undefined w] show ?thesis
      by (cases "stopper (tasks s)") (auto simp: closing_up_iff with_tasks_def probe_returns_def all_to_close_def split: if_splits)
  next
    case StopRegistry
    with assms ok show ?thesis
      by (auto simp: closing_up_iff with_tasks_def stop_begins_def dest: all_to_close_cancel split: if_splits)
  next
    case StopResumes
    with assms ok show ?thesis
      by (auto simp: closing_up_iff with_tasks_def dest: all_to_close_resumes)
  qed (use assms in \<open>auto simp: closing_up_def\<close>)
qed

lemma closing_up_run:
  "run_steps (loop_step c) s es = Some t \<Longrightarrow> closing_up s \<Longrightarrow> \<not> list_ex starts_prediction es \<Longrightarrow> closing_up t"
  by (induction es arbitrary: s) (auto split: option.splits dest: closing_up_step)

text \<open>
  C19: What the shutdown leaves behind. When no prediction is in flight as \<open>stop\<close> begins and none starts
  any more, then once it is done no worker has an open channel or a stub, no poller is left, and none
  of them can probe or change a worker again.
\<close>

theorem shutdown_closes_channels:
  assumes "reachable (deployed c) (loop_rel c) s" "flights s = []" "stopper (tasks s) = Serving"
    "run_steps (loop_step c) s es = Some t" "\<not> list_ex starts_prediction es" "stopper (tasks t) = Stopped"
  shows "(node w (gw t) = None \<or> channel (the (node w (gw t))) = None \<and> stub (the (node w (gw t))) = None) \<and>
    poller_tasks (gw t) = [] \<and> loop_step c t (PollBegin w) = None \<and> loop_step c t (PollEnd w out now) = None"
proof -
  have "closing_up s"
    using shutdown_invariant.holds [OF assms(1)] assms(2,3) by (simp add: closing_up_def)
  then have t: "closing_up t" using closing_up_run [OF assms(4)] assms(5) by blast
  have "reachable (deployed c) (loop_rel c) t"
    using assms(1,4) by (auto simp: loop_rel_def intro: reachable_run)
  then have "registry_wf (gw t)"
    using event_loop_invariant.holds by (auto simp: loop_inv_def dest: sched_wfD)
  then have "stub n = None" if "node w (gw t) = Some n" "channel n = None" for n
    using registry_wfD [of "gw t" w n] that by (auto simp: node_ok_def)
  with t assms(6) show ?thesis
    by (auto simp: closing_up_def loop_tasks_ok_def pollers_ok_def channel_open_def with_tasks_def
        poller_resumes_def probe_returns_def split: option.splits)
qed

theorem shutdown_closes_channels_witness:
  "\<exists>t. run_steps (loop_step documented_config) started_loop stop_events = Some t \<and>
     channel (the (node w1 (gw t))) = None"
proof -
  obtain t where t: "run_steps (loop_step documented_config) started_loop stop_events = Some t"
    "stopper (tasks t) = Stopped" "node w1 (gw t) \<noteq> None"
    using stop_run by blast
  have "flights started_loop = []" "stopper (tasks started_loop) = Serving" "\<not> list_ex starts_prediction stop_events"
    by (simp_all add: started_loop_def started_pollers_def stop_events_def list_ex_iff)
  from shutdown_closes_channels [OF started_loop_reachable this(1,2) t(1) this(3) t(2), of w1 ProbeRaised 0]
  have "node w1 (gw t) = None \<or> channel (the (node w1 (gw t))) = None" by auto
  with t show ?thesis by (intro exI [of _ t]) auto
qed

text \<open>
  A prediction that is still in flight may open a channel again: its retry asks another worker for its
  stub after that worker's channel has been closed, and nothing closes the new one.
\<close>

definition pair_config :: gateway_config where
  "pair_config = documented_config\<lparr>configured_workers := [(w1, str ''worker-1:50051''), (w2, str ''worker-2:50051'')]\<rparr>"

definition leak_events :: "loop_event list" where
  "leak_events = start_events @
     [StopRegistry, StopResumes, StopResumes, StopResumes, StopResumes, Resume 0 (RpcError UNAVAILABLE None) 2 2]"

lemma late_retry_leaks_channel:
  "\<exists>s t. init_loop pair_config s \<and> run_steps (loop_step pair_config) s leak_events = Some t \<and>
     stopper (tasks t) = Stopped \<and> channel_open w2 (gw t)"
  using w1_le_w2
  by (simp add: leak_events_def pair_config_def init_loop_def stop_defs attempt_end_def handle_outcome_def
      mark_unhealthy_immediately_def mark_node_def release_worker_def unreserve_def without_def)

end
