(* ===== verification/Log_Properties.thy ===== *)
theory Log_Properties
  imports Shutdown_Properties
begin

text \<open>
  What the gateway's log and metrics say: the registry's lines name the configured workers only and tell
  which of them are healthy, and nothing the gateway keeps or shows depends on what a client sent.
\<close>

section \<open>The lines of the registry\<close>

type_synonym line = "string \<times> string \<times> string \<times> (string \<times> log_value) list"

definition health_lines :: "pystr \<Rightarrow> line set" where
  "health_lines w =
     {(''registry'', ''info'', ''worker_healthy'', [(''worker_id'', VStr w)]),
      (''registry'', ''info'', ''worker_recovered'', [(''worker_id'', VStr w)]),
      (''registry'', ''warning'', ''worker_marked_unhealthy'', [(''worker_id'', VStr w)]),
      (''registry'', ''warning'', ''worker_ejected'', [(''worker_id'', VStr w), (''reason'', VStr (str ''rpc_failed''))]),
      (''registry'', ''warning'', ''worker_ejected'',
        [(''worker_id'', VStr w), (''reason'', VStr (str ''incompatible_status''))])}"

text \<open>What a log, newest line first, says of a worker: the last line about it tells.\<close>

fun told_healthy :: "pystr \<Rightarrow> line list \<Rightarrow> bool" where
  "told_healthy w [] \<longleftrightarrow> False"
| "told_healthy w ((service, level, event, kwargs) # older) \<longleftrightarrow>
     (if (''worker_id'', VStr w) \<in> set kwargs then event = ''worker_healthy'' \<or> event = ''worker_recovered''
      else told_healthy w older)"

definition log_says_healthy :: "pystr \<Rightarrow> 'a registry_scheme \<Rightarrow> bool" where
  "log_says_healthy w s \<longleftrightarrow> told_healthy w (rev (log_calls s))"

lemma log_says_simps [simp]:
  "log_says_healthy w (log_call a b e kw s) \<longleftrightarrow>
     (if (''worker_id'', VStr w) \<in> set kw then e = ''worker_healthy'' \<or> e = ''worker_recovered''
      else log_says_healthy w s)"
  "log_says_healthy w (upd_worker v f s) = log_says_healthy w s"
  "log_says_healthy w (set_healthy_gauge v x s) = log_says_healthy w s"
  "log_says_healthy w (set_outstanding_gauge v x s) = log_says_healthy w s"
  "log_says_healthy w (inc_routing v s) = log_says_healthy w s"
  "log_says_healthy w (inc_retries r s) = log_says_healthy w s"
  "log_says_healthy w (inc_rpc_failures v r s) = log_says_healthy w s"
  by (simp_all add: log_says_healthy_def obs_defs frame_simps)

text \<open>The log is right about every worker that does not drain, and every line is one of the above.\<close>

definition log_right :: "'a registry_scheme \<Rightarrow> bool" where
  "log_right s \<longleftrightarrow>
     (\<forall>w. health w s \<in> {None, Some DRAINING} \<or> (log_says_healthy w s \<longleftrightarrow> health w s = Some HEALTHY)) \<and>
     (\<forall>l \<in> set (log_calls s). \<exists>w. health w s \<noteq> None \<and> l \<in> health_lines w)"

lemma log_right_quiet:
  "log_right s \<Longrightarrow> log_calls t = log_calls s \<Longrightarrow> (\<And>w. health w t = health w s) \<Longrightarrow> log_right t"
  by (simp add: log_right_def log_says_healthy_def)

text \<open>One line about a worker that has just changed its state.\<close>

lemma log_right_line:
  assumes right: "log_right s" and calls: "log_calls t = log_calls s @ [l]" and l: "l \<in> health_lines v"
    and health: "\<And>w. health w t = (if w = v then Some h else health w s)"
    and event: "h = HEALTHY \<longleftrightarrow> fst (snd (snd l)) \<in> {''worker_healthy'', ''worker_recovered''}"
  shows "log_right t"
  unfolding log_right_def
proof (intro conjI allI ballI)
  fix w
  have "log_says_healthy w t = (if w = v then h = HEALTHY else log_says_healthy w s)"
    using l event by (auto simp: log_says_healthy_def calls health_lines_def)
  with right show "health w t \<in> {None, Some DRAINING} \<or> (log_says_healthy w t \<longleftrightarrow> health w t = Some HEALTHY)"
    by (auto simp: log_right_def health)
next
  fix k assume "k \<in> set (log_calls t)"
  then have "k = l \<or> k \<in> set (log_calls s)" by (auto simp: calls)
  then have "\<exists>w. (w = v \<or> health w s \<noteq> None) \<and> k \<in> health_lines w"
    using l right unfolding log_right_def by blast
  then show "\<exists>w. health w t \<noteq> None \<and> k \<in> health_lines w" by (auto simp: health)
qed

lemma health_upd: "health w (upd_worker v f s) = (if w = v then map_option (state \<circ> f) (node v s) else health w s)"
  by (simp add: health_def option.map_comp)

lemma health_shown [simp]:
  "health w (log_call a b e d s) = health w s" "health w (set_healthy_gauge v x s) = health w s"
  by (simp_all add: health_def)

lemma log_calls_frame [simp]:
  "log_calls (upd_worker v f s) = log_calls s" "log_calls (set_healthy_gauge v x s) = log_calls s"
  "log_calls (set_outstanding_gauge v x s) = log_calls s" "log_calls (inc_routing v s) = log_calls s"
  "log_calls (inc_retries r s) = log_calls s" "log_calls (inc_rpc_failures v r s) = log_calls s"
  "log_calls (log_call a b e d s) = log_calls s @ [(a, b, e, d)]"
  by (simp_all add: obs_defs frame_simps)

lemma log_right_mark:
  assumes "log_right s"
  shows "log_right (mark_unhealthy_immediately c v s)"
proof (cases "health v s = Some HEALTHY")
  case True
  then show ?thesis
    by (intro log_right_line [OF assms, of _ _ v UNHEALTHY])
      (auto simp: health_mark health_upd health_def mark_unhealthy_immediately_def healthy_iff health_lines_def)
next
  case False
  then have "mark_unhealthy_immediately c v s = s"
    by (auto simp: mark_unhealthy_immediately_def healthy_iff split: option.split)
  with assms show ?thesis by simp
qed

lemma log_right_failure:
  assumes "log_right s" "reason = ''rpc_failed'' \<or> reason = ''incompatible_status''"
  shows "log_right (record_probe_failure c v reason s)"
proof (cases "node v s")
  case (Some n)
  show ?thesis
  proof (cases "ejects c n")
    case True
    with Some assms(2) show ?thesis
      by (intro log_right_line [OF assms(1), of _ _ v UNHEALTHY])
        (auto simp: record_probe_failure_def health_upd health_lines_def Let_def)
  next
    case False
    with Some show ?thesis
      by (intro log_right_quiet [OF assms(1)]) (auto simp: record_probe_failure_def health_upd health_def Let_def)
  qed
qed (use assms in \<open>simp add: record_probe_failure_def\<close>)

text \<open>A worker that drains; no line is written.\<close>

lemma log_right_drained:
  assumes "log_right s" "log_calls t = log_calls s"
    "\<And>w. health w t = (if w = v \<and> health v s \<noteq> None then Some DRAINING else health w s)"
  shows "log_right t"
proof -
  have "health w t \<noteq> None \<longleftrightarrow> health w s \<noteq> None" for w by (auto simp: assms(3))
  with assms show ?thesis by (simp add: log_right_def log_says_healthy_def)
qed

lemma log_right_drains: "log_right s \<Longrightarrow> log_right (set_healthy_gauge v 0 (upd_worker v draining_node s))"
  by (rule log_right_drained [of s _ v]; cases "node v s") (auto simp: health_upd health_def)

lemma log_right_poll_end:
  assumes "log_right s"
  shows "log_right (poll_end c v out now s)"
proof -
  have success: "log_right (poll_end c v (ProbeResponse r) now s)"
    if "sr_state r \<noteq> WORKER_STATE_DRAINING" "compatible c r" for r
  proof (cases "node v s")
    case (Some n)
    consider (started) "starts_up n" | (recovered) "recovers c n" "\<not> starts_up n" | (unchanged) "\<not> starts_up n" "\<not> recovers c n" by blast
    then show ?thesis
    proof cases
      case started
      with Some that show ?thesis
        by (intro log_right_line [OF assms, of _ _ v HEALTHY]) (auto simp: poll_end_def health_upd health_lines_def Let_def)
    next
      case recovered
      with Some that show ?thesis
        by (intro log_right_line [OF assms, of _ _ v HEALTHY]) (auto simp: poll_end_def health_upd health_lines_def Let_def)
    next
      case unchanged
      with Some that show ?thesis
        by (intro log_right_quiet [OF assms]) (auto simp: poll_end_def health_upd health_def Let_def)
    qed
  qed (use that assms in \<open>simp add: poll_end_def\<close>)
  show ?thesis
  proof (cases out)
    case (ProbeResponse r)
    then show ?thesis
      using success [of r] log_right_drains [OF assms] log_right_failure [OF assms]
      by (cases "sr_state r = WORKER_STATE_DRAINING"; cases "compatible c r") (auto simp: poll_end_def)
  qed (use log_right_failure [OF assms] in \<open>simp add: poll_end_def\<close>)
qed

text \<open>The client: the one line is that of the immediate ejection.\<close>

lemma log_right_client:
  "log_right s \<Longrightarrow> log_right (upd_worker v get_stub s)" "log_right s \<Longrightarrow> log_right (inc_rpc_failures v q s)"
  "log_right s \<Longrightarrow> log_right (inc_retries q s)"
  by (auto intro: log_right_quiet)

lemma log_right_release: "log_right s \<Longrightarrow> log_right (release_worker v s)"
  by (erule log_right_quiet) (simp add: release_worker_def split: option.split, simp)

lemma log_right_select:
  fixes s :: "'a sched_scheme"
  assumes "registry_wf s" "log_right s"
  shows "log_right (snd (select_worker c X s))"
proof (rule log_right_quiet [OF assms(2)])
  show "log_calls (snd (select_worker c X s)) = log_calls s"
    by (auto simp: select_worker_def Let_def)
  show "health w (snd (select_worker c X s)) = health w s" for w
    by (cases "select_worker c X s"; cases "fst (select_worker c X s)")
      (auto dest: select_fails health_select [OF assms(1)])
qed

lemma log_right_begin:
  assumes "registry_wf s" "log_right s"
  shows "log_right (snd (attempt_begin c now k s))"
proof (cases "select_worker c (exclude_ids k) s")
  case (Pair r t)
  with log_right_select [OF assms, of c "exclude_ids k"] have "log_right t" by simp
  with Pair assms(2) show ?thesis
    by (auto simp: attempt_begin_def Let_def log_right_client split: sum.split)
qed

lemma log_right_end: "log_right s \<Longrightarrow> log_right (snd (attempt_end c attempt now k wid out s))"
  by (auto simp: attempt_end_def split_beta handle_outcome_def Let_def split: rpc_outcome.split
      intro!: log_right_release log_right_client log_right_mark)

section \<open>The loop\<close>

lemma log_right_launch: "launch c now k a g = (r, h) \<Longrightarrow> registry_wf g \<Longrightarrow> log_right g \<Longrightarrow> log_right h"
  using log_right_begin [of g c now k] by (auto dest!: launch_spec split: sum.splits)

lemma log_right_cancel: "cancel_next wids p g = (q, h) \<Longrightarrow> log_right g \<Longrightarrow> log_right h"
  by (erule log_right_quiet [of g h])
    (metis cancel_next_frame(5) snd_conv, metis cancel_next_frame(3) health_def snd_conv)

lemma log_right_step:
  assumes right: "log_right (gw s)" and inv: "loop_inv c s" and st: "loop_step c s e = Some t"
  shows "log_right (gw t)"
proof -
  have wf: "registry_wf (gw s)" using inv by (auto simp: loop_inv_def dest: sched_wfD)
  show ?thesis
  proof (cases e)
    case (StartPredict i v m ts n n')
    obtain r h where l: "launch c n' (start_call n i v m ts) 1 (gw s) = (r, h)" by fastforce
    with st StartPredict log_right_launch [OF l wf right] show ?thesis by (cases r) auto
  next
    case (Resume i out n n')
    let ?f = "flights s ! i"
    have i: "i < length (flights s)" using st Resume by (auto split: if_splits)
    obtain r g where a: "attempt_end c (fl_attempt ?f) n (fl_call ?f) (fl_worker ?f) out (gw s) = (r, g)" by fastforce
    have g: "registry_wf g" "log_right g"
      using attempt_end_inv [OF inv i a] log_right_end [OF right, of c "fl_attempt ?f" n "fl_call ?f" "fl_worker ?f" out] a
      by (auto dest: sched_wfD)
    show ?thesis
    proof (cases r)
      case (Retry x)
      obtain r' h where l: "launch c n' ((fl_call ?f)\<lparr>exclude_ids := x\<rparr>) (Suc (fl_attempt ?f)) g = (r', h)" by fastforce
      with st Resume a Retry i log_right_launch [OF l g] show ?thesis by (cases r') auto
    qed (use st Resume a i g in auto)
  next
    case (PollBegin w)
    with st right show ?thesis
      by (auto simp: with_tasks_def poller_resumes_def poll_begin_def log_right_client split: if_splits)
  next
    case (PollEnd w out n)
    with st right show ?thesis
      by (auto simp: with_tasks_def probe_returns_def log_right_poll_end split: if_splits)
  next
    case StopRegistry
    have "log_right ((gw s)\<lparr>stopping := True\<rparr>)" using right by (rule log_right_quiet) (simp_all add: health_def)
    with st StopRegistry show ?thesis
      by (auto simp: with_tasks_def stop_begins_def dest: log_right_cancel split: if_splits)
  next
    case StopResumes
    have "log_right (upd_worker w close_node (gw s))" for w
      by (rule log_right_quiet [OF right]) (auto simp: health_upd health_def frame_simps option.map_comp comp_def)
    with st StopResumes right show ?thesis
      by (auto simp: with_tasks_def elim!: stop_resumesE dest: log_right_cancel [OF sym])
  qed
qed

lemma log_right_init: "init_loop c s \<Longrightarrow> log_right (gw s)"
  by (auto simp: init_loop_def log_right_def log_says_healthy_def start_registry_def health_def node_init_sched
      new_worker_node_def node_def init_sched_def init_workers_def dest!: map_of_SomeD split: option.splits)

interpretation log_invariant: inductive_invariant "deployed c" "loop_rel c" "\<lambda>s. loop_inv c s \<and> log_right (gw s)" for c
  by unfold_locales
    (auto simp: deployed_def loop_rel_def intro: loop_inv_init log_right_init log_right_step
      event_loop_invariant.kept)

definition keys_of_config :: "gateway_config \<Rightarrow> event_loop \<Rightarrow> bool" where
  "keys_of_config c s \<longleftrightarrow> map fst (workers (gw s)) = map fst (configured_workers c)"

interpretation keys_invariant: inductive_invariant "deployed c" "loop_rel c" "keys_of_config c" for c
  by unfold_locales
    (auto simp: deployed_def loop_rel_def keys_of_config_def keys_step init_loop_def start_registry_def init_sched_def
      init_workers_def split_def comp_def)

text \<open>
  C23: What is shown of the workers' health. In every reachable state a worker's gauge is 1 exactly when it is
  HEALTHY; unless it drains (which is not logged), the last line of the log about it says that it is healthy
  or has recovered exactly when it is HEALTHY; and every line of the log is one of five fixed lines about a
  configured worker.
\<close>

theorem log_tells_health:
  assumes "reachable (deployed c) (loop_rel c) s" "node w (gw s) = Some n"
  shows "(GATEWAY_WORKER_HEALTHY (gw s) w = Some 1 \<longleftrightarrow> state n = HEALTHY) \<and>
    (state n \<noteq> DRAINING \<longrightarrow> (log_says_healthy w (gw s) \<longleftrightarrow> state n = HEALTHY)) \<and>
    set (log_calls (gw s)) \<subseteq> \<Union> (health_lines ` fst ` set (configured_workers c))"
proof -
  have right: "log_right (gw s)" using log_invariant.holds [OF assms(1)] by simp
  have keys: "fst ` set (workers (gw s)) = fst ` set (configured_workers c)"
    using keys_invariant.holds [OF assms(1)] by (metis keys_of_config_def list.set_map)
  have "v \<in> fst ` set (configured_workers c)" if "health v (gw s) \<noteq> None" for v
    using that unfolding keys [symmetric]
    by (auto simp: health_def node_def dest!: map_of_SomeD intro: rev_image_eqI)
  note configured = this
  have "set (log_calls (gw s)) \<subseteq> \<Union> (health_lines ` fst ` set (configured_workers c))"
  proof
    fix l assume "l \<in> set (log_calls (gw s))"
    moreover have "\<forall>l \<in> set (log_calls (gw s)). \<exists>v. health v (gw s) \<noteq> None \<and> l \<in> health_lines v"
      using right unfolding log_right_def by (rule conjunct2)
    ultimately obtain v where "health v (gw s) \<noteq> None" "l \<in> health_lines v" by (elim ballE exE conjE) auto
    with configured show "l \<in> \<Union> (health_lines ` fst ` set (configured_workers c))" by (intro UN_I) auto
  qed
  moreover have "state n \<noteq> DRAINING \<longrightarrow> (log_says_healthy w (gw s) \<longleftrightarrow> state n = HEALTHY)"
  proof -
    have "health w (gw s) \<in> {None, Some DRAINING} \<or> (log_says_healthy w (gw s) \<longleftrightarrow> health w (gw s) = Some HEALTHY)"
      using right unfolding log_right_def by blast
    moreover have "health w (gw s) = Some (state n)" using assms(2) by (simp add: health_def)
    ultimately show ?thesis by auto
  qed
  moreover have "GATEWAY_WORKER_HEALTHY (gw s) w = Some 1 \<longleftrightarrow> state n = HEALTHY"
  proof -
    have "registry_wf (gw s)" using log_invariant.holds [OF assms(1)] by (auto simp: loop_inv_def dest: sched_wfD)
    from registry_wfD [OF this assms(2)] show ?thesis by (simp add: node_ok_def)
  qed
  ultimately show ?thesis by blast
qed

lemma healthy_run:
  "\<exists>s n. run_steps (loop_step documented_config) started_loop start_events = Some s \<and>
     node w1 (gw s) = Some n \<and> state n = HEALTHY"
  using w1_le_w2 by (simp add: concrete_defs)

theorem log_tells_health_witness:
  "\<exists>s. reachable (deployed documented_config) (loop_rel documented_config) s \<and> log_says_healthy w1 (gw s) \<and>
     GATEWAY_WORKER_HEALTHY (gw s) w1 = Some 1"
proof -
  obtain s n where s: "run_steps (loop_step documented_config) started_loop start_events = Some s"
    "node w1 (gw s) = Some n" "state n = HEALTHY" using healthy_run by blast
  have "reachable (deployed documented_config) (loop_rel documented_config) s"
    using started_loop_reachable s(1) by (auto simp: loop_rel_def intro: reachable_run)
  with log_tells_health [OF this s(2)] s(3) show ?thesis by auto
qed

section \<open>What a client sends\<close>

text \<open>Two requests, calls, flights or events are alike when they differ in the id and the texts only.\<close>

definition conceal_request :: "predict_request \<Rightarrow> predict_request" where
  "conceal_request rq = rq\<lparr>rq_request_id := [], rq_inputs := []\<rparr>"

definition conceal_call :: "call \<Rightarrow> call" where
  "conceal_call k = k\<lparr>call_request := conceal_request (call_request k)\<rparr>"

definition conceal_flight :: "flight \<Rightarrow> flight" where
  "conceal_flight f = f\<lparr>fl_call := conceal_call (fl_call f)\<rparr>"

definition conceal_loop :: "event_loop \<Rightarrow> event_loop" where
  "conceal_loop s = s\<lparr>flights := map conceal_flight (flights s)\<rparr>"

fun conceal_event :: "loop_event \<Rightarrow> loop_event" where
  "conceal_event (StartPredict request_id inputs version timeout_ms now0 now1) =
     StartPredict [] [] version timeout_ms now0 now1"
| "conceal_event e = e"

lemma conceal_start: "start_call now [] [] version timeout_ms = conceal_call (start_call now request_id inputs version timeout_ms)"
  by (simp add: start_call_def conceal_call_def conceal_request_def)

lemma conceal_call_sel [simp]:
  "gateway_deadline (conceal_call k) = gateway_deadline k" "exclude_ids (conceal_call k) = exclude_ids k"
  by (simp_all add: conceal_call_def)

lemma conceal_attempt [simp]:
  "attempt_begin c now (conceal_call k) g = attempt_begin c now k g"
  "attempt_end c attempt now (conceal_call k) wid out g = attempt_end c attempt now k wid out g"
  "(conceal_call k)\<lparr>exclude_ids := x\<rparr> = conceal_call (k\<lparr>exclude_ids := x\<rparr>)"
  by (simp_all add: attempt_begin_def attempt_end_def handle_outcome_def Let_def split: rpc_outcome.split)
    (simp add: conceal_call_def)

lemma conceal_launch:
  "launch c now (conceal_call k) attempt g = map_prod (map_sum id conceal_flight) id (launch c now k attempt g)"
  by (auto simp: launch_def conceal_flight_def split: prod.split sum.split)

lemma conceal_sel [simp]:
  "gw (conceal_loop s) = gw s" "tasks (conceal_loop s) = tasks s" "results (conceal_loop s) = results s"
  "started (conceal_loop s) = started s" "flights (conceal_loop s) = map conceal_flight (flights s)"
  "fl_call (conceal_flight f) = conceal_call (fl_call f)" "fl_attempt (conceal_flight f) = fl_attempt f"
  "fl_worker (conceal_flight f) = fl_worker f"
  by (simp_all add: conceal_loop_def conceal_flight_def)

lemma conceal_tasks: "with_tasks (conceal_loop s) r = map_option conceal_loop (with_tasks s r)"
  by (cases r) (auto simp: with_tasks_def conceal_loop_def)

lemma conceal_step: "loop_step c (conceal_loop s) (conceal_event e) = map_option conceal_loop (loop_step c s e)"
proof (cases e)
  case (StartPredict i v m ts n n')
  show ?thesis
    by (cases "launch c n' (start_call n i v m ts) 1 (gw s)"; cases "fst (launch c n' (start_call n i v m ts) 1 (gw s))")
      (simp_all add: StartPredict conceal_start [of n m ts i v] conceal_launch conceal_loop_def)
next
  case (Resume i out n n')
  let ?f = "flights s ! i"
  obtain r g where a: "attempt_end c (fl_attempt ?f) n (fl_call ?f) (fl_worker ?f) out (gw s) = (r, g)" by fastforce
  show ?thesis
  proof (cases r)
    case (Retry x)
    obtain r' h where "launch c n' ((fl_call ?f)\<lparr>exclude_ids := x\<rparr>) (Suc (fl_attempt ?f)) g = (r', h)" by fastforce
    with Resume a Retry show ?thesis
      by (cases r') (auto simp: Let_def conceal_launch conceal_loop_def map_without)
  qed (use Resume a in \<open>auto simp: Let_def conceal_loop_def map_without\<close>)
qed (simp_all add: conceal_tasks)

lemma conceal_run:
  "run_steps (loop_step c) (conceal_loop s) (map conceal_event es) = map_option conceal_loop (run_steps (loop_step c) s es)"
  by (induction es arbitrary: s) (auto simp: conceal_step split: option.split)

text \<open>
  C24: Nothing the gateway decides, counts or logs depends on what a client sent. Two runs of the event loop whose
  events differ in the request ids and the texts only go through the same: the same workers are chosen,
  the same results are handed out, and the workers' states, the metrics and the log are equal.
\<close>

theorem texts_leave_no_trace:
  assumes "map conceal_event es = map conceal_event es'" "run_steps (loop_step c) s es = Some t"
  shows "\<exists>t'. run_steps (loop_step c) s es' = Some t' \<and> gw t' = gw t \<and> results t' = results t \<and>
    map fl_worker (flights t') = map fl_worker (flights t)"
proof -
  have "map_option conceal_loop (run_steps (loop_step c) s es') = Some (conceal_loop t)"
    using conceal_run [of c s es] conceal_run [of c s es'] assms by simp
  then obtain t' where t': "run_steps (loop_step c) s es' = Some t'" "conceal_loop t' = conceal_loop t" by auto
  then have "gw t' = gw t" "results t' = results t" by (metis conceal_sel(1), metis conceal_sel(3))
  moreover have "map fl_worker (flights t') = map fl_worker (flights t)"
  proof -
    have "map fl_worker (flights (conceal_loop t')) = map fl_worker (flights (conceal_loop t))" by (simp only: t'(2))
    then show ?thesis by (simp add: comp_def)
  qed
  ultimately show ?thesis using t'(1) by blast
qed

text \<open>The run above, with another id and other texts.\<close>

definition secret_events :: "loop_event list" where
  "secret_events =
     [PollBegin w1, PollBegin w2,
      PollEnd w1 (ProbeResponse (ready_status w1)) 1, PollEnd w2 (ProbeResponse (ready_status w2)) 1,
      StartPredict (str ''other'') [str ''secret'', str ''text''] (model_version documented_config) 1000 2 2]"

theorem texts_leave_no_trace_witness:
  "\<exists>t t'. run_steps (loop_step documented_config) started_loop start_events = Some t \<and>
     run_steps (loop_step documented_config) started_loop secret_events = Some t' \<and> log_calls (gw t') = log_calls (gw t)"
proof -
  have alike: "map conceal_event start_events = map conceal_event secret_events"
    by (simp add: start_events_def secret_events_def)
  obtain t where t: "run_steps (loop_step documented_config) started_loop start_events = Some t"
    using in_flight_run by blast
  from texts_leave_no_trace [OF alike t] t show ?thesis by auto
qed

end
