(* ===== verification/Model.thy ===== *)
theory Model
  imports Prelude
begin

text \<open>
  The worker's models, \<open>worker/model.py\<close>. \<open>FakeModel\<close> is modelled whole. \<open>ONNXModel.predict_batch\<close> is
  modelled around its two libraries: the tokenizer's \<open>encode_batch\<close> and the session's \<open>run\<close> are
  parameters (fields of a record), everything the source computes from them is a definition, over the
  reals where numpy has 32-bit floats. \<open>None\<close> is an exception of the call. What the batcher relies on
  is the interface \<open>batch_model\<close>: one prediction per text; \<open>rowwise_model\<close> adds that a text's
  prediction does not depend on its neighbours.
\<close>

section \<open>The interface\<close>

type_synonym prediction = "pystr \<times> pyfloat"
type_synonym batch_output = "prediction list \<times> pyfloat \<times> pyfloat \<times> pyfloat"

locale batch_model =
  fixes predict_batch :: "pystr list \<Rightarrow> batch_output option"
  assumes one_per_text: "predict_batch texts = Some (preds, timing) \<Longrightarrow> length preds = length texts"
begin

text \<open>The slice of a text list is answered by the same slice of the predictions.\<close>

lemma slice_length:
  assumes "predict_batch (xs @ ys @ zs) = Some (preds, timing)"
  shows "length (take (length ys) (drop (length xs) preds)) = length ys"
  using one_per_text [OF assms] by simp

end

locale rowwise_model = batch_model predict_batch
  for predict_batch :: "pystr list \<Rightarrow> batch_output option" +
  fixes row :: "pystr \<Rightarrow> prediction"
  assumes rows: "predict_batch texts = Some (preds, timing) \<Longrightarrow> preds = map row texts"
begin

lemma slice_rows:
  assumes "predict_batch (xs @ ys @ zs) = Some (preds, timing)"
  shows "take (length ys) (drop (length xs) preds) = map row ys"
  using rows [OF assms] by simp

end

section \<open>FakeModel\<close>

text \<open>
  \<open>str.lower\<close> on the code points that matter here: ASCII letters, and the two characters outside
  ASCII whose lower case contains an ASCII letter (U+0130, U+212A). Other letters map outside ASCII and
  are left as they are, which no search for an ASCII word can see.
\<close>

fun py_lower :: "pystr \<Rightarrow> pystr" where
  "py_lower [] = []"
| "py_lower (p # ps) =
     (if 65 \<le> p \<and> p \<le> 90 then (p + 32) # py_lower ps
      else if p = 304 then 105 # 775 # py_lower ps
      else if p = 8490 then 107 # py_lower ps
      else p # py_lower ps)"

definition label_of :: "pyfloat \<Rightarrow> pystr" where
  "label_of positive_score = (if 1 / 2 \<le> positive_score then str ''positive'' else str ''negative'')"

definition fake_row :: "pystr \<Rightarrow> prediction" where
  "fake_row text =
     (let positive_score =
            (if py_contains (str ''love'') (py_lower text) \<or> py_contains (str ''good'') (py_lower text)
             then 95 / 100 else 10 / 100)
      in (label_of positive_score, positive_score))"

fun fake_loop :: "prediction list \<Rightarrow> pystr list \<Rightarrow> prediction list" where
  "fake_loop results [] = results"
| "fake_loop results (text # texts) = fake_loop (results @ [fake_row text]) texts"

definition fake_predict_batch :: "pystr list \<Rightarrow> batch_output option" where
  "fake_predict_batch texts = Some (fake_loop [] texts, 1 / 10, 1 / 2, 1 / 10)"

lemma fake_loop_map: "fake_loop results texts = results @ map fake_row texts"
  by (induction texts arbitrary: results) simp_all

interpretation fake: rowwise_model fake_predict_batch fake_row
  by unfold_locales (simp_all add: fake_predict_batch_def fake_loop_map)

section \<open>ONNXModel\<close>

record encoding =
  ids :: "int list"
  attention_mask :: "int list"
  type_ids :: "int list"

text \<open>The tokenizer, the session with its input names, and the first output of a run, the logits.\<close>

record onnx_model =
  encode_batch :: "pystr list \<Rightarrow> encoding list option"
  input_names :: "string list"
  session_run :: "(string \<times> int list list) list \<Rightarrow> real list list option"

text \<open>\<open>np.array\<close> with a numeric dtype: the rows must have one length.\<close>

definition np_matrix :: "'a list list \<Rightarrow> 'a list list option" where
  "np_matrix rs = (if list_all (\<lambda>r. length r = length (hd rs)) rs then Some rs else None)"

definition feed :: "onnx_model \<Rightarrow> (string \<times> int list list) list \<Rightarrow> (string \<times> int list list) list" where
  "feed m arrays = filter (\<lambda>(name, _). name \<in> set (input_names m)) arrays"

text \<open>One row of the stable softmax; \<open>np.max\<close> of an empty row raises.\<close>

definition softmax_row :: "real list \<Rightarrow> real list option" where
  "softmax_row logits =
     (if logits = [] then None
      else let m = Max (set logits); e = map (\<lambda>x. exp (x - m)) logits
           in Some (map (\<lambda>x. x / sum_list e) e))"

definition score_row :: "real list \<Rightarrow> prediction option" where
  "score_row prob = (if length prob \<le> 1 then None else Some (label_of (prob ! 1), prob ! 1))"

fun each_row :: "('a \<Rightarrow> 'b option) \<Rightarrow> 'a list \<Rightarrow> 'b list option" where
  "each_row f [] = Some []"
| "each_row f (x # xs) =
     (case f x of None \<Rightarrow> None
      | Some y \<Rightarrow> map_option (\<lambda>ys. y # ys) (each_row f xs))"

definition milliseconds :: "pyfloat \<Rightarrow> pyfloat \<Rightarrow> pyfloat" where
  "milliseconds t0 t1 = (t1 - t0) * 1000"

definition onnx_predict_batch :: "onnx_model \<Rightarrow> (nat \<Rightarrow> pyfloat) \<Rightarrow> pystr list \<Rightarrow> batch_output option" where
  "onnx_predict_batch m clock texts =
     (if texts = [] then Some ([], 0, 0, 0)
      else case encode_batch m texts of
          None \<Rightarrow> None
        | Some encodings \<Rightarrow>
          (case (np_matrix (map ids encodings), np_matrix (map attention_mask encodings),
                 np_matrix (map type_ids encodings)) of
             (Some input_ids, Some mask_rows, Some token_type_ids) \<Rightarrow>
               (case session_run m (feed m [(''input_ids'', input_ids), (''attention_mask'', mask_rows),
                                            (''token_type_ids'', token_type_ids)]) of
                  None \<Rightarrow> None
                | Some logits \<Rightarrow>
                    (case each_row softmax_row logits of
                       None \<Rightarrow> None
                     | Some probs \<Rightarrow>
                         map_option (\<lambda>results.
                             (results, milliseconds (clock 0) (clock 1), milliseconds (clock 1) (clock 2),
                              milliseconds (clock 2) (clock 3)))
                           (each_row score_row probs)))
           | _ \<Rightarrow> None))"

section \<open>The softmax\<close>

lemma each_row_map: "each_row f xs = Some ys \<longleftrightarrow> map f xs = map Some ys"
  by (induction xs arbitrary: ys) (auto simp: Cons_eq_map_conv split: option.splits)

lemma each_row_length: "each_row f xs = Some ys \<Longrightarrow> length ys = length xs"
  by (metis each_row_map length_map)

lemma each_row_nth: "each_row f xs = Some ys \<Longrightarrow> i < length xs \<Longrightarrow> f (xs ! i) = Some (ys ! i)"
  by (metis each_row_map each_row_length nth_map)

lemma exps_pos: "xs \<noteq> [] \<Longrightarrow> 0 < sum_list (map (\<lambda>x. exp (x - m)) (xs :: real list))"
proof (induction xs)
  case (Cons x xs)
  then show ?case by (cases "xs = []") (simp_all add: add_pos_pos)
qed simp

text \<open>Subtracting the maximum does not change the quotient: it only keeps the exponentials small.\<close>

lemma softmax_row_unshifted:
  assumes "xs \<noteq> []"
  shows "softmax_row xs = Some (map (\<lambda>x. exp x / sum_list (map exp xs)) xs)"
proof -
  define m where "m = Max (set xs)"
  have split: "exp (x - m) = exp x * exp (- m)" for x by (simp add: exp_add [symmetric])
  have "exp (x - m) / sum_list (map (\<lambda>x. exp (x - m)) xs) = exp x / sum_list (map exp xs)" for x
    by (simp add: split sum_list_mult_const)
  then show ?thesis using assms by (simp add: softmax_row_def Let_def m_def [symmetric] comp_def)
qed

lemma softmax_row_exponents:
  "xs \<noteq> [] \<Longrightarrow> x \<in> set xs \<Longrightarrow> exp (x - Max (set xs)) \<le> (1 :: real)"
  by simp

lemma softmax_row_sum:
  assumes "softmax_row xs = Some ps"
  shows "length ps = length xs \<and> sum_list ps = 1 \<and> list_all (\<lambda>p. 0 < p \<and> p \<le> 1) ps"
proof -
  have ne: "xs \<noteq> []" using assms by (auto simp: softmax_row_def)
  then have ps: "ps = map (\<lambda>x. exp x / sum_list (map exp xs)) xs"
    using assms softmax_row_unshifted by simp
  let ?t = "sum_list (map exp xs)"
  have pos: "0 < ?t" using exps_pos [OF ne, of 0] by simp
  have "sum_list ps = ?t / ?t"
    unfolding ps by (simp add: divide_inverse sum_list_mult_const)
  moreover have "exp x \<le> ?t" if "x \<in> set xs" for x
    by (rule member_le_sum_list) (use that in auto)
  ultimately show ?thesis
    using pos by (auto simp: ps list_all_iff field_simps)
qed

lemma softmax_two:
  "softmax_row [a, b] = Some [1 / (1 + exp (b - a)), 1 / (1 + exp (a - b))]"
proof -
  have "exp a + exp b \<noteq> 0" by (smt (verit) exp_gt_zero)
  then have "exp b / (exp a + exp b) = 1 / (1 + exp (a - b))" "exp a / (exp a + exp b) = 1 / (1 + exp (b - a))"
    by (simp_all add: exp_diff field_simps)
  then show ?thesis by (simp add: softmax_row_unshifted)
qed

lemma score_two:
  "score_row [1 / (1 + exp (b - a)), 1 / (1 + exp (a - b))] =
     Some (if a \<le> b then str ''positive'' else str ''negative'', 1 / (1 + exp (a - b)))"
proof -
  have pos: "0 < 1 + exp (a - b)" by (smt (verit) exp_gt_zero)
  have "1 / 2 \<le> 1 / (1 + exp (a - b)) \<longleftrightarrow> 1 + exp (a - b) \<le> 2"
    using pos by (simp only: divide_le_eq le_divide_eq) auto
  also have "\<dots> \<longleftrightarrow> exp (a - b) \<le> 1" by linarith
  also have "\<dots> \<longleftrightarrow> a \<le> b" by simp
  finally show ?thesis by (simp add: score_row_def label_of_def)
qed

section \<open>ONNXModel, end to end\<close>

text \<open>With two logits per text the score is the logistic function of their difference.\<close>

definition sentiment :: "real \<Rightarrow> real \<Rightarrow> prediction" where
  "sentiment negative_logit positive_logit =
     (if negative_logit \<le> positive_logit then str ''positive'' else str ''negative'',
      1 / (1 + exp (negative_logit - positive_logit)))"

end
