(* ===== verification/Batcher.thy ===== *)
theory Batcher
  imports Errors Model
begin

text \<open>
  The worker's batcher, \<open>worker/batcher.py\<close>: the bounded queue, the loop that collects requests into
  batches, the execution of a batch on the model and the resolution of the futures the callers wait
  on. The loop is cut at its \<open>await\<close>s: \<open>loop_pc\<close> says where it is suspended, and each definition below
  is the code from one \<open>await\<close> to the next, or a block of it. Every \<open>loop.time()\<close> of a stretch reads
  the next value of its clock \<open>clk\<close>.
\<close>

section \<open>State\<close>

record batcher_result =
  br_predictions :: "prediction list"
  br_queue_ms :: pyfloat
  br_preprocess_ms :: pyfloat
  br_inference_ms :: pyfloat
  br_postprocess_ms :: pyfloat
  br_worker_total_ms :: pyfloat

text \<open>An envelope's future is named by the index \<open>en_future\<close> of the list of futures.\<close>

record envelope =
  en_request_id :: pystr
  en_inputs :: "pystr list"
  en_local_deadline :: pyfloat
  en_enqueue_time :: pyfloat
  en_future :: nat

datatype future = FPending | FResult batcher_result | FException app_error | FCancelled

datatype loop_pc =
    NoTask
  | Scheduled
  | AtQueue
  | Collecting "envelope list" nat pyfloat
      \<comment> \<open>in \<open>wait_for\<close>: \<open>batch\<close>, \<open>total_items\<close>, \<open>deadline_timer\<close>\<close>
  | Executing "envelope list" "(nat \<times> nat) list" "pystr list" pyfloat
      \<comment> \<open>in \<open>run_in_executor\<close>: \<open>valid_batch\<close>, \<open>slices\<close>, \<open>flattened_inputs\<close>, \<open>start_process_time\<close>\<close>
  | Ended

record batcher_config =
  bc_queue_capacity :: int
  bc_max_batch_requests :: int
  bc_max_batch_items :: int
  bc_max_batch_delay_ms :: int

text \<open>
  \<open>calls\<close> holds the envelope of every accepted \<open>enqueue\<close> call, a local variable of its coroutine;
  \<open>invalid_state\<close> is set when a future that is done is resolved again (\<open>InvalidStateError\<close>);
  \<open>cancel_pending\<close> when \<open>close\<close> has cancelled the loop's task and the task has not run since.
\<close>

record batcher =
  queue :: "envelope list"
  next_envelope :: "envelope option"
  stopping_loop :: bool
  pc :: loop_pc
  futures :: "future list"
  calls :: "envelope list"
  cancel_pending :: bool
  invalid_state :: bool

definition init_batcher :: batcher where
  "init_batcher =
     \<lparr>queue = [], next_envelope = None, stopping_loop = False, pc = NoTask, futures = [], calls = [],
      cancel_pending = False, invalid_state = False\<rparr>"

definition queue_depth :: "batcher \<Rightarrow> nat" where
  "queue_depth s = length (queue s) + (if next_envelope s \<noteq> None then 1 else 0)"

section \<open>Futures\<close>

definition future_done :: "envelope \<Rightarrow> batcher \<Rightarrow> bool" where
  "future_done e s \<longleftrightarrow> futures s ! en_future e \<noteq> FPending"

definition resolve :: "envelope \<Rightarrow> future \<Rightarrow> batcher \<Rightarrow> batcher" where
  "resolve e v s =
     (if future_done e s then s\<lparr>invalid_state := True\<rparr>
      else s\<lparr>futures := (futures s)[en_future e := v]\<rparr>)"

definition expire :: "string \<Rightarrow> envelope \<Rightarrow> batcher \<Rightarrow> batcher" where
  "expire message e s = resolve e (FException (DeadlineExceededError message)) s"

definition later :: "nat \<Rightarrow> (nat \<Rightarrow> pyfloat) \<Rightarrow> nat \<Rightarrow> pyfloat" where
  "later n clk = (\<lambda>i. clk (i + n))"

section \<open>\<open>enqueue\<close> and \<open>start\<close>\<close>

text \<open>\<open>put_nowait\<close> on an \<open>asyncio.Queue\<close>: a maximum size of 0 or less is no bound.\<close>

definition queue_full :: "batcher_config \<Rightarrow> batcher \<Rightarrow> bool" where
  "queue_full b s \<longleftrightarrow> 0 < bc_queue_capacity b \<and> bc_queue_capacity b \<le> int (length (queue s))"

definition start_loop :: "batcher \<Rightarrow> batcher" where
  "start_loop s = (if pc s = NoTask \<or> pc s = Ended then s\<lparr>pc := Scheduled, cancel_pending := False\<rparr> else s)"

text \<open>
  Up to \<open>await future\<close>. A future that was created for a call the queue rejects is dropped with the
  call, so it gets no index.
\<close>

definition enqueue ::
  "batcher_config \<Rightarrow> pystr \<Rightarrow> pystr list \<Rightarrow> pyfloat \<Rightarrow> pyfloat \<Rightarrow> batcher \<Rightarrow> (app_error + nat) \<times> batcher" where
  "enqueue b request_id inputs local_deadline now s =
     (if stopping_loop s then (Inl (WorkerQueueFullError ''Worker is shutting down.''), s)
      else
        let e = \<lparr>en_request_id = request_id, en_inputs = inputs, en_local_deadline = local_deadline,
                 en_enqueue_time = now, en_future = length (futures s)\<rparr>
        in if queue_full b s
           then (Inl (WorkerQueueFullError ''Worker queue capacity reached.''), s)
           else (Inr (length (futures s)),
                 start_loop (s\<lparr>queue := queue s @ [e], futures := futures s @ [FPending],
                               calls := calls s @ [e]\<rparr>)))"

section \<open>\<open>_process_batch\<close>\<close>

text \<open>
  The loop over the batch before the \<open>await\<close>: it drops the envelopes whose future is done, fails the
  expired ones, and builds \<open>valid_batch\<close>, \<open>flattened_inputs\<close> and \<open>slices\<close>, the latter from \<open>idx\<close> on.
\<close>

fun prepare ::
  "(nat \<Rightarrow> pyfloat) \<Rightarrow> nat \<Rightarrow> envelope list \<Rightarrow> batcher \<Rightarrow>
     envelope list \<times> pystr list \<times> (nat \<times> nat) list \<times> batcher" where
  "prepare clk idx [] s = ([], [], [], s)"
| "prepare clk idx (env # batch) s =
     (if future_done env s then prepare clk idx batch s
      else if en_local_deadline env < clk 0
      then prepare (later 1 clk) idx batch (expire ''Deadline expired before execution.'' env s)
      else (let count = length (en_inputs env);
                (valid_batch, flattened_inputs, slices, t) = prepare (later 1 clk) (idx + count) batch s
            in (env # valid_batch, en_inputs env @ flattened_inputs, (idx, idx + count) # slices, t)))"

definition py_slice :: "nat \<times> nat \<Rightarrow> 'a list \<Rightarrow> 'a list" where
  "py_slice se xs = take (snd se - fst se) (drop (fst se) xs)"

text \<open>The loop after the \<open>await\<close>; \<open>clk 0\<close> is \<open>end_process_time\<close> in \<open>execute_end\<close>.\<close>

fun deliver ::
  "(nat \<Rightarrow> pyfloat) \<Rightarrow> pyfloat \<Rightarrow> pyfloat \<Rightarrow> batch_output \<Rightarrow> (envelope \<times> nat \<times> nat) list \<Rightarrow> batcher \<Rightarrow> batcher" where
  "deliver clk start_time end_time out [] s = s"
| "deliver clk start_time end_time out ((env, slice) # rest) s =
     (if future_done env s then deliver clk start_time end_time out rest s
      else
        let (preds, prep_ms, inf_ms, post_ms) = out;
            result = \<lparr>br_predictions = py_slice slice preds,
                      br_queue_ms = max 0 ((start_time - en_enqueue_time env) * 1000),
                      br_preprocess_ms = prep_ms, br_inference_ms = inf_ms, br_postprocess_ms = post_ms,
                      br_worker_total_ms = max 0 ((end_time - en_enqueue_time env) * 1000)\<rparr>
        in deliver (later 1 clk) start_time end_time out rest
             (if en_local_deadline env < clk 0
              then expire ''Deadline expired after execution.'' env s
              else resolve env (FResult result) s))"

fun fail_all :: "envelope list \<Rightarrow> batcher \<Rightarrow> batcher" where
  "fail_all [] s = s"
| "fail_all (env # rest) s =
     (if future_done env s then fail_all rest s
      else fail_all rest (resolve env (FException (InternalServerError ''Inference failed.'')) s))"

text \<open>
  From the call of \<open>_process_batch\<close>: it suspends in the executor, or returns to the loop's next round,
  \<open>next_round\<close>.
\<close>

type_synonym segment = "(nat \<Rightarrow> pyfloat) \<Rightarrow> batcher \<Rightarrow> batcher"

definition process_batch :: "segment \<Rightarrow> envelope list \<Rightarrow> segment" where
  "process_batch next_round batch clk s =
     (let start_process_time = clk 0;
          (valid_batch, flattened_inputs, slices, t) = prepare (later 1 clk) 0 batch s
      in if valid_batch = [] then next_round (later (Suc (length batch)) clk) t
         else t\<lparr>pc := Executing valid_batch slices flattened_inputs start_process_time\<rparr>)"

text \<open>From the executor's answer; \<open>None\<close> is an exception of the model.\<close>

definition finish_batch ::
  "envelope list \<Rightarrow> (nat \<times> nat) list \<Rightarrow> pyfloat \<Rightarrow> batch_output option \<Rightarrow> segment" where
  "finish_batch valid_batch slices start_process_time out clk s =
     (case out of
        None \<Rightarrow> fail_all valid_batch s
      | Some answer \<Rightarrow>
          deliver (later 1 clk) start_process_time (clk 0) answer (zip valid_batch slices) s)"

section \<open>\<open>_run_loop\<close>\<close>

text \<open>The head of the collecting loop: suspend in \<open>wait_for\<close>, or go on to the batch.\<close>

definition collect ::
  "batcher_config \<Rightarrow> segment \<Rightarrow> envelope list \<Rightarrow> nat \<Rightarrow> pyfloat \<Rightarrow> segment" where
  "collect b next_round batch total_items deadline_timer clk s =
     (if int (length batch) < bc_max_batch_requests b \<and> int total_items < bc_max_batch_items b
      then if deadline_timer - clk 0 \<le> 0 then process_batch next_round batch (later 1 clk) s
           else s\<lparr>pc := Collecting batch total_items deadline_timer\<rparr>
      else process_batch next_round batch clk s)"

text \<open>A round from the first envelope on.\<close>

definition take_first :: "batcher_config \<Rightarrow> segment \<Rightarrow> envelope \<Rightarrow> segment" where
  "take_first b next_round first clk s =
     (if future_done first s then next_round clk s
      else if en_local_deadline first < clk 0
      then next_round (later 1 clk) (expire ''Deadline expired in queue.'' first s)
      else collect b next_round [first] (length (en_inputs first))
             (clk 1 + of_int (bc_max_batch_delay_ms b) / 1000) (later 2 clk) s)"

text \<open>
  The head of the outer loop. Without a \<open>next_envelope\<close> a round begins at the queue (\<open>idle\<close>); with one,
  it begins with it, and the round after that has none.
\<close>

definition idle :: segment where
  "idle clk s = (if stopping_loop s then s\<lparr>pc := Ended\<rparr> else s\<lparr>pc := AtQueue\<rparr>)"

definition loop_top :: "batcher_config \<Rightarrow> segment" where
  "loop_top b clk s =
     (case next_envelope s of
        None \<Rightarrow> idle clk s
      | Some first \<Rightarrow> if stopping_loop s then s\<lparr>pc := Ended\<rparr>
                      else take_first b idle first clk (s\<lparr>next_envelope := None\<rparr>))"

text \<open>An envelope arrives while the loop collects.\<close>

definition collect_item ::
  "batcher_config \<Rightarrow> envelope list \<Rightarrow> nat \<Rightarrow> pyfloat \<Rightarrow> envelope \<Rightarrow> segment" where
  "collect_item b batch total_items deadline_timer envelope clk s =
     (if future_done envelope s then collect b (loop_top b) batch total_items deadline_timer clk s
      else if en_local_deadline envelope < clk 0
      then collect b (loop_top b) batch total_items deadline_timer (later 1 clk)
             (expire ''Deadline expired in queue.'' envelope s)
      else if bc_max_batch_items b < int (total_items + length (en_inputs envelope))
      then process_batch (loop_top b) batch (later 1 clk) (s\<lparr>next_envelope := Some envelope\<rparr>)
      else collect b (loop_top b) (batch @ [envelope]) (total_items + length (en_inputs envelope))
             deadline_timer (later 1 clk) s)"

text \<open>\<open>close\<close>, and what the cancellation does where it reaches the loop's task.\<close>

definition close_batcher :: "batcher \<Rightarrow> batcher" where
  "close_batcher s =
     (if pc s = NoTask \<or> pc s = Ended then s\<lparr>stopping_loop := True\<rparr>
      else s\<lparr>stopping_loop := True, cancel_pending := True\<rparr>)"

definition cancelled_loop :: "batcher_config \<Rightarrow> segment" where
  "cancelled_loop b clk s =
     (let t = s\<lparr>cancel_pending := False\<rparr> in
      case pc s of
        Collecting batch total_items deadline_timer \<Rightarrow> process_batch (loop_top b) batch clk t
      | _ \<Rightarrow> t\<lparr>pc := Ended\<rparr>)"

section \<open>Steps\<close>

datatype batch_event =
    Enqueue pystr "pystr list" pyfloat pyfloat
  | CancelCall nat
  | FirstRun "nat \<Rightarrow> pyfloat"
  | Arrive "nat \<Rightarrow> pyfloat"
  | TimerFires "nat \<Rightarrow> pyfloat"
  | ModelReturns "nat \<Rightarrow> pyfloat"
  | Close
  | DeliverCancel "nat \<Rightarrow> pyfloat"

fun batch_step ::
  "batcher_config \<Rightarrow> (pystr list \<Rightarrow> batch_output option) \<Rightarrow> batcher \<Rightarrow> batch_event \<Rightarrow> batcher option" where
  "batch_step b model s (Enqueue request_id inputs local_deadline now) =
     Some (snd (enqueue b request_id inputs local_deadline now s))"
| "batch_step b model s (CancelCall i) =
     (if i < length (futures s) \<and> futures s ! i = FPending
      then Some (s\<lparr>futures := (futures s)[i := FCancelled]\<rparr>) else None)"
| "batch_step b model s (FirstRun clk) =
     (if pc s = Scheduled \<and> \<not> cancel_pending s then Some (loop_top b clk s) else None)"
| "batch_step b model s (Arrive clk) =
     (case queue s of
        [] \<Rightarrow> None
      | e # rest \<Rightarrow>
          if cancel_pending s then None
          else (case pc s of
              AtQueue \<Rightarrow> Some (take_first b (loop_top b) e clk (s\<lparr>queue := rest\<rparr>))
            | Collecting batch total_items deadline_timer \<Rightarrow>
                Some (collect_item b batch total_items deadline_timer e clk (s\<lparr>queue := rest\<rparr>))
            | _ \<Rightarrow> None))"
| "batch_step b model s (TimerFires clk) =
     (case pc s of
        Collecting batch total_items deadline_timer \<Rightarrow>
          if cancel_pending s then None else Some (process_batch (loop_top b) batch clk s)
      | _ \<Rightarrow> None)"
| "batch_step b model s (ModelReturns clk) =
     (case pc s of
        Executing valid_batch slices flattened_inputs start_process_time \<Rightarrow>
          if cancel_pending s then None
          else Some (loop_top b (later (Suc (length valid_batch)) clk)
                 (finish_batch valid_batch slices start_process_time (model flattened_inputs) clk s))
      | _ \<Rightarrow> None)"
| "batch_step b model s Close = Some (close_batcher s)"
| "batch_step b model s (DeliverCancel clk) =
     (if cancel_pending s then Some (cancelled_loop b clk s) else None)"

end
