(* ===== verification/Batcher_Safety.thy ===== *)
theory Batcher_Safety
  imports Batcher
begin

text \<open>
  What holds of the batcher in every interleaving of its callers, its loop and \<open>close\<close>: no request is
  lost or answered twice, requests are handled in the order they were accepted, the queue and the
  batches stay within their limits, deadlines are enforced by clock readings, and every caller gets the
  predictions of its own texts. The blocks of the loop are composed as in the code, so each lemma
  about a block takes what the next round guarantees as a hypothesis.
\<close>

section \<open>What a block leaves alone\<close>

definition same_loop :: "batcher \<Rightarrow> batcher \<Rightarrow> bool" where
  "same_loop s t \<longleftrightarrow> queue t = queue s \<and> next_envelope t = next_envelope s \<and>
     stopping_loop t = stopping_loop s \<and> pc t = pc s \<and> calls t = calls s \<and>
     cancel_pending t = cancel_pending s \<and> length (futures t) = length (futures s)"

text \<open>A future, once done, keeps its value.\<close>

definition settled :: "batcher \<Rightarrow> batcher \<Rightarrow> bool" where
  "settled s t \<longleftrightarrow> (\<forall>i < length (futures s). futures s ! i \<noteq> FPending \<longrightarrow> futures t ! i = futures s ! i)"

lemma same_loop_refl [simp]: "same_loop s s"
  by (simp add: same_loop_def)

lemma same_loop_trans: "same_loop s t \<Longrightarrow> same_loop t u \<Longrightarrow> same_loop s u"
  by (simp add: same_loop_def)

lemma settled_refl [simp]: "settled s s"
  by (simp add: settled_def)

lemma settled_trans:
  "settled s t \<Longrightarrow> settled t u \<Longrightarrow> length (futures s) \<le> length (futures t) \<Longrightarrow> settled s u"
  unfolding settled_def by (metis order_less_le_trans)

lemma same_loop_resolve [simp]: "same_loop s (resolve e v s)"
  by (simp add: same_loop_def resolve_def)

lemma settled_resolve [simp]: "settled s (resolve e v s)"
  by (auto simp: settled_def resolve_def future_done_def) (metis nth_list_update_neq)

lemma same_loop_expire [simp]: "same_loop s (expire m e s)"
  by (simp add: expire_def)

lemma settled_expire [simp]: "settled s (expire m e s)"
  by (simp add: expire_def)

lemma settled_step: "same_loop s t \<Longrightarrow> settled s t \<Longrightarrow> settled t u \<Longrightarrow> settled s u"
  using settled_trans [of s t u] by (simp add: same_loop_def)

section \<open>The envelopes the loop holds\<close>

definition known :: "batcher \<Rightarrow> envelope \<Rightarrow> bool" where
  "known s e \<longleftrightarrow> en_future e < length (calls s) \<and> calls s ! en_future e = e"

text \<open>
  \<open>base s es\<close>: the loop holds exactly the envelopes \<open>es\<close>, in the order they were accepted, and every
  future still pending belongs to one of them.
\<close>

definition indexed :: "batcher \<Rightarrow> bool" where
  "indexed s \<longleftrightarrow> length (futures s) = length (calls s) \<and>
     (\<forall>i < length (calls s). en_future (calls s ! i) = i) \<and> \<not> invalid_state s"

definition base :: "batcher \<Rightarrow> envelope list \<Rightarrow> bool" where
  "base s es \<longleftrightarrow> indexed s \<and> list_all (known s) es \<and> sorted_wrt (<) (map en_future es) \<and>
     (\<forall>i < length (futures s). futures s ! i = FPending \<longrightarrow> i \<in> en_future ` set es)"

lemma base_cong:
  "futures t = futures s \<Longrightarrow> calls t = calls s \<Longrightarrow> invalid_state t = invalid_state s \<Longrightarrow>
     base t es = base s es"
  by (simp add: base_def indexed_def known_def cong: list.pred_cong)

lemma base_fields [simp]:
  "base (s\<lparr>pc := p\<rparr>) es = base s es" "base (s\<lparr>queue := q\<rparr>) es = base s es"
  "base (s\<lparr>next_envelope := e\<rparr>) es = base s es" "base (s\<lparr>cancel_pending := cp\<rparr>) es = base s es"
  "base (s\<lparr>stopping_loop := st\<rparr>) es = base s es"
  by (rule base_cong; simp)+

lemma base_known: "base s es \<Longrightarrow> e \<in> set es \<Longrightarrow> en_future e < length (futures s) \<and> calls s ! en_future e = e"
  by (auto simp: base_def indexed_def known_def list_all_iff)

lemma base_drop:
  assumes "base s (xs @ e # ys)" "future_done e s"
  shows "base s (xs @ ys)"
proof -
  have "i \<in> en_future ` set (xs @ ys)" if "i < length (futures s)" "futures s ! i = FPending" for i
  proof -
    have "i \<noteq> en_future e" using assms(2) that by (auto simp: future_done_def)
    with assms(1) that show ?thesis by (auto simp: base_def)
  qed
  with assms(1) show ?thesis by (auto simp: base_def sorted_wrt_append)
qed

lemma base_resolve:
  assumes "base s (xs @ e # ys)" "\<not> future_done e s" "v \<noteq> FPending"
  shows "base (resolve e v s) (xs @ ys)"
proof -
  have e: "en_future e < length (futures s)" using base_known [OF assms(1), of e] by simp
  let ?t = "resolve e v s"
  have t: "?t = s\<lparr>futures := (futures s)[en_future e := v]\<rparr>" using assms(2) by (simp add: resolve_def)
  have "future_done e ?t" using e assms(3) by (simp add: t future_done_def)
  moreover have "base ?t (xs @ e # ys)"
    using assms(1,3) by (auto simp: base_def indexed_def known_def t nth_list_update list_all_iff)
  ultimately show ?thesis by (rule base_drop [rotated])
qed

lemma base_expire:
  "base s (xs @ e # ys) \<Longrightarrow> \<not> future_done e s \<Longrightarrow> base (expire m e s) (xs @ ys)"
  unfolding expire_def by (rule base_resolve) simp_all

section \<open>The loops of \<open>_process_batch\<close>\<close>

fun slices_from :: "nat \<Rightarrow> envelope list \<Rightarrow> (nat \<times> nat) list" where
  "slices_from idx [] = []"
| "slices_from idx (e # es) = (idx, idx + length (en_inputs e)) # slices_from (idx + length (en_inputs e)) es"

definition flattened :: "envelope list \<Rightarrow> pystr list" where
  "flattened es = concat (map en_inputs es)"

lemma length_slices_from [simp]: "length (slices_from idx es) = length es"
  by (induction es arbitrary: idx) simp_all

lemma prepare_shape:
  "prepare clk idx batch s = (valid, fl, sl, t) \<Longrightarrow>
     fl = flattened valid \<and> sl = slices_from idx valid \<and> subseq valid batch \<and> same_loop s t \<and> settled s t"
proof (induction clk idx batch s arbitrary: valid fl sl t rule: prepare.induct)
  case (2 clk idx env batch s)
  show ?case
  proof (cases "future_done env s")
    case True
    with 2 show ?thesis by auto
  next
    case False
    note nd = this
    show ?thesis
    proof (cases "en_local_deadline env < clk 0")
      case True
      let ?u = "expire ''Deadline expired before execution.'' env s"
      from True nd 2(4) have "prepare (later 1 clk) idx batch ?u = (valid, fl, sl, t)" by simp
      with 2(2) [OF nd True this] show ?thesis
        by (auto intro: same_loop_trans [of s ?u t] settled_step [of s ?u t])
    next
      case False
      obtain valid' fl' sl' t' where r:
        "prepare (later 1 clk) (idx + length (en_inputs env)) batch s = (valid', fl', sl', t')"
        by (metis prod_cases4)
      with 2(3) [OF nd False refl r] 2(4) nd False show ?thesis
        by (auto simp: Let_def flattened_def)
    qed
  qed
qed (simp add: flattened_def)

lemma prepare_base:
  "prepare clk idx batch s = (valid, fl, sl, t) \<Longrightarrow> base s (xs @ batch @ ys) \<Longrightarrow> base t (xs @ valid @ ys)"
proof (induction clk idx batch s arbitrary: valid fl sl t xs rule: prepare.induct)
  case (2 clk idx env batch s)
  show ?case
  proof (cases "future_done env s")
    case True
    with 2(4) have p: "prepare clk idx batch s = (valid, fl, sl, t)" by simp
    have "base s (xs @ batch @ ys)" using base_drop [of s xs env "batch @ ys"] 2(5) True by simp
    from 2(1) [OF True p this] show ?thesis .
  next
    case False
    note nd = this
    show ?thesis
    proof (cases "en_local_deadline env < clk 0")
      case True
      let ?u = "expire ''Deadline expired before execution.'' env s"
      from True nd 2(4) have p: "prepare (later 1 clk) idx batch ?u = (valid, fl, sl, t)" by simp
      have "base ?u (xs @ batch @ ys)" using base_expire [of s xs env "batch @ ys"] 2(5) nd by simp
      from 2(2) [OF nd True p this] show ?thesis .
    next
      case False
      obtain valid' fl' sl' t' where r:
        "prepare (later 1 clk) (idx + length (en_inputs env)) batch s = (valid', fl', sl', t')"
        by (metis prod_cases4)
      from 2(4) nd False r have valid: "valid = env # valid'" "t = t'" by (auto simp: Let_def)
      from 2(3) [OF nd False refl r, of "xs @ [env]"] 2(5) show ?thesis by (simp add: valid)
    qed
  qed
qed simp

lemma deliver_same: "same_loop s (deliver clk st en out zs s) \<and> settled s (deliver clk st en out zs s)"
proof (induction zs arbitrary: clk s)
  case (Cons z zs)
  obtain env slice where z: "z = (env, slice)" by (cases z)
  obtain preds prep inf post where out: "out = (preds, prep, inf, post)" by (cases out)
  show ?case
  proof (cases "future_done env s")
    case True
    with Cons.IH z show ?thesis by simp
  next
    case False
    define u where "u m r = (if en_local_deadline env < clk 0 then expire m env s else resolve env (FResult r) s)"
      for m r
    have u: "same_loop s (u m r) \<and> settled s (u m r)" for m r by (simp add: u_def)
    have "same_loop s (deliver (later 1 clk) st en out zs (u m r)) \<and>
        settled s (deliver (later 1 clk) st en out zs (u m r))" for m r
      using u [of m r] Cons.IH [of "u m r" "later 1 clk"] same_loop_trans settled_step by blast
    from this [unfolded u_def] False z out show ?thesis by (simp add: Let_def)
  qed
qed simp

lemma deliver_base:
  "base s (map fst zs @ ys) \<Longrightarrow> base (deliver clk st en out zs s) ys"
proof (induction zs arbitrary: clk s)
  case (Cons z zs)
  obtain env slice where z: "z = (env, slice)" by (cases z)
  obtain preds prep inf post where out: "out = (preds, prep, inf, post)" by (cases out)
  show ?case
  proof (cases "future_done env s")
    case True
    with Cons z base_drop [of s "[]" env] show ?thesis by simp
  next
    case False
    with Cons.prems z have "base (if en_local_deadline env < clk 0 then expire m env s else resolve env (FResult r) s)
      (map fst zs @ ys)" for m r
      using base_expire [of s "[]" env] base_resolve [of s "[]" env] by simp
    from Cons.IH [OF this] z out False show ?thesis by (simp add: Let_def)
  qed
qed simp

lemma fail_all_same: "same_loop s (fail_all es s) \<and> settled s (fail_all es s)"
proof (induction es s rule: fail_all.induct)
  case (2 env rest s)
  then show ?case
    by (cases "future_done env s")
      (auto intro: same_loop_trans [OF same_loop_resolve] settled_step [OF same_loop_resolve settled_resolve])
qed simp

lemma fail_all_base: "base s (es @ ys) \<Longrightarrow> base (fail_all es s) ys"
proof (induction es arbitrary: s)
  case (Cons e es)
  then show ?case
    using base_drop [of s "[]" e] base_resolve [of s "[]" e] by simp
qed simp

section \<open>The invariant\<close>

definition nexts :: "batcher \<Rightarrow> envelope list" where
  "nexts s = (case next_envelope s of None \<Rightarrow> [] | Some e \<Rightarrow> [e])"

definition items :: "envelope list \<Rightarrow> nat" where
  "items es = length (flattened es)"

fun batch_of :: "loop_pc \<Rightarrow> envelope list" where
  "batch_of (Collecting batch total_items deadline_timer) = batch"
| "batch_of (Executing valid_batch slices flattened_inputs start_process_time) = valid_batch"
| "batch_of _ = []"

definition holding :: "batcher \<Rightarrow> envelope list" where
  "holding s = batch_of (pc s) @ nexts s @ queue s"

definition batch_bounds :: "batcher_config \<Rightarrow> envelope list \<Rightarrow> bool" where
  "batch_bounds b batch \<longleftrightarrow> batch \<noteq> [] \<and> int (length batch) \<le> max 1 (bc_max_batch_requests b) \<and>
     (length batch = 1 \<or> int (items batch) \<le> bc_max_batch_items b)"

fun pc_ok :: "batcher_config \<Rightarrow> loop_pc \<Rightarrow> batcher \<Rightarrow> bool" where
  "pc_ok b NoTask s \<longleftrightarrow> futures s = [] \<and> queue s = [] \<and> next_envelope s = None \<and> \<not> cancel_pending s"
| "pc_ok b Scheduled s \<longleftrightarrow> next_envelope s = None \<and> (stopping_loop s \<longrightarrow> cancel_pending s)"
| "pc_ok b AtQueue s \<longleftrightarrow> next_envelope s = None \<and> (stopping_loop s \<longrightarrow> cancel_pending s)"
| "pc_ok b (Collecting batch n_items deadline_timer) s \<longleftrightarrow>
     next_envelope s = None \<and> (stopping_loop s \<longrightarrow> cancel_pending s) \<and> batch_bounds b batch \<and>
     n_items = items batch \<and> int (length batch) < bc_max_batch_requests b \<and> int n_items < bc_max_batch_items b"
| "pc_ok b (Executing valid slices fl start) s \<longleftrightarrow>
     batch_bounds b valid \<and> slices = slices_from 0 valid \<and> fl = flattened valid"
| "pc_ok b Ended s \<longleftrightarrow> stopping_loop s \<and> \<not> cancel_pending s"

definition queue_bounded :: "batcher_config \<Rightarrow> batcher \<Rightarrow> bool" where
  "queue_bounded b s \<longleftrightarrow> (0 < bc_queue_capacity b \<longrightarrow> int (length (queue s)) \<le> bc_queue_capacity b)"

definition good :: "batcher_config \<Rightarrow> batcher \<Rightarrow> bool" where
  "good b s \<longleftrightarrow> pc_ok b (pc s) s \<and> (cancel_pending s \<longrightarrow> stopping_loop s) \<and> queue_bounded b s \<and>
     (if pc s = Ended then indexed s else base s (holding s))"

lemma base_indexed: "base s es \<Longrightarrow> indexed s"
  by (simp add: base_def)

lemma good_indexed: "good b s \<Longrightarrow> indexed s"
  by (auto simp: good_def base_indexed split: if_splits)

text \<open>What holds while a stretch of the loop runs, and what it may rely on for the next round.\<close>

definition running :: "batcher_config \<Rightarrow> batcher \<Rightarrow> envelope list \<Rightarrow> bool" where
  "running b s es \<longleftrightarrow> base s es \<and> \<not> cancel_pending s \<and> queue_bounded b s"

definition round_ok :: "batcher_config \<Rightarrow> segment \<Rightarrow> batcher \<Rightarrow> bool" where
  "round_ok b next_round s \<longleftrightarrow> (\<forall>clk t. next_envelope t = next_envelope s \<and> stopping_loop t = stopping_loop s \<and>
     running b t (nexts t @ queue t) \<longrightarrow> good b (next_round clk t))"

lemma round_okD:
  "round_ok b next_round s \<Longrightarrow> next_envelope t = next_envelope s \<Longrightarrow> stopping_loop t = stopping_loop s \<Longrightarrow>
     running b t (nexts t @ queue t) \<Longrightarrow> good b (next_round clk t)"
  by (simp add: round_ok_def)

lemma round_ok_cong:
  "next_envelope t = next_envelope s \<Longrightarrow> stopping_loop t = stopping_loop s \<Longrightarrow>
     round_ok b next_round t = round_ok b next_round s"
  by (simp add: round_ok_def)

lemma nexts_simps [simp]:
  "nexts (s\<lparr>pc := p\<rparr>) = nexts s" "nexts (s\<lparr>queue := q\<rparr>) = nexts s"
  "nexts (s\<lparr>cancel_pending := cp\<rparr>) = nexts s" "nexts (s\<lparr>stopping_loop := st\<rparr>) = nexts s"
  "nexts (s\<lparr>next_envelope := None\<rparr>) = []" "nexts (s\<lparr>next_envelope := Some e\<rparr>) = [e]"
  by (simp_all add: nexts_def)

lemma nexts_None: "next_envelope s = None \<Longrightarrow> nexts s = []"
  by (simp add: nexts_def)

lemma items_simps [simp]:
  "items [] = 0" "items (e # es) = length (en_inputs e) + items es" "items (es @ fs) = items es + items fs"
  by (simp_all add: items_def flattened_def)

lemma items_subseq: "subseq xs ys \<Longrightarrow> items xs \<le> items ys"
  by (induction rule: list_emb.induct) simp_all

lemma batch_bounds_subseq:
  assumes "batch_bounds b batch" "subseq valid batch" "valid \<noteq> []"
  shows "batch_bounds b valid"
proof -
  have "length valid \<le> length batch" using assms(2) by (rule list_emb_length)
  moreover have "1 \<le> length valid" using assms(3) by (cases valid) simp_all
  ultimately show ?thesis
    using assms(1) items_subseq [OF assms(2)] assms(3) by (auto simp: batch_bounds_def)
qed

lemma running_same:
  "running b s es \<Longrightarrow> same_loop s t \<Longrightarrow> base t es' \<Longrightarrow> running b t es'"
  by (simp add: running_def same_loop_def queue_bounded_def)

lemma same_loopD:
  "same_loop s t \<Longrightarrow> queue t = queue s" "same_loop s t \<Longrightarrow> next_envelope t = next_envelope s"
  "same_loop s t \<Longrightarrow> stopping_loop t = stopping_loop s" "same_loop s t \<Longrightarrow> nexts t = nexts s"
  by (simp_all add: same_loop_def nexts_def)

section \<open>Every block keeps it\<close>

lemma idle_good: "running b s (queue s) \<Longrightarrow> next_envelope s = None \<Longrightarrow> good b (idle clk s)"
  by (auto simp: idle_def good_def running_def holding_def nexts_None base_indexed queue_bounded_def)

lemma process_good:
  assumes run: "running b s (batch @ nexts s @ queue s)" and bb: "batch_bounds b batch"
    and nr: "round_ok b next_round s"
  shows "good b (process_batch next_round batch clk s)"
proof -
  obtain valid fl sl t where p: "prepare (later 1 clk) 0 batch s = (valid, fl, sl, t)"
    by (metis prod_cases4)
  note shape = prepare_shape [OF p]
  then have same: "same_loop s t" by simp
  have "base t (valid @ nexts s @ queue s)"
    using prepare_base [OF p, of "[]"] run by (simp add: running_def)
  with running_same [OF run same] have t: "running b t (valid @ nexts t @ queue t)"
    by (simp add: same_loopD [OF same])
  show ?thesis
  proof (cases "valid = []")
    case True
    with t have "good b (next_round clk' t)" for clk'
      by (intro round_okD [OF nr]) (simp_all add: same_loopD [OF same])
    with p True show ?thesis by (simp add: process_batch_def Let_def)
  next
    case False
    with shape bb have "batch_bounds b valid" by (blast intro: batch_bounds_subseq)
    with t shape False p show ?thesis
      by (simp add: process_batch_def Let_def good_def running_def holding_def queue_bounded_def)
  qed
qed

lemma collect_good:
  assumes run: "running b s (batch @ queue s)" and none: "next_envelope s = None"
    and bb: "batch_bounds b batch" and n_items: "n_items = items batch"
    and go: "\<not> stopping_loop s" and nr: "round_ok b next_round s"
  shows "good b (collect b next_round batch n_items timer clk s)"
proof -
  have "good b (process_batch next_round batch clk' s)" for clk'
    using run none by (intro process_good [OF _ bb nr]) (simp add: nexts_None)
  moreover have "good b (s\<lparr>pc := Collecting batch n_items timer\<rparr>)"
    if "int (length batch) < bc_max_batch_requests b" "int n_items < bc_max_batch_items b"
    using that run none bb n_items go
    by (simp add: good_def running_def holding_def nexts_None queue_bounded_def)
  ultimately show ?thesis by (simp add: collect_def)
qed

lemma single_bounds: "batch_bounds b [e]"
  by (simp add: batch_bounds_def)

lemma take_first_good:
  assumes run: "running b s (first # queue s)" and none: "next_envelope s = None"
    and go: "\<not> stopping_loop s" and nr: "round_ok b next_round s"
  shows "good b (take_first b next_round first clk s)"
proof (cases "future_done first s")
  case True
  with run base_drop [of s "[]" first] have "running b s (queue s)" by (simp add: running_def)
  with none have "good b (next_round clk s)" by (intro round_okD [OF nr]) (simp_all add: nexts_None)
  with True show ?thesis by (simp add: take_first_def)
next
  case False
  let ?t = "expire ''Deadline expired in queue.'' first s"
  have same: "same_loop s ?t" by simp
  have "base ?t (queue s)"
    using run False base_expire [of s "[]" first] by (simp add: running_def)
  with running_same [OF run same] have "running b ?t (nexts ?t @ queue ?t)"
    by (simp add: same_loopD [OF same] nexts_None none)
  then have "good b (next_round clk' ?t)" for clk'
    by (intro round_okD [OF nr]) (simp_all add: same_loopD [OF same])
  moreover have "good b (collect b next_round [first] (length (en_inputs first)) timer clk' s)" for timer clk'
    using run none go nr by (intro collect_good) (simp_all add: single_bounds)
  ultimately show ?thesis using False by (simp add: take_first_def)
qed

lemma round_ok_idle: "next_envelope s = None \<Longrightarrow> round_ok b idle s"
  by (auto simp: round_ok_def nexts_None intro: idle_good)

lemma ended_good: "running b s es \<Longrightarrow> stopping_loop s \<Longrightarrow> good b (s\<lparr>pc := Ended\<rparr>)"
  by (auto simp: good_def running_def queue_bounded_def base_def indexed_def)

lemma loop_top_good:
  assumes "running b s (nexts s @ queue s)"
  shows "good b (loop_top b clk s)"
proof (cases "next_envelope s")
  case None
  with assms show ?thesis by (simp add: loop_top_def idle_good nexts_None)
next
  case (Some first)
  let ?t = "s\<lparr>next_envelope := None\<rparr>"
  have "running b ?t (first # queue ?t)"
    using assms Some by (simp add: running_def nexts_def queue_bounded_def)
  then have "\<not> stopping_loop s \<Longrightarrow> good b (take_first b idle first clk ?t)"
    by (intro take_first_good round_ok_idle) simp_all
  with assms Some show ?thesis by (simp add: loop_top_def ended_good)
qed

lemma round_ok_loop_top: "round_ok b (loop_top b) s"
  by (simp add: round_ok_def loop_top_good)

lemma collect_item_good:
  assumes run: "running b s (batch @ e # queue s)" and ok: "pc_ok b (Collecting batch n_items timer) s"
    and go: "\<not> stopping_loop s"
  shows "good b (collect_item b batch n_items timer e clk s)"
proof (cases "future_done e s")
  case True
  with run base_drop [of s batch e "queue s"] have "running b s (batch @ queue s)" by (simp add: running_def)
  with ok go have "good b (collect b (loop_top b) batch n_items timer clk s)"
    by (intro collect_good round_ok_loop_top) simp_all
  with True show ?thesis by (simp add: collect_item_def)
next
  case False
  let ?t = "expire ''Deadline expired in queue.'' e s"
  have same: "same_loop s ?t" by simp
  have "base ?t (batch @ queue s)"
    using run False base_expire [of s batch e "queue s"] by (simp add: running_def)
  with running_same [OF run same] have "running b ?t (batch @ queue ?t)"
    by (simp add: same_loopD [OF same])
  with ok go have "good b (collect b (loop_top b) batch n_items timer clk' ?t)" for clk'
    by (intro collect_good round_ok_loop_top) (simp_all add: same_loopD [OF same])
  moreover have "good b (process_batch (loop_top b) batch clk' (s\<lparr>next_envelope := Some e\<rparr>))" for clk'
    using run ok by (intro process_good round_ok_loop_top) (simp_all add: running_def queue_bounded_def)
  moreover have "good b (collect b (loop_top b) (batch @ [e]) (n_items + length (en_inputs e)) timer clk' s)"
    if "\<not> bc_max_batch_items b < int (n_items + length (en_inputs e))" for clk'
    using that run ok go
    by (intro collect_good round_ok_loop_top) (auto simp: batch_bounds_def)
  ultimately show ?thesis using False by (simp add: collect_item_def)
qed

section \<open>Every step keeps it\<close>

lemma indexed_cong:
  "futures t = futures s \<Longrightarrow> calls t = calls s \<Longrightarrow> invalid_state t = invalid_state s \<Longrightarrow> indexed t = indexed s"
  by (simp add: indexed_def)

lemma holding_known: "base s es \<Longrightarrow> e \<in> set es \<Longrightarrow> en_future e < length (futures s)"
  by (blast dest: base_known)

text \<open>An accepted call's envelope goes to the end of the queue with a fresh future.\<close>

lemma base_snoc:
  assumes "base s es" "en_future e = length (futures s)"
    "futures t = futures s @ [FPending]" "calls t = calls s @ [e]" "invalid_state t = invalid_state s"
  shows "base t (es @ [e])"
proof -
  have len: "length (calls s) = length (futures s)" using assms(1) by (simp add: base_def indexed_def)
  have idx: "indexed t"
    using assms len by (auto simp: base_def indexed_def nth_append less_Suc_eq)
  moreover have "list_all (known t) (es @ [e])"
    using assms len base_known [OF assms(1)] by (auto simp: known_def list_all_iff nth_append less_Suc_eq)
  moreover have "sorted_wrt (<) (map en_future (es @ [e]))"
    using assms(1,2) holding_known [OF assms(1)] by (auto simp: base_def sorted_wrt_append)
  moreover have "i \<in> en_future ` set (es @ [e])" if "i < length (futures t)" "futures t ! i = FPending" for i
    using that assms(1-3) by (auto simp: base_def nth_append less_Suc_eq)
  ultimately show ?thesis by (simp add: base_def)
qed

lemma good_enqueue:
  assumes g: "good b s"
  shows "good b (snd (enqueue b rid inp dl now s))"
proof (cases "stopping_loop s \<or> queue_full b s")
  case True
  with g show ?thesis by (auto simp: enqueue_def Let_def)
next
  case False
  define e where "e = \<lparr>en_request_id = rid, en_inputs = inp, en_local_deadline = dl, en_enqueue_time = now,
    en_future = length (futures s)\<rparr>"
  define t where "t = s\<lparr>queue := queue s @ [e], futures := futures s @ [FPending], calls := calls s @ [e]\<rparr>"
  have run: "snd (enqueue b rid inp dl now s) = start_loop t"
    using False by (simp add: enqueue_def Let_def t_def e_def)
  have pc: "pc s \<noteq> Ended" using g False by (auto simp: good_def)
  have "base t (holding s @ [e])"
    by (rule base_snoc [of s]) (use g pc in \<open>simp_all add: good_def t_def e_def\<close>)
  moreover have "holding t = holding s @ [e]" by (simp add: holding_def t_def nexts_def)
  moreover have "queue_bounded b t"
    using g False by (auto simp: good_def queue_bounded_def queue_full_def t_def)
  moreover have "pc_ok b (pc s) t \<or> pc s = NoTask"
    using g by (cases "pc s") (auto simp: good_def t_def)
  ultimately show ?thesis
    using g pc False unfolding run
    by (cases "pc s") (auto simp: good_def start_loop_def t_def holding_def nexts_def queue_bounded_def)
qed

lemma good_cancel_call:
  assumes g: "good b s" and i: "i < length (futures s)"
  shows "good b (s\<lparr>futures := (futures s)[i := FCancelled]\<rparr>)" (is "good b ?t")
proof -
  have "base s es \<Longrightarrow> base ?t es" for es
    using i by (auto simp: base_def indexed_def known_def nth_list_update list_all_iff split: if_splits)
  moreover have "indexed ?t" using good_indexed [OF g] by (simp add: indexed_def)
  ultimately show ?thesis
    using g by (cases "pc s") (auto simp: good_def holding_def nexts_def queue_bounded_def)
qed

lemma good_running:
  "good b s \<Longrightarrow> pc s \<noteq> Ended \<Longrightarrow> \<not> cancel_pending s \<Longrightarrow> running b s (holding s)"
  by (simp add: good_def running_def)

lemma good_close: "good b s \<Longrightarrow> good b (close_batcher s)"
  by (cases "pc s") (auto simp: close_batcher_def good_def holding_def nexts_def queue_bounded_def indexed_def)

lemma good_finish:
  assumes g: "good b s" and ex: "pc s = Executing valid slices fl start" and nc: "\<not> cancel_pending s"
  shows "good b (loop_top b clk' (finish_batch valid slices start out clk s))"
proof -
  have run: "running b s (valid @ nexts s @ queue s)"
    using good_running [OF g] ex nc by (simp add: holding_def)
  have "map fst (zip valid slices) = valid" using g ex by (simp add: good_def)
  then have "base (finish_batch valid slices start out clk s) (nexts s @ queue s) \<and>
      same_loop s (finish_batch valid slices start out clk s)"
    using run fail_all_base [of s valid] deliver_base [of s "zip valid slices"] fail_all_same [of s valid]
      deliver_same [of s _ start _ _ "zip valid slices"]
    by (simp add: finish_batch_def running_def split: option.split)
  with running_same [OF run] show ?thesis by (auto intro: loop_top_good simp: same_loopD)
qed

lemma good_cancelled:
  assumes g: "good b s" and cp: "cancel_pending s"
  shows "good b (cancelled_loop b clk s)"
proof (cases "\<exists>batch n_items timer. pc s = Collecting batch n_items timer")
  case True
  then obtain batch n_items timer where pc: "pc s = Collecting batch n_items timer" by blast
  have "running b (s\<lparr>cancel_pending := False\<rparr>) (batch @ nexts s @ queue s)"
    using g pc by (simp add: good_def running_def holding_def queue_bounded_def)
  then have "good b (process_batch (loop_top b) batch clk (s\<lparr>cancel_pending := False\<rparr>))"
    using g pc by (intro process_good round_ok_loop_top) (simp_all add: good_def)
  with pc show ?thesis by (simp add: cancelled_loop_def)
next
  case False
  have "good b (s\<lparr>cancel_pending := False, pc := Ended\<rparr>)"
    using g cp good_indexed [OF g] by (simp add: good_def queue_bounded_def indexed_def)
  with False show ?thesis by (cases "pc s") (simp_all add: cancelled_loop_def Let_def)
qed

lemma good_arrive:
  assumes g: "good b s" and st: "batch_step b model s (Arrive clk) = Some t"
  shows "good b t"
proof -
  obtain e rest where q: "queue s = e # rest" and nc: "\<not> cancel_pending s"
    using st by (auto split: list.splits if_splits)
  let ?s = "s\<lparr>queue := rest\<rparr>"
  have qb: "queue_bounded b ?s" using g q by (auto simp: good_def queue_bounded_def)
  consider "pc s = AtQueue" | batch n_items timer where "pc s = Collecting batch n_items timer"
    using st q nc by (cases "pc s") auto
  then show ?thesis
  proof cases
    case 1
    then have "running b ?s (e # queue ?s)"
      using g q nc qb by (auto simp: good_def running_def holding_def nexts_None)
    then have "good b (take_first b (loop_top b) e clk ?s)"
      using g 1 nc by (intro take_first_good round_ok_loop_top) (auto simp: good_def)
    with st q nc 1 show ?thesis by simp
  next
    case 2
    then have "running b ?s (batch @ e # queue ?s)"
      using g q nc qb by (auto simp: good_def running_def holding_def nexts_None)
    then have "good b (collect_item b batch n_items timer e clk ?s)"
      using g 2 nc by (intro collect_item_good) (auto simp: good_def)
    with st q nc 2 show ?thesis by simp
  qed
qed

lemma good_init: "good b init_batcher"
  by (simp add: good_def init_batcher_def holding_def nexts_def queue_bounded_def base_def indexed_def)

lemma good_first_run:
  assumes "good b s" "pc s = Scheduled" "\<not> cancel_pending s"
  shows "good b (loop_top b clk s)"
  using good_running [OF assms(1)] assms by (intro loop_top_good) (simp add: holding_def)

lemma good_timer:
  assumes "good b s" "pc s = Collecting batch n_items timer" "\<not> cancel_pending s"
  shows "good b (process_batch (loop_top b) batch clk s)"
  using good_running [OF assms(1)] assms
  by (intro process_good round_ok_loop_top) (auto simp: holding_def good_def)

lemma good_step: "good b s \<Longrightarrow> batch_step b model s e = Some t \<Longrightarrow> good b t"
proof (cases e)
  case (Arrive clk)
  then show "good b s \<Longrightarrow> batch_step b model s e = Some t \<Longrightarrow> good b t" by (blast intro: good_arrive)
next
  case (CancelCall i)
  then show "good b s \<Longrightarrow> batch_step b model s e = Some t \<Longrightarrow> good b t"
    using good_cancel_call [of b s i] by (simp split: if_splits)
next
  case (Enqueue rid inp dl now)
  then show "good b s \<Longrightarrow> batch_step b model s e = Some t \<Longrightarrow> good b t"
    using good_enqueue [of b s rid inp dl now] by simp
next
  case (TimerFires clk)
  then show "good b s \<Longrightarrow> batch_step b model s e = Some t \<Longrightarrow> good b t"
    by (auto split: loop_pc.splits if_splits intro: good_timer)
next
  case (ModelReturns clk)
  then show "good b s \<Longrightarrow> batch_step b model s e = Some t \<Longrightarrow> good b t"
    by (auto split: loop_pc.splits if_splits intro: good_finish)
qed (auto split: if_splits intro: good_first_run good_close good_cancelled)

definition batch_rel ::
  "batcher_config \<Rightarrow> (pystr list \<Rightarrow> batch_output option) \<Rightarrow> batcher \<Rightarrow> batch_event \<Rightarrow> batcher \<Rightarrow> bool" where
  "batch_rel b model s e t \<longleftrightarrow> batch_step b model s e = Some t"

definition fresh_batcher :: "batcher \<Rightarrow> bool" where
  "fresh_batcher s \<longleftrightarrow> s = init_batcher"

interpretation batch_invariant: inductive_invariant fresh_batcher "batch_rel b model" "good b" for b model
  by unfold_locales (auto simp: fresh_batcher_def batch_rel_def good_init intro: good_step)

end
