(* ===== verification/Batcher_Answers.thy ===== *)
theory Batcher_Answers
  imports Batcher_Safety
begin

text \<open>
  What a step of the batcher may do to the callers' futures: a future that is done keeps its value, and
  one that becomes done gets its own slice of the model's output while a clock reading was within its
  deadline, a deadline error after a reading past its deadline, or the internal error of a batch whose
  model call failed. The interfaces of the models turn the slice into the caller's own predictions.
\<close>

section \<open>Effects on futures\<close>

text \<open>
  \<open>own\<close> is the property of an envelope's predictions, \<open>readings\<close> the values the clock showed and \<open>failed\<close>
  whether the model raised.
\<close>

definition explained :: "(envelope \<Rightarrow> prediction list \<Rightarrow> bool) \<Rightarrow> pyfloat set \<Rightarrow> bool \<Rightarrow> envelope \<Rightarrow> future \<Rightarrow> bool" where
  "explained own readings failed e v =
     (case v of
        FResult r \<Rightarrow> own e (br_predictions r) \<and> (\<exists>t \<in> readings. t \<le> en_local_deadline e)
      | FException a \<Rightarrow>
          (\<exists>m. a = DeadlineExceededError m) \<and> (\<exists>t \<in> readings. en_local_deadline e < t) \<or>
          a = InternalServerError ''Inference failed.'' \<and> failed
      | _ \<Rightarrow> False)"

definition effect ::
  "(envelope \<Rightarrow> prediction list \<Rightarrow> bool) \<Rightarrow> pyfloat set \<Rightarrow> bool \<Rightarrow> batcher \<Rightarrow> batcher \<Rightarrow> bool" where
  "effect own readings failed s t \<longleftrightarrow>
     length (futures t) = length (futures s) \<and> calls t = calls s \<and>
     (\<forall>i < length (futures s).
        (futures s ! i \<noteq> FPending \<longrightarrow> futures t ! i = futures s ! i) \<and>
        (futures s ! i = FPending \<and> futures t ! i \<noteq> FPending \<longrightarrow>
           explained own readings failed (calls s ! i) (futures t ! i)))"

lemma effect_refl [simp]: "effect own C f s s"
  by (simp add: effect_def)

lemma effect_trans: "effect own C f s t \<Longrightarrow> effect own C f t u \<Longrightarrow> effect own C f s u"
  unfolding effect_def by (metis (no_types, lifting))

lemma effect_fields [simp]:
  "effect own C f s (t\<lparr>pc := p\<rparr>) = effect own C f s t"
  "effect own C f s (t\<lparr>next_envelope := e\<rparr>) = effect own C f s t"
  "effect own C f (s\<lparr>queue := q\<rparr>) t = effect own C f s t"
  "effect own C f (s\<lparr>cancel_pending := cp\<rparr>) t = effect own C f s t"
  "effect own C f (s\<lparr>next_envelope := e\<rparr>) t = effect own C f s t"
  by (simp_all add: effect_def)

lemma known_cong: "calls t = calls s \<Longrightarrow> list_all (known t) es = list_all (known s) es"
  by (simp add: known_def cong: list.pred_cong)

lemma known_fields [simp]:
  "known (s\<lparr>queue := q\<rparr>) = known s" "known (s\<lparr>cancel_pending := cp\<rparr>) = known s"
  "known (s\<lparr>next_envelope := ne\<rparr>) = known s"
  by (simp_all add: known_def fun_eq_iff)

lemma effect_calls: "effect own C f s t \<Longrightarrow> calls t = calls s"
  by (simp add: effect_def)

lemma effect_resolve:
  "known s e \<Longrightarrow> explained own C f e v \<Longrightarrow> effect own C f s (resolve e v s)"
proof -
  assume e: "known s e" "explained own C f e v"
  have "(futures s)[en_future e := v] ! i = (if i = en_future e then v else futures s ! i)"
    if "i < length (futures s)" for i
    using that by (simp add: nth_list_update)
  with e show ?thesis by (simp add: effect_def resolve_def future_done_def known_def)
qed

lemma effect_expire:
  "known s e \<Longrightarrow> en_local_deadline e < t \<Longrightarrow> t \<in> C \<Longrightarrow> effect own C f s (expire m e s)"
  unfolding expire_def by (rule effect_resolve) (auto simp: explained_def)

text \<open>Every reading of a clock lies in \<open>C\<close>; a clock read later as well.\<close>

definition clock_in :: "pyfloat set \<Rightarrow> (nat \<Rightarrow> pyfloat) \<Rightarrow> bool" where
  "clock_in C clk \<longleftrightarrow> range clk \<subseteq> C"

lemma clock_inD: "clock_in C clk \<Longrightarrow> clk i \<in> C"
  by (auto simp: clock_in_def)

lemma clock_in_later [simp]: "clock_in C clk \<Longrightarrow> clock_in C (later n clk)"
  by (auto simp: clock_in_def later_def)

section \<open>The effect of every block\<close>

lemma effect_prepare:
  "prepare clk idx batch s = (valid, fl, sl, t) \<Longrightarrow> clock_in C clk \<Longrightarrow> list_all (known s) batch \<Longrightarrow>
     effect own C f s t"
proof (induction clk idx batch s arbitrary: valid fl sl t rule: prepare.induct)
  case (2 clk idx env batch s)
  show ?case
  proof (cases "future_done env s")
    case True
    with 2 show ?thesis by simp
  next
    case False
    note nd = this
    show ?thesis
    proof (cases "en_local_deadline env < clk 0")
      case True
      let ?u = "expire ''Deadline expired before execution.'' env s"
      from True nd 2(4) have p: "prepare (later 1 clk) idx batch ?u = (valid, fl, sl, t)" by simp
      have u: "effect own C f s ?u"
        using 2(6) True clock_inD [OF 2(5)] by (intro effect_expire) simp_all
      with 2(6) have "list_all (known ?u) batch"
        by (simp add: known_cong [OF effect_calls [OF u]])
      from effect_trans [OF u 2(2) [OF nd True p _ this]] 2(5) show ?thesis by simp
    next
      case False
      obtain valid' fl' sl' t' where r:
        "prepare (later 1 clk) (idx + length (en_inputs env)) batch s = (valid', fl', sl', t')"
        by (metis prod_cases4)
      from 2(3) [OF nd False refl r] 2(4-6) nd False r show ?thesis by (simp add: Let_def)
    qed
  qed
qed simp

lemma effect_deliver:
  assumes "\<And>env slice. (env, slice) \<in> set zs \<Longrightarrow> own env (py_slice slice (fst out))"
    "clock_in C clk" "list_all (known s \<circ> fst) zs"
  shows "effect own C f s (deliver clk st en out zs s)"
  using assms
proof (induction zs arbitrary: clk s)
  case (Cons z zs)
  obtain env slice where z: "z = (env, slice)" by (cases z)
  obtain preds prep inf post where out: "out = (preds, prep, inf, post)" by (cases out)
  show ?case
  proof (cases "future_done env s")
    case True
    with Cons z show ?thesis by simp
  next
    case False
    define u where "u m r = (if en_local_deadline env < clk 0 then expire m env s else resolve env (FResult r) s)"
      for m r
    have u: "effect own C f s (u m r)" if "br_predictions r = py_slice slice preds" for m r
    proof (cases "en_local_deadline env < clk 0")
      case True
      with Cons.prems(3) z clock_inD [OF Cons.prems(2)] show ?thesis
        by (auto simp: u_def intro: effect_expire)
    next
      case False
      then have "clk 0 \<le> en_local_deadline env" by simp
      moreover have "own env (br_predictions r)" using Cons.prems(1) [of env slice] that z out by simp
      ultimately have "explained own C f env (FResult r)"
        using clock_inD [OF Cons.prems(2), of 0] by (auto simp: explained_def)
      with Cons.prems(3) z False show ?thesis by (simp add: u_def effect_resolve)
    qed
    have "effect own C f (u m r) (deliver (later 1 clk) st en out zs (u m r))"
      if "br_predictions r = py_slice slice preds" for m r
    proof (rule Cons.IH)
      show "list_all (known (u m r) \<circ> fst) zs"
        using Cons.prems(3) effect_calls [OF u [OF that, of m]]
        by (simp add: list_all_iff known_def)
    qed (use Cons.prems in simp_all)
    with u have "effect own C f s (deliver (later 1 clk) st en out zs (u m r))"
      if "br_predictions r = py_slice slice preds" for m r
      using that effect_trans by blast
    from this [unfolded u_def] False z out show ?thesis by (simp add: Let_def)
  qed
qed simp

lemma effect_fail_all:
  "list_all (known s) es \<Longrightarrow> effect own C True s (fail_all es s)"
proof (induction es arbitrary: s)
  case (Cons e es)
  let ?u = "resolve e (FException (InternalServerError ''Inference failed.'')) s"
  have u: "effect own C True s ?u" using Cons.prems by (intro effect_resolve) (simp_all add: explained_def)
  have "list_all (known ?u) es" using Cons.prems by (simp add: known_cong [OF effect_calls [OF u]])
  from effect_trans [OF u Cons.IH [OF this]] Cons show ?case by simp
qed simp

text \<open>The blocks that go on to the next round.\<close>

definition round_effect :: "(batcher \<Rightarrow> batcher \<Rightarrow> bool) \<Rightarrow> pyfloat set \<Rightarrow> segment \<Rightarrow> batcher \<Rightarrow> bool" where
  "round_effect eff C next_round s \<longleftrightarrow>
     (\<forall>clk t. clock_in C clk \<and> calls t = calls s \<and> next_envelope t = next_envelope s \<longrightarrow> eff t (next_round clk t))"

lemma effect_process:
  assumes "clock_in C clk" "list_all (known s) batch" "round_effect (effect own C f) C next_round s"
  shows "effect own C f s (process_batch next_round batch clk s)"
proof -
  obtain valid fl sl t where p: "prepare (later 1 clk) 0 batch s = (valid, fl, sl, t)"
    by (metis prod_cases4)
  have t: "effect own C f s t" using assms(1,2) by (intro effect_prepare [OF p]) simp_all
  have "next_envelope t = next_envelope s" using prepare_shape [OF p] by (simp add: same_loop_def)
  with assms t have "effect own C f t (next_round (later n clk) t)" for n
    by (simp add: round_effect_def effect_calls)
  with t have "effect own C f s (next_round (later n clk) t)" for n by (rule effect_trans)
  with p t show ?thesis by (simp add: process_batch_def Let_def)
qed

lemma effect_collect:
  assumes "clock_in C clk" "list_all (known s) batch" "round_effect (effect own C f) C next_round s"
  shows "effect own C f s (collect b next_round batch n_items timer clk s)"
  using effect_process [OF _ assms(2,3)] assms(1) by (simp add: collect_def)

lemma effect_take_first:
  assumes "clock_in C clk" "known s first" "round_effect (effect own C f) C next_round s"
  shows "effect own C f s (take_first b next_round first clk s)"
proof -
  let ?u = "expire ''Deadline expired in queue.'' first s"
  have "effect own C f s (next_round (later 1 clk) ?u)" if "en_local_deadline first < clk 0"
  proof (rule effect_trans)
    show u: "effect own C f s ?u" using assms(2) that clock_inD [OF assms(1)] by (rule effect_expire)
    show "effect own C f ?u (next_round (later 1 clk) ?u)"
      using assms(1,3) effect_calls [OF u] same_loop_expire [of s]
      by (simp add: round_effect_def same_loop_def)
  qed
  moreover have "effect own C f s (next_round clk s)" using assms by (simp add: round_effect_def)
  ultimately show ?thesis
    using assms by (simp add: take_first_def effect_collect)
qed

lemma effect_idle: "effect own C f s (idle clk s)"
  by (simp add: idle_def)

lemma effect_loop_top:
  assumes "clock_in C clk" "list_all (known s) (nexts s)"
  shows "effect own C f s (loop_top b clk s)"
proof -
  have "effect own C f s (take_first b idle e clk (s\<lparr>next_envelope := None\<rparr>))" if "next_envelope s = Some e" for e
  proof -
    have "known s e" using assms(2) that by (simp add: nexts_def)
    then have "effect own C f (s\<lparr>next_envelope := None\<rparr>) (take_first b idle e clk (s\<lparr>next_envelope := None\<rparr>))"
      by (intro effect_take_first) (simp_all add: assms(1) known_def round_effect_def effect_idle)
    then show ?thesis by simp
  qed
  then show ?thesis by (simp add: loop_top_def effect_idle split: option.split)
qed

lemma round_effect_top: "list_all (known s) (nexts s) \<Longrightarrow> round_effect (effect own C f) C (loop_top b) s"
proof -
  assume k: "list_all (known s) (nexts s)"
  have "list_all (known t) (nexts t)" if "calls t = calls s" "next_envelope t = next_envelope s" for t
    using k that by (simp add: nexts_def known_def cong: option.case_cong list.pred_cong)
  then show ?thesis by (simp add: round_effect_def effect_loop_top)
qed

lemma effect_collect_item:
  assumes "clock_in C clk" "list_all (known s) (batch @ [e])" "next_envelope s = None"
  shows "effect own C f s (collect_item b batch n_items timer e clk s)"
proof -
  have k: "list_all (known s) batch" "known s e" using assms(2) by simp_all
  let ?u = "expire ''Deadline expired in queue.'' e s"
  have n: "round_effect (effect own C f) C (loop_top b) t" if "next_envelope t = None" for t
    using that by (intro round_effect_top) (simp add: nexts_def)
  have "effect own C f s (collect b (loop_top b) batch n_items timer (later 1 clk) ?u)"
    if "en_local_deadline e < clk 0"
  proof (rule effect_trans)
    show u: "effect own C f s ?u" using k(2) that clock_inD [OF assms(1)] by (rule effect_expire)
    have "next_envelope ?u = None" using same_loop_expire [of s _ e] assms(3) by (simp add: same_loop_def)
    then show "effect own C f ?u (collect b (loop_top b) batch n_items timer (later 1 clk) ?u)"
      using assms(1) k(1) by (intro effect_collect n) (simp_all add: known_cong [OF effect_calls [OF u]])
  qed
  moreover have "effect own C f s (process_batch (loop_top b) batch (later 1 clk) (s\<lparr>next_envelope := Some e\<rparr>))"
  proof -
    have "effect own C f (s\<lparr>next_envelope := Some e\<rparr>)
        (process_batch (loop_top b) batch (later 1 clk) (s\<lparr>next_envelope := Some e\<rparr>))"
      using assms(1) k by (intro effect_process round_effect_top) (simp_all add: known_def cong: list.pred_cong)
    then show ?thesis by simp
  qed
  ultimately show ?thesis
    using assms(1) k n [OF assms(3)] by (simp add: collect_item_def effect_collect)
qed

section \<open>The effect of a step\<close>

fun readings :: "batch_event \<Rightarrow> pyfloat set" where
  "readings (FirstRun clk) = range clk"
| "readings (Arrive clk) = range clk"
| "readings (TimerFires clk) = range clk"
| "readings (ModelReturns clk) = range clk"
| "readings (DeliverCancel clk) = range clk"
| "readings _ = {}"

fun model_failed :: "(pystr list \<Rightarrow> batch_output option) \<Rightarrow> loop_pc \<Rightarrow> bool" where
  "model_failed model (Executing valid slices fl start) \<longleftrightarrow> model fl = None"
| "model_failed model _ \<longleftrightarrow> False"

lemma clock_in_range [simp]: "clock_in (range clk) clk"
  by (simp add: clock_in_def)

lemma good_known: "good b s \<Longrightarrow> pc s \<noteq> Ended \<Longrightarrow> list_all (known s) (holding s)"
  by (simp add: good_def base_def)

lemma slices_from_zip:
  "(env, slice) \<in> set (zip v (slices_from idx v)) \<Longrightarrow>
     \<exists>xs ys. flattened v = xs @ en_inputs env @ ys \<and>
       slice = (idx + length xs, idx + length xs + length (en_inputs env))"
proof (induction v arbitrary: idx)
  case (Cons e v)
  show ?case
  proof (cases "env = e \<and> slice = (idx, idx + length (en_inputs e))")
    case True
    then show ?thesis by (intro exI [of _ "[]"] exI [of _ "flattened v"]) (simp add: flattened_def)
  next
    case False
    with Cons obtain xs ys where "flattened v = xs @ en_inputs env @ ys"
      "slice = (idx + length (en_inputs e) + length xs,
         idx + length (en_inputs e) + length xs + length (en_inputs env))" by fastforce
    then show ?thesis
      by (intro exI [of _ "en_inputs e @ xs"] exI [of _ ys]) (simp add: flattened_def)
  qed
qed simp

definition owns :: "(pystr list \<Rightarrow> batch_output option) \<Rightarrow> (envelope \<Rightarrow> prediction list \<Rightarrow> bool) \<Rightarrow> bool" where
  "owns model own \<longleftrightarrow> (\<forall>xs ys env preds timing. model (xs @ en_inputs env @ ys) = Some (preds, timing) \<longrightarrow>
     own env (take (length (en_inputs env)) (drop (length xs) preds)))"

lemma effect_finish:
  assumes g: "good b s" and pc: "pc s = Executing valid slices fl start" and own: "owns model own"
  shows "effect own (range clk) (model_failed model (pc s)) s
    (loop_top b (later n clk) (finish_batch valid slices start (model fl) clk s))"
proof (rule effect_trans)
  let ?t = "finish_batch valid slices start (model fl) clk s"
  have shape: "slices = slices_from 0 valid" "fl = flattened valid"
    using g pc by (simp_all add: good_def)
  have k: "list_all (known s) valid" "list_all (known s) (nexts s)"
    using good_known [OF g] pc by (simp_all add: holding_def)
  show t: "effect own (range clk) (model_failed model (pc s)) s ?t"
  proof (cases "model fl")
    case None
    then show ?thesis using k by (simp add: finish_batch_def pc effect_fail_all)
  next
    case (Some out)
    have "effect own (range clk) (model_failed model (pc s)) s
        (deliver (later 1 clk) start (clk 0) out (zip valid slices) s)"
    proof (rule effect_deliver)
      fix env slice assume "(env, slice) \<in> set (zip valid slices)"
      then obtain xs ys where "flattened valid = xs @ en_inputs env @ ys"
        "slice = (length xs, length xs + length (en_inputs env))"
        using slices_from_zip [of env slice valid 0] shape by auto
      with Some own shape show "own env (py_slice slice (fst out))"
        unfolding owns_def by (cases out) (metis add_diff_cancel_left' fst_conv py_slice_def snd_conv)
    qed (use k in \<open>auto simp: list_all_iff dest: set_zip_leftD\<close>)
    with Some show ?thesis by (simp add: finish_batch_def)
  qed
  have "nexts ?t = nexts s"
    using fail_all_same [of s valid] deliver_same [of s "later 1 clk" start "clk 0" _ "zip valid slices"]
    by (simp add: finish_batch_def same_loopD split: option.split)
  with k t show "effect own (range clk) (model_failed model (pc s)) ?t (loop_top b (later n clk) ?t)"
    by (intro effect_loop_top) (simp_all add: known_cong [OF effect_calls])
qed

lemma effect_arrive:
  assumes g: "good b s" and st: "batch_step b model s (Arrive clk) = Some t"
  shows "effect own (range clk) f s t"
proof -
  obtain e rest where q: "queue s = e # rest" and nc: "\<not> cancel_pending s"
    using st by (auto split: list.splits if_splits)
  let ?s = "s\<lparr>queue := rest\<rparr>"
  have k: "list_all (known ?s) (holding s)" if "pc s \<noteq> Ended"
    using good_known [OF g that] by simp
  consider "pc s = AtQueue" | batch n_items timer where "pc s = Collecting batch n_items timer"
    using st q nc by (cases "pc s") auto
  then have "effect own (range clk) f ?s t"
  proof cases
    case 1
    then have n: "next_envelope s = None" using g by (simp add: good_def)
    then have "round_effect (effect own (range clk) f) (range clk) (loop_top b) ?s"
      by (intro round_effect_top) (simp add: nexts_def)
    then have "effect own (range clk) f ?s (take_first b (loop_top b) e clk ?s)"
      using k q 1 by (intro effect_take_first) (simp_all add: holding_def)
    with st q nc 1 show ?thesis by simp
  next
    case 2
    then have "next_envelope ?s = None" using g by (simp add: good_def)
    then have "effect own (range clk) f ?s (collect_item b batch n_items timer e clk ?s)"
      using k q 2 by (intro effect_collect_item) (simp_all add: holding_def)
    with st q nc 2 show ?thesis by simp
  qed
  then show ?thesis by simp
qed

text \<open>
  Each step keeps the done futures, and explains those it resolves: by the caller's own cancellation,
  or as above.
\<close>

definition step_explained ::
  "(pystr list \<Rightarrow> batch_output option) \<Rightarrow> (envelope \<Rightarrow> prediction list \<Rightarrow> bool) \<Rightarrow> batcher \<Rightarrow> batch_event \<Rightarrow> batcher \<Rightarrow> bool" where
  "step_explained model own s e t \<longleftrightarrow>
     length (futures s) \<le> length (futures t) \<and>
     (\<forall>i < length (futures t). length (futures s) \<le> i \<longrightarrow> futures t ! i = FPending) \<and>
     (\<forall>i < length (futures s). calls t ! i = calls s ! i \<and>
        (futures s ! i \<noteq> FPending \<longrightarrow> futures t ! i = futures s ! i) \<and>
        (futures s ! i = FPending \<and> futures t ! i \<noteq> FPending \<longrightarrow>
           e = CancelCall i \<and> futures t ! i = FCancelled \<or>
           explained own (readings e) (model_failed model (pc s)) (calls s ! i) (futures t ! i)))"

lemma step_explained_effect:
  "effect own (readings e) (model_failed model (pc s)) s t \<Longrightarrow> step_explained model own s e t"
  by (simp add: effect_def step_explained_def)

lemma enqueue_futures:
  assumes "enqueue b rid inp dl now s = (r, t)"
  shows "futures t = futures s \<and> calls t = calls s \<or>
    futures t = futures s @ [FPending] \<and> (\<exists>e. calls t = calls s @ [e])"
proof -
  have "futures (start_loop u) = futures u \<and> calls (start_loop u) = calls u" for u
    by (simp add: start_loop_def)
  with assms show ?thesis by (auto simp: enqueue_def Let_def split: if_splits)
qed

lemma step_explained:
  assumes g: "good b s" and st: "batch_step b model s e = Some t" and own: "owns model own"
  shows "step_explained model own s e t"
proof (cases e)
  case (Enqueue rid inp dl now)
  obtain r where "enqueue b rid inp dl now s = (r, t)"
    using st Enqueue by (cases "enqueue b rid inp dl now s") simp
  moreover have "length (calls s) = length (futures s)" using good_indexed [OF g] by (simp add: indexed_def)
  ultimately show ?thesis
    using enqueue_futures [of b rid inp dl now s r t]
    by (auto simp: step_explained_def nth_append)
next
  case (CancelCall i)
  with st show ?thesis by (auto simp: step_explained_def nth_list_update split: if_splits)
next
  case (FirstRun clk)
  with st g show ?thesis
    using good_known [OF g]
    by (intro step_explained_effect) (auto simp: holding_def split: if_splits intro!: effect_loop_top)
next
  case (Arrive clk)
  with st effect_arrive [OF g] show ?thesis by (intro step_explained_effect) simp
next
  case (TimerFires clk)
  with st obtain batch n_items timer where pc: "pc s = Collecting batch n_items timer"
    and t: "t = process_batch (loop_top b) batch clk s"
    by (auto split: loop_pc.splits if_splits)
  have "list_all (known s) (batch @ nexts s)" using good_known [OF g] pc by (simp add: holding_def)
  then have "effect own (readings e) f s t" for f
    using TimerFires t by (auto intro!: effect_process round_effect_top)
  then show ?thesis by (rule step_explained_effect)
next
  case (ModelReturns clk)
  with st obtain valid slices fl start where pc: "pc s = Executing valid slices fl start"
    and t: "t = loop_top b (later (Suc (length valid)) clk) (finish_batch valid slices start (model fl) clk s)"
    by (auto split: loop_pc.splits if_splits)
  from effect_finish [OF g pc own] ModelReturns t show ?thesis by (intro step_explained_effect) simp
next
  case Close
  with st show ?thesis by (auto simp: step_explained_def close_batcher_def)
next
  case (DeliverCancel clk)
  with st have t: "t = cancelled_loop b clk s" by (auto split: if_splits)
  have "effect own (readings e) f s t" for f
  proof (cases "\<exists>batch n_items timer. pc s = Collecting batch n_items timer")
    case True
    then obtain batch n_items timer where pc: "pc s = Collecting batch n_items timer" by blast
    have "list_all (known s) (batch @ nexts s)" using good_known [OF g] pc by (simp add: holding_def)
    then have "effect own (range clk) f (s\<lparr>cancel_pending := False\<rparr>)
        (process_batch (loop_top b) batch clk (s\<lparr>cancel_pending := False\<rparr>))"
      by (intro effect_process round_effect_top) simp_all
    with t pc DeliverCancel show ?thesis by (simp add: cancelled_loop_def)
  next
    case False
    then show ?thesis unfolding t by (cases "pc s") (simp_all add: cancelled_loop_def Let_def effect_def)
  qed
  then show ?thesis by (rule step_explained_effect)
qed

section \<open>The answers, over a whole run\<close>

definition answered :: "(envelope \<Rightarrow> prediction list \<Rightarrow> bool) \<Rightarrow> batcher \<Rightarrow> bool" where
  "answered own s \<longleftrightarrow> (\<forall>i < length (futures s). \<forall>r. futures s ! i = FResult r \<longrightarrow>
     own (calls s ! i) (br_predictions r))"

lemma answered_step:
  assumes "good b s" "answered own s" "batch_step b model s e = Some t" "owns model own"
  shows "answered own t"
  unfolding answered_def
proof (intro allI impI)
  fix i r assume i: "i < length (futures t)" and r: "futures t ! i = FResult r"
  note x = step_explained [OF assms(1,3,4)]
  show "own (calls t ! i) (br_predictions r)"
  proof (cases "i < length (futures s)")
    case True
    with x assms(2) r show ?thesis
      by (cases "futures s ! i = FPending")
        (auto simp: step_explained_def answered_def explained_def)
  next
    case False
    with x i have "futures t ! i = FPending" by (simp add: step_explained_def)
    with r show ?thesis by simp
  qed
qed

lemma answered_reachable:
  assumes "reachable fresh_batcher (batch_rel b model) s" "owns model own"
  shows "good b s \<and> answered own s"
  using assms(1)
proof induction
  case (reachable_init s)
  then show ?case by (simp add: fresh_batcher_def good_init) (simp add: answered_def init_batcher_def)
next
  case (reachable_step s e t)
  then show ?case using assms(2) by (auto simp: batch_rel_def intro: good_step answered_step)
qed

text \<open>What the two interfaces of a model make of it.\<close>

context batch_model
begin

lemma owns_length: "owns predict_batch (\<lambda>e ps. length ps = length (en_inputs e))"
  unfolding owns_def using slice_length by blast

end

context rowwise_model
begin

lemma owns_rows: "owns predict_batch (\<lambda>e ps. ps = map row (en_inputs e))"
  unfolding owns_def using slice_rows by blast

end

end
