(* ===== verification/Batcher_Progress.thy ===== *)
theory Batcher_Progress
  imports Batcher_Answers
begin

text \<open>
  The loop makes progress: from any reachable state of a batcher that is not closed, letting the loop
  run (the envelopes arrive, the timer fires, the model returns) resolves every future after a number of
  steps bounded by a measure of the state. After the loop has ended, nothing but its caller resolves a
  future that is still pending.
\<close>

section \<open>The measure\<close>

fun rank :: "loop_pc \<Rightarrow> nat" where
  "rank (Collecting batch n_items timer) = 2"
| "rank (Executing valid slices fl start) = 1"
| "rank Scheduled = 1"
| "rank _ = 0"

definition waiting :: "batcher \<Rightarrow> nat" where
  "waiting s = length (nexts s) + length (queue s)"

definition load :: "batcher \<Rightarrow> nat" where
  "load s = 3 * waiting s + rank (pc s)"

fun live :: "loop_pc \<Rightarrow> bool" where
  "live AtQueue \<longleftrightarrow> True"
| "live (Collecting batch n_items timer) \<longleftrightarrow> True"
| "live (Executing valid slices fl start) \<longleftrightarrow> True"
| "live _ \<longleftrightarrow> False"

text \<open>What a stretch of the loop makes of the flags and the measure.\<close>

definition outcome :: "batcher \<Rightarrow> nat \<Rightarrow> batcher \<Rightarrow> bool" where
  "outcome s bound t \<longleftrightarrow> stopping_loop t = stopping_loop s \<and> cancel_pending t = cancel_pending s \<and>
     load t \<le> bound \<and> (\<not> stopping_loop s \<longrightarrow> live (pc t))"

lemma outcome_same: "same_loop s u \<Longrightarrow> outcome u k t \<Longrightarrow> outcome s k t"
  by (simp add: outcome_def same_loop_def)

lemma outcome_mono: "outcome s k t \<Longrightarrow> k \<le> k' \<Longrightarrow> outcome s k' t"
  by (simp add: outcome_def)

lemma waiting_same: "same_loop s t \<Longrightarrow> waiting t = waiting s"
  by (simp add: waiting_def same_loopD)

lemma waiting_fields [simp]:
  "waiting (s\<lparr>pc := p\<rparr>) = waiting s" "waiting (s\<lparr>next_envelope := None\<rparr>) = length (queue s)"
  "waiting (s\<lparr>next_envelope := Some e\<rparr>) = Suc (length (queue s))"
  "waiting (s\<lparr>cancel_pending := cp\<rparr>) = waiting s"
  by (simp_all add: waiting_def)

definition round_outcome :: "segment \<Rightarrow> batcher \<Rightarrow> nat \<Rightarrow> bool" where
  "round_outcome next_round s k \<longleftrightarrow> (\<forall>clk t. same_loop s t \<longrightarrow> outcome t k (next_round clk t))"

lemma outcome_process:
  assumes "round_outcome next_round s k" "3 * waiting s + 1 \<le> k"
  shows "outcome s k (process_batch next_round batch clk s)"
proof -
  obtain valid fl sl t where p: "prepare (later 1 clk) 0 batch s = (valid, fl, sl, t)"
    by (metis prod_cases4)
  then have same: "same_loop s t" using prepare_shape by blast
  then have "outcome s k (next_round clk' t)" for clk'
    using assms(1) by (auto simp: round_outcome_def intro: outcome_same)
  moreover have "outcome s k (t\<lparr>pc := Executing valid sl fl (clk 0)\<rparr>)"
    using same assms(2) waiting_same [OF same] by (simp add: outcome_def load_def same_loop_def)
  ultimately show ?thesis using p by (simp add: process_batch_def Let_def)
qed

lemma outcome_collect:
  assumes "round_outcome next_round s k" "3 * waiting s + 2 \<le> k"
  shows "outcome s k (collect b next_round batch n_items timer clk s)"
proof -
  have "outcome s k (process_batch next_round batch clk' s)" for clk'
    using assms by (intro outcome_process) simp_all
  moreover have "outcome s k (s\<lparr>pc := Collecting batch n_items timer\<rparr>)"
    using assms(2) by (simp add: outcome_def load_def)
  ultimately show ?thesis by (simp add: collect_def)
qed

lemma outcome_take_first:
  assumes "round_outcome next_round s k" "3 * waiting s + 2 \<le> k"
  shows "outcome s k (take_first b next_round first clk s)"
proof -
  have "outcome s k (next_round clk s)" using assms(1) by (simp add: round_outcome_def)
  moreover have "outcome s k (next_round clk' (expire m first s))" for clk' m
    by (rule outcome_same [OF same_loop_expire [of s m first]])
      (use assms(1) in \<open>simp add: round_outcome_def\<close>)
  ultimately show ?thesis using assms by (simp add: take_first_def outcome_collect)
qed

lemma outcome_idle: "outcome s (3 * waiting s) (idle clk s)"
  by (simp add: outcome_def idle_def load_def)

lemma outcome_loop_top: "outcome s (3 * waiting s) (loop_top b clk s)"
proof (cases "next_envelope s")
  case None
  then show ?thesis by (simp add: loop_top_def outcome_idle)
next
  case (Some first)
  let ?s = "s\<lparr>next_envelope := None\<rparr>"
  have w: "waiting s = Suc (length (queue s))" using Some by (simp add: waiting_def nexts_def)
  have "round_outcome idle ?s (3 * length (queue s) + 2)"
    unfolding round_outcome_def using outcome_mono [OF outcome_idle] by (auto dest: waiting_same)
  then have "outcome ?s (3 * length (queue s) + 2) (take_first b idle first clk ?s)"
    by (rule outcome_take_first) simp
  then have "outcome s (3 * waiting s) (take_first b idle first clk ?s)"
    using w by (simp add: outcome_def)
  moreover have "outcome s (3 * waiting s) (s\<lparr>pc := Ended\<rparr>)" if "stopping_loop s"
    using that by (simp add: outcome_def load_def)
  ultimately show ?thesis using Some by (simp add: loop_top_def)
qed

lemma round_outcome_top: "3 * waiting s \<le> k \<Longrightarrow> round_outcome (loop_top b) s k"
  unfolding round_outcome_def using outcome_mono [OF outcome_loop_top] by (auto dest: waiting_same)

lemma outcome_collect_item:
  assumes "next_envelope s = None"
  shows "outcome s (3 * waiting s + 4) (collect_item b batch n_items timer e clk s)"
proof -
  have "outcome s (3 * waiting s + 4) (collect b (loop_top b) batch' n timer clk' s)" for batch' n clk'
    by (intro outcome_collect round_outcome_top) simp_all
  moreover have "outcome s (3 * waiting s + 4) (collect b (loop_top b) batch n_items timer clk' (expire m e s))" for m clk'
    by (rule outcome_same [OF same_loop_expire [of s m e]], rule outcome_collect, rule round_outcome_top)
      (simp_all add: waiting_same [OF same_loop_expire [of s m e]])
  moreover have "outcome s (3 * waiting s + 4)
      (process_batch (loop_top b) batch clk' (s\<lparr>next_envelope := Some e\<rparr>))" for clk'
  proof -
    have w: "waiting s = length (queue s)" using assms by (simp add: waiting_def nexts_None)
    have "outcome (s\<lparr>next_envelope := Some e\<rparr>) (3 * waiting s + 4)
        (process_batch (loop_top b) batch clk' (s\<lparr>next_envelope := Some e\<rparr>))"
      by (intro outcome_process round_outcome_top) (simp_all add: w)
    then show ?thesis by (simp add: outcome_def)
  qed
  ultimately show ?thesis by (simp add: collect_item_def)
qed

section \<open>Letting the loop run\<close>

text \<open>The loop's own next event; a loop waiting on an empty queue has none (\<open>quiet\<close>).\<close>

definition quiet :: "batcher \<Rightarrow> bool" where
  "quiet s \<longleftrightarrow> pc s = AtQueue \<and> queue s = []"

definition own_event :: "(nat \<Rightarrow> pyfloat) \<Rightarrow> batcher \<Rightarrow> batch_event" where
  "own_event clk s =
     (case pc s of
        Scheduled \<Rightarrow> FirstRun clk
      | Collecting batch n_items timer \<Rightarrow> if queue s = [] then TimerFires clk else Arrive clk
      | Executing valid slices fl start \<Rightarrow> ModelReturns clk
      | _ \<Rightarrow> Arrive clk)"

fun run_loop ::
  "batcher_config \<Rightarrow> (pystr list \<Rightarrow> batch_output option) \<Rightarrow> (nat \<Rightarrow> nat \<Rightarrow> pyfloat) \<Rightarrow> nat \<Rightarrow> batcher \<Rightarrow> batcher option" where
  "run_loop b model clks 0 s = (if quiet s then Some s else None)"
| "run_loop b model clks (Suc n) s =
     (if quiet s then Some s
      else case batch_step b model s (own_event (clks n) s) of
          None \<Rightarrow> None
        | Some t \<Rightarrow> run_loop b model clks n t)"

definition awake :: "batcher \<Rightarrow> bool" where
  "awake s \<longleftrightarrow> \<not> stopping_loop s \<and> \<not> cancel_pending s \<and> (pc s = Scheduled \<or> live (pc s))"

lemma finish_same: "same_loop s (finish_batch valid slices start out clk s)"
  using fail_all_same deliver_same by (simp add: finish_batch_def split: option.split)

lemma own_event_progress:
  assumes g: "good b s" and a: "awake s" and nq: "\<not> quiet s"
  obtains t where "batch_step b model s (own_event clk s) = Some t" "awake t" "load t < load s"
proof -
  have flags: "\<not> stopping_loop s" "\<not> cancel_pending s" using a by (simp_all add: awake_def)
  have fin: "outcome s k t \<Longrightarrow> k < load s \<Longrightarrow> awake t \<and> load t < load s" for k t
    using flags by (auto simp: outcome_def awake_def)
  show thesis
  proof (cases "pc s")
    case Scheduled
    with fin [OF outcome_loop_top] flags that show thesis by (simp add: own_event_def load_def)
  next
    case AtQueue
    then obtain e rest where q: "queue s = e # rest" using nq by (cases "queue s") (auto simp: quiet_def)
    let ?s = "s\<lparr>queue := rest\<rparr>"
    have w: "waiting s = Suc (waiting ?s)" using q by (simp add: waiting_def)
    have "outcome ?s (3 * waiting ?s + 2) (take_first b (loop_top b) e clk ?s)"
      by (intro outcome_take_first round_outcome_top) simp_all
    then have "outcome s (3 * waiting ?s + 2) (take_first b (loop_top b) e clk ?s)"
      by (simp add: outcome_def)
    from fin [OF this] AtQueue q flags w that show thesis by (simp add: own_event_def load_def)
  next
    case (Collecting batch n_items timer)
    show thesis
    proof (cases "queue s")
      case Nil
      have "outcome s (3 * waiting s + 1) (process_batch (loop_top b) batch clk s)"
        by (intro outcome_process round_outcome_top) simp_all
      from fin [OF this] Nil Collecting flags that show thesis by (simp add: own_event_def load_def)
    next
      case (Cons e rest)
      let ?s = "s\<lparr>queue := rest\<rparr>"
      have w: "waiting s = Suc (waiting ?s)" using Cons by (simp add: waiting_def)
      have "next_envelope ?s = None" using g Collecting by (simp add: good_def)
      then have "outcome ?s (3 * waiting ?s + 4) (collect_item b batch n_items timer e clk ?s)"
        by (rule outcome_collect_item)
      then have "outcome s (3 * waiting ?s + 4) (collect_item b batch n_items timer e clk ?s)"
        by (simp add: outcome_def)
      from fin [OF this] Cons Collecting flags w that show thesis by (simp add: own_event_def load_def)
    qed
  next
    case (Executing valid slices fl start)
    let ?t = "finish_batch valid slices start (model fl) clk s"
    have "outcome s (3 * waiting s) (loop_top b clk' ?t)" for clk'
      using outcome_same [OF finish_same outcome_loop_top] waiting_same [OF finish_same] by metis
    from fin [OF this] Executing flags that show thesis by (simp add: own_event_def load_def)
  qed (use a in \<open>simp_all add: awake_def\<close>)
qed

lemma quiet_no_pending:
  assumes "good b s" "quiet s" "i < length (futures s)"
  shows "futures s ! i \<noteq> FPending"
proof -
  have "base s []" using assms(1,2) by (auto simp: good_def quiet_def holding_def nexts_None)
  with assms(3) show ?thesis by (auto simp: base_def)
qed

lemma run_loop_drains:
  assumes "good b s" "awake s" "load s \<le> n"
  shows "\<exists>t. run_loop b model clks n s = Some t \<and> quiet t \<and> good b t"
  using assms
proof (induction n arbitrary: s)
  case 0
  then have "quiet s"
    using own_event_progress [of b s] by (metis bot_nat_0.not_eq_extremum le_zero_eq not_less0)
  with 0 show ?case by simp
next
  case (Suc n)
  show ?case
  proof (cases "quiet s")
    case False
    obtain t where "batch_step b model s (own_event (clks n) s) = Some t" "awake t" "load t < load s"
      by (rule own_event_progress [OF Suc.prems(1,2) False, of model "clks n"])
    with Suc.IH [of t] Suc.prems good_step [of b s model _ t] False show ?thesis by simp
  qed (use Suc.prems in simp)
qed

text \<open>Once a call is accepted and the batcher is not closed, its loop is awake.\<close>

lemma awake_iff:
  assumes "good b s" "\<not> stopping_loop s" "futures s \<noteq> []"
  shows "awake s"
  using assms by (cases "pc s") (auto simp: good_def awake_def)

section \<open>After the loop has ended\<close>

lemma ended_step:
  assumes "good b s" "pc s = Ended" "batch_step b model s e = Some t"
  shows "pc t = Ended \<and> length (futures t) = length (futures s) \<and>
    (\<forall>i < length (futures s). futures t ! i = futures s ! i \<or> e = CancelCall i)"
proof -
  have "stopping_loop s" "\<not> cancel_pending s" using assms(1,2) by (simp_all add: good_def)
  with assms(2,3) show ?thesis
    by (cases e) (auto simp: enqueue_def close_batcher_def split: if_splits list.splits)
qed

end
