(* ===== verification/Worker_Server.thy ===== *)
theory Worker_Server
  imports Client Batcher_Progress
begin

text \<open>
  The worker's gRPC service, \<open>worker/server.py\<close>: the \<open>Predict\<close> handler up to and from its \<open>await\<close> of the
  batcher, \<open>GetStatus\<close>, and the life of the process (starting, ready, draining). \<open>context.abort\<close> raises,
  so an aborted call has its outcome there. The process is a transition system over calls, the
  batcher's loop and the shutdown.
\<close>

section \<open>State\<close>

record worker =
  batcher_state :: batcher
  service_state :: int
  WORKER_REQUESTS_TOTAL :: "string \<Rightarrow> nat"
  WORKER_QUEUE_DEPTH :: "nat option"
  WORKER_MODEL_INFO :: "(pystr \<times> pystr \<times> pystr) set"
  worker_log :: "(string \<times> (string \<times> log_value) list) list"

definition batcher_config_of :: "worker_config \<Rightarrow> batcher_config" where
  "batcher_config_of c =
     \<lparr>bc_queue_capacity = wc_queue_capacity c, bc_max_batch_requests = wc_max_batch_requests c,
      bc_max_batch_items = wc_max_batch_items c, bc_max_batch_delay_ms = wc_max_batch_delay_ms c\<rparr>"

definition uses_fake_model :: "bool \<Rightarrow> environ \<Rightarrow> bool" where
  "uses_fake_model flag env \<longleftrightarrow> flag \<or> py_lower (getenv env ''USE_FAKE_MODEL'' ''false'') = str ''true''"

text \<open>\<open>InferenceWorkerServicer.__init__\<close>.\<close>

definition new_worker :: "worker_config \<Rightarrow> worker" where
  "new_worker c =
     \<lparr>batcher_state = init_batcher, service_state = WORKER_STATE_STARTING,
      WORKER_REQUESTS_TOTAL = (\<lambda>_. 0), WORKER_QUEUE_DEPTH = None,
      WORKER_MODEL_INFO = {(wc_worker_id c, wc_model_version c, wc_model_sha256 c)}, worker_log = []\<rparr>"

definition count_result :: "string \<Rightarrow> worker \<Rightarrow> worker" where
  "count_result result s =
     s\<lparr>WORKER_REQUESTS_TOTAL :=
         (WORKER_REQUESTS_TOTAL s)(result := Suc (WORKER_REQUESTS_TOTAL s result))\<rparr>"

definition worker_logs :: "string \<Rightarrow> (string \<times> log_value) list \<Rightarrow> worker \<Rightarrow> worker" where
  "worker_logs event kwargs s = s\<lparr>worker_log := worker_log s @ [(event, kwargs)]\<rparr>"

section \<open>\<open>Predict\<close>\<close>

definition abort :: "grpc_status \<Rightarrow> string \<Rightarrow> rpc_outcome" where
  "abort code details = RpcError code (Some (str details))"

text \<open>The \<open>except\<close> clauses; a cancellation passes through them.\<close>

definition handler_error :: "exn \<Rightarrow> worker \<Rightarrow> rpc_outcome \<times> worker" where
  "handler_error e s =
     (case e of
        App (WorkerQueueFullError m) \<Rightarrow> (abort RESOURCE_EXHAUSTED ''WORKER_QUEUE_FULL'', count_result ''queue_full'' s)
      | App (DeadlineExceededError m) \<Rightarrow> (abort DEADLINE_EXCEEDED ''DEADLINE_EXCEEDED'', count_result ''deadline_exceeded'' s)
      | App a \<Rightarrow> (abort INTERNAL (err_code a), count_result ''error'' s)
      | PyExn n \<Rightarrow> (abort INTERNAL ''INTERNAL_ERROR'', count_result ''error'' s)
      | Cancelled \<Rightarrow> (RpcCancelled, s))"

text \<open>Up to the \<open>await\<close>: the call's outcome, or the future it waits for.\<close>

definition predict_begin ::
  "worker_config \<Rightarrow> predict_request \<Rightarrow> pyfloat option \<Rightarrow> pyfloat \<Rightarrow> pyfloat \<Rightarrow> worker \<Rightarrow>
     (rpc_outcome + nat) \<times> worker" where
  "predict_begin c rq time_remaining now enqueue_now s =
     (if service_state s \<noteq> WORKER_STATE_READY then (Inl (abort FAILED_PRECONDITION ''WORKER_NOT_READY''), s)
      else if rq_inputs rq = [] \<or> 8 < length (rq_inputs rq)
      then (Inl (abort INVALID_ARGUMENT ''INVALID_REQUEST''), s)
      else if rq_model_version rq \<noteq> wc_model_version c
      then (Inl (abort INVALID_ARGUMENT ''UNSUPPORTED_MODEL''), s)
      else
        let expired = (Inl (abort DEADLINE_EXCEEDED ''DEADLINE_EXCEEDED''), s) in
        case time_remaining of
          None \<Rightarrow> expired
        | Some left \<Rightarrow>
            if left \<le> 0 then expired
            else (case enqueue (batcher_config_of c) (rq_request_id rq) (rq_inputs rq) (now + left)
                         enqueue_now (batcher_state s) of
                (Inl e, t) \<Rightarrow> (let (out, u) = handler_error (App e) (s\<lparr>batcher_state := t\<rparr>) in (Inl out, u))
              | (Inr i, t) \<Rightarrow> (Inr i, s\<lparr>batcher_state := t\<rparr>)))"

definition make_response :: "worker_config \<Rightarrow> predict_request \<Rightarrow> batcher_result \<Rightarrow> predict_response" where
  "make_response c rq r =
     \<lparr>rs_request_id = rq_request_id rq, rs_model_version = wc_model_version c,
      rs_worker_id = wc_worker_id c, rs_predictions = br_predictions r,
      rs_timing = \<lparr>wt_queue_ms = br_queue_ms r, wt_preprocess_ms = br_preprocess_ms r,
        wt_inference_ms = br_inference_ms r, wt_postprocess_ms = br_postprocess_ms r,
        wt_worker_total_ms = br_worker_total_ms r\<rparr>\<rparr>"

text \<open>From the \<open>await\<close>, with the value of the future; \<open>None\<close> while it is pending.\<close>

definition predict_end ::
  "worker_config \<Rightarrow> predict_request \<Rightarrow> future \<Rightarrow> worker \<Rightarrow> (rpc_outcome \<times> worker) option" where
  "predict_end c rq v s =
     (case v of
        FPending \<Rightarrow> None
      | FResult r \<Rightarrow> Some (RpcResponse (make_response c rq r), count_result ''success'' s)
      | FException a \<Rightarrow> Some (handler_error (App a) s)
      | FCancelled \<Rightarrow> Some (handler_error Cancelled s))"

section \<open>\<open>GetStatus\<close>\<close>

text \<open>The reply, or \<open>None\<close> for the \<open>ValueError\<close> of a value no \<open>uint32\<close> field takes.\<close>

definition get_status :: "worker_config \<Rightarrow> worker \<Rightarrow> status_response option \<times> worker" where
  "get_status c s =
     (let depth = queue_depth (batcher_state s);
          reply = \<lparr>sr_worker_id = wc_worker_id c, sr_model_version = wc_model_version c,
                   sr_model_sha256 = wc_model_sha256 c, sr_state = service_state s,
                   sr_queue_depth = int depth, sr_queue_capacity = wc_queue_capacity c,
                   sr_active_batches = 0\<rparr>
      in (if fits_uint32 (int depth) \<and> fits_uint32 (wc_queue_capacity c) then Some reply else None,
          s\<lparr>WORKER_QUEUE_DEPTH := Some depth\<rparr>))"

section \<open>\<open>serve\<close>\<close>

definition serve_started :: "worker_config \<Rightarrow> worker" where
  "serve_started c =
     worker_logs ''starting_worker'' [(''worker_id'', VStr (wc_worker_id c)), (''port'', VInt (wc_grpc_port c))]
       (new_worker c)"

definition serve_ready :: "worker_config \<Rightarrow> worker \<Rightarrow> worker" where
  "serve_ready c s =
     worker_logs ''worker_ready'' [(''worker_id'', VStr (wc_worker_id c))] (s\<lparr>service_state := WORKER_STATE_READY\<rparr>)"

definition sig_handler :: "worker_config \<Rightarrow> worker \<Rightarrow> worker" where
  "sig_handler c s =
     worker_logs ''worker_draining'' [(''worker_id'', VStr (wc_worker_id c))]
       (s\<lparr>service_state := WORKER_STATE_DRAINING\<rparr>)"

text \<open>The \<open>finally\<close> block up to the \<open>await\<close> of \<open>batcher.close\<close>, and after the server has stopped.\<close>

definition serve_finally :: "worker \<Rightarrow> worker" where
  "serve_finally s =
     s\<lparr>service_state := WORKER_STATE_DRAINING, batcher_state := close_batcher (batcher_state s)\<rparr>"

definition serve_stopped :: "worker_config \<Rightarrow> worker \<Rightarrow> worker" where
  "serve_stopped c s = worker_logs ''worker_stopped'' [(''worker_id'', VStr (wc_worker_id c))] s"

section \<open>The process\<close>

text \<open>
  Where \<open>serve\<close> is: before \<open>server.start\<close> returns, in \<open>stop_event.wait\<close>, in \<open>batcher.close\<close>, in
  \<open>server.stop\<close>, or over. The handlers suspended in their \<open>await\<close>, each with its request and the index of
  its future, and the calls that are over, each with the outcome its caller sees.
\<close>

datatype serve_phase = Booting | AwaitsStop | ClosesBatcher | StopsServer | Exited

record process =
  service :: worker
  life :: serve_phase
  rpc_handlers :: "(predict_request \<times> nat) list"
  replies :: "(predict_request \<times> rpc_outcome) list"

datatype process_event =
    RpcArrives predict_request "pyfloat option" pyfloat pyfloat
  | RpcResumes nat
  | RpcCancelledBy nat
  | LoopRuns batch_event
  | StatusRpc
  | ServerStarted
  | Signal
  | ServeFinally
  | BatcherClosed
  | ServerStops

text \<open>The server takes calls until it is told to stop.\<close>

definition takes_calls :: "process \<Rightarrow> bool" where
  "takes_calls p \<longleftrightarrow> life p \<notin> {StopsServer, Exited}"

fun is_loop_event :: "batch_event \<Rightarrow> bool" where
  "is_loop_event (FirstRun clk) \<longleftrightarrow> True"
| "is_loop_event (Arrive clk) \<longleftrightarrow> True"
| "is_loop_event (TimerFires clk) \<longleftrightarrow> True"
| "is_loop_event (ModelReturns clk) \<longleftrightarrow> True"
| "is_loop_event (DeliverCancel clk) \<longleftrightarrow> True"
| "is_loop_event _ \<longleftrightarrow> False"

text \<open>
  \<open>serve\<close> registers the signal handler once it is ready, and leaves its wait when the event is set or it is
  cancelled; \<open>batcher.close\<close> returns when the loop's task is over; \<open>server.stop\<close> returns when the last
  handler is over, those that outlive the grace period being cancelled (\<open>RpcCancelledBy\<close>).
\<close>

fun process_step ::
  "worker_config \<Rightarrow> (pystr list \<Rightarrow> batch_output option) \<Rightarrow> process \<Rightarrow> process_event \<Rightarrow> process option" where
  "process_step c model p (RpcArrives rq time_remaining now enqueue_now) =
     (if \<not> takes_calls p then None
      else case predict_begin c rq time_remaining now enqueue_now (service p) of
        (Inl out, s) \<Rightarrow> Some (p\<lparr>service := s, replies := replies p @ [(rq, out)]\<rparr>)
      | (Inr i, s) \<Rightarrow> Some (p\<lparr>service := s, rpc_handlers := rpc_handlers p @ [(rq, i)]\<rparr>))"
| "process_step c model p (RpcResumes k) =
     (if length (rpc_handlers p) \<le> k then None
      else let (rq, i) = rpc_handlers p ! k in
        case predict_end c rq (futures (batcher_state (service p)) ! i) (service p) of
          None \<Rightarrow> None
        | Some (out, s) \<Rightarrow>
            Some (p\<lparr>service := s, rpc_handlers := without k (rpc_handlers p), replies := replies p @ [(rq, out)]\<rparr>))"
| "process_step c model p (RpcCancelledBy k) =
     (if length (rpc_handlers p) \<le> k then None
      else map_option (\<lambda>b. p\<lparr>service := (service p)\<lparr>batcher_state := b\<rparr>\<rparr>)
        (batch_step (batcher_config_of c) model (batcher_state (service p)) (CancelCall (snd (rpc_handlers p ! k)))))"
| "process_step c model p (LoopRuns e) =
     (if is_loop_event e
      then map_option (\<lambda>b. p\<lparr>service := (service p)\<lparr>batcher_state := b\<rparr>\<rparr>)
        (batch_step (batcher_config_of c) model (batcher_state (service p)) e)
      else None)"
| "process_step c model p StatusRpc =
     (if takes_calls p then Some (p\<lparr>service := snd (get_status c (service p))\<rparr>) else None)"
| "process_step c model p ServerStarted =
     (if life p = Booting then Some (p\<lparr>service := serve_ready c (service p), life := AwaitsStop\<rparr>) else None)"
| "process_step c model p Signal =
     (if life p \<in> {Booting, Exited} then None else Some (p\<lparr>service := sig_handler c (service p)\<rparr>))"
| "process_step c model p ServeFinally =
     (if life p = AwaitsStop then Some (p\<lparr>service := serve_finally (service p), life := ClosesBatcher\<rparr>) else None)"
| "process_step c model p BatcherClosed =
     (if life p = ClosesBatcher \<and> pc (batcher_state (service p)) \<in> {NoTask, Ended}
      then Some (p\<lparr>life := StopsServer\<rparr>) else None)"
| "process_step c model p ServerStops =
     (if life p = StopsServer \<and> rpc_handlers p = []
      then Some (p\<lparr>service := serve_stopped c (service p), life := Exited\<rparr>) else None)"

definition process_rel ::
  "worker_config \<Rightarrow> (pystr list \<Rightarrow> batch_output option) \<Rightarrow> process \<Rightarrow> process_event \<Rightarrow> process \<Rightarrow> bool" where
  "process_rel c model p e q \<longleftrightarrow> process_step c model p e = Some q"

definition fresh_process :: "worker_config \<Rightarrow> process \<Rightarrow> bool" where
  "fresh_process c p \<longleftrightarrow> p = \<lparr>service = serve_started c, life = Booting, rpc_handlers = [], replies = []\<rparr>"

section \<open>The handlers and their futures\<close>

text \<open>A suspended handler's future carries its own request; a success reply carries its own answer.\<close>

definition handler_ok :: "batcher \<Rightarrow> predict_request \<times> nat \<Rightarrow> bool" where
  "handler_ok b h \<longleftrightarrow> snd h < length (futures b) \<and>
     en_inputs (calls b ! snd h) = rq_inputs (fst h) \<and> en_request_id (calls b ! snd h) = rq_request_id (fst h)"

definition reply_ok ::
  "worker_config \<Rightarrow> (pystr list \<Rightarrow> prediction list \<Rightarrow> bool) \<Rightarrow> predict_request \<times> rpc_outcome \<Rightarrow> bool" where
  "reply_ok c right r \<longleftrightarrow> (\<forall>resp. snd r = RpcResponse resp \<longrightarrow>
     right (rq_inputs (fst r)) (rs_predictions resp) \<and> rs_request_id resp = rq_request_id (fst r) \<and>
     rs_worker_id resp = wc_worker_id c \<and> rs_model_version resp = wc_model_version c)"

definition process_ok ::
  "worker_config \<Rightarrow> (pystr list \<Rightarrow> prediction list \<Rightarrow> bool) \<Rightarrow> process \<Rightarrow> bool" where
  "process_ok c right p \<longleftrightarrow>
     good (batcher_config_of c) (batcher_state (service p)) \<and>
     answered (\<lambda>e. right (en_inputs e)) (batcher_state (service p)) \<and>
     list_all (handler_ok (batcher_state (service p))) (rpc_handlers p) \<and>
     list_all (reply_ok c right) (replies p)"

lemma handler_error_frame:
  "handler_error e s = (out, t) \<Longrightarrow> batcher_state t = batcher_state s \<and> service_state t = service_state s \<and>
     (\<forall>resp. out \<noteq> RpcResponse resp)"
  by (auto simp: handler_error_def count_result_def abort_def split: exn.splits app_error.splits)

lemma enqueue_Inr:
  assumes "enqueue b rid inp dl now s = (Inr i, t)"
  shows "i = length (futures s)" "futures t = futures s @ [FPending]"
    "\<exists>e. calls t = calls s @ [e] \<and> en_inputs e = inp \<and> en_request_id e = rid"
  using assms by (auto simp: enqueue_def start_loop_def Let_def split: if_splits)

lemma enqueue_Inl: "enqueue b rid inp dl now s = (Inl e, t) \<Longrightarrow> t = s"
  by (auto simp: enqueue_def Let_def split: if_splits)

lemma handler_ok_step:
  assumes "step_explained model own s e t" "handler_ok s h"
  shows "handler_ok t h"
  using assms by (auto simp: step_explained_def handler_ok_def)

lemma batch_part:
  assumes ok: "process_ok c right p" and own: "owns model (\<lambda>e. right (en_inputs e))"
    and st: "batch_step (batcher_config_of c) model (batcher_state (service p)) e = Some b"
  shows "process_ok c right (p\<lparr>service := (service p)\<lparr>batcher_state := b\<rparr>\<rparr>)"
proof -
  have g: "good (batcher_config_of c) (batcher_state (service p))"
    and a: "answered (\<lambda>e. right (en_inputs e)) (batcher_state (service p))"
    using ok by (simp_all add: process_ok_def)
  note x = step_explained [OF g st own]
  have "list_all (handler_ok b) (rpc_handlers p)"
    using ok handler_ok_step [OF x] by (auto simp: process_ok_def list_all_iff)
  then show ?thesis
    using ok good_step [OF g st] answered_step [OF g a st own] by (simp add: process_ok_def)
qed

lemma predict_begin_cases:
  assumes "predict_begin c rq tr now enow s = (r, t)"
  obtains (rejected) out where "r = Inl out" "batcher_state t = batcher_state s" "\<And>resp. out \<noteq> RpcResponse resp"
  | (accepted) i b left where "r = Inr i" "t = s\<lparr>batcher_state := b\<rparr>" "tr = Some left"
      "enqueue (batcher_config_of c) (rq_request_id rq) (rq_inputs rq) (now + left) enow (batcher_state s) = (Inr i, b)"
      "service_state s = WORKER_STATE_READY"
proof -
  show thesis
  proof (cases "\<exists>i. r = Inr i")
    case True
    with assms show thesis
      by (auto simp: predict_begin_def Let_def split: if_splits option.splits prod.splits sum.splits
          intro: accepted)
  next
    case False
    then obtain out where r: "r = Inl out" by (cases r) auto
    have "batcher_state t = batcher_state s \<and> (\<forall>resp. out \<noteq> RpcResponse resp)"
    proof (cases "\<exists>left e u. enqueue (batcher_config_of c) (rq_request_id rq) (rq_inputs rq) (now + left) enow
        (batcher_state s) = (Inl e, u) \<and> handler_error (App e) (s\<lparr>batcher_state := u\<rparr>) = (out, t)")
      case True
      then obtain left e u where e: "enqueue (batcher_config_of c) (rq_request_id rq) (rq_inputs rq) (now + left) enow
        (batcher_state s) = (Inl e, u)" and h: "handler_error (App e) (s\<lparr>batcher_state := u\<rparr>) = (out, t)" by blast
      have "u = batcher_state s" using e by (rule enqueue_Inl)
      with handler_error_frame [OF h] show ?thesis by simp
    next
      case False
      with assms r show ?thesis
        by (auto simp: predict_begin_def Let_def abort_def split: if_splits option.splits prod.splits sum.splits)
    qed
    with r show thesis by (intro rejected) auto
  qed
qed

lemma arrive_part:
  assumes ok: "process_ok c right p"
    and own: "owns model (\<lambda>e. right (en_inputs e))"
    and st: "process_step c model p (RpcArrives rq tr now enow) = Some q"
  shows "process_ok c right q"
proof -
  obtain r t where b: "predict_begin c rq tr now enow (service p) = (r, t)" by fastforce
  then show ?thesis
  proof (cases rule: predict_begin_cases)
    case (rejected out)
    with st b ok show ?thesis by (auto simp: process_ok_def reply_ok_def split: if_splits)
  next
    case (accepted i bt left)
    have step: "batch_step (batcher_config_of c) model (batcher_state (service p))
        (Enqueue (rq_request_id rq) (rq_inputs rq) (now + left) enow) = Some bt"
      using accepted(4) by simp
    note bp = batch_part [OF ok own step]
    have "handler_ok bt (rq, i)"
      using enqueue_Inr [OF accepted(4)] good_indexed ok
      by (auto simp: handler_ok_def process_ok_def indexed_def nth_append dest!: good_indexed)
    with st b accepted(1,2) bp show ?thesis by (auto simp: process_ok_def split: if_splits)
  qed
qed

lemma resume_part:
  assumes ok: "process_ok c right p"
    and st: "process_step c model p (RpcResumes k) = Some q"
  shows "process_ok c right q"
proof -
  let ?b = "batcher_state (service p)"
  have k: "k < length (rpc_handlers p)" using st by (simp split: if_splits)
  obtain rq i where h: "rpc_handlers p ! k = (rq, i)" by fastforce
  obtain out s where e: "predict_end c rq (futures ?b ! i) (service p) = Some (out, s)"
    and q: "q = p\<lparr>service := s, rpc_handlers := without k (rpc_handlers p), replies := replies p @ [(rq, out)]\<rparr>"
    using st k h by (auto split: option.splits)
  have hok: "handler_ok ?b (rq, i)" using ok k h by (auto simp: process_ok_def list_all_length)
  have s: "batcher_state s = ?b"
    using e by (auto simp: predict_end_def count_result_def dest: handler_error_frame split: future.splits)
  have "reply_ok c right (rq, out)"
  proof (cases "futures ?b ! i")
    case (FResult r)
    with ok hok have "right (en_inputs (calls ?b ! i)) (br_predictions r)"
      by (auto simp: process_ok_def answered_def handler_ok_def)
    with e FResult hok show ?thesis
      by (auto simp: reply_ok_def predict_end_def make_response_def handler_ok_def)
  qed (use e in \<open>auto simp: reply_ok_def predict_end_def dest: handler_error_frame\<close>)
  moreover have "set (without k (rpc_handlers p)) \<subseteq> set (rpc_handlers p)"
    by (rule set_without)
  ultimately show ?thesis using ok s q by (auto simp: process_ok_def list_all_iff)
qed

lemma process_ok_step:
  assumes ok: "process_ok c right p" and own: "owns model (\<lambda>e. right (en_inputs e))"
    and st: "process_step c model p e = Some q"
  shows "process_ok c right q"
proof (cases e)
  case (RpcArrives rq tr now enow)
  with assms show ?thesis by (blast intro: arrive_part)
next
  case (RpcResumes k)
  with assms show ?thesis by (blast intro: resume_part)
next
  case (RpcCancelledBy k)
  with st batch_part [OF ok own] show ?thesis by (auto split: if_splits simp del: batch_step.simps)
next
  case (LoopRuns be)
  with st batch_part [OF ok own] show ?thesis by (auto split: if_splits simp del: batch_step.simps)
next
  case ServeFinally
  have "batch_step (batcher_config_of c) model (batcher_state (service p)) Close =
      Some (close_batcher (batcher_state (service p)))" by simp
  from batch_part [OF ok own this] ServeFinally st show ?thesis
    by (auto simp: serve_finally_def process_ok_def split: if_splits)
qed (use st ok in \<open>auto simp: process_ok_def get_status_def serve_ready_def sig_handler_def serve_stopped_def worker_logs_def
      Let_def
      split: if_splits\<close>)

lemma process_ok_init: "fresh_process c p \<Longrightarrow> process_ok c right p"
  by (simp add: fresh_process_def process_ok_def serve_started_def worker_logs_def new_worker_def good_init)
    (simp add: answered_def init_batcher_def)

interpretation worker_process: inductive_invariant "fresh_process c" "process_rel c fake_predict_batch"
  "process_ok c (\<lambda>texts preds. preds = map fake_row texts)" for c
  using fake.owns_rows by unfold_locales (auto simp: process_rel_def intro: process_ok_init process_ok_step)

end
