(* ===== verification/Worker_Properties.thy ===== *)
theory Worker_Properties
  imports Worker_Server
begin

text \<open>
  The properties of the worker: the batcher in every interleaving of callers, loop and shutdown, the
  models, and the service process. Each property with hypotheses is followed by an instance at a
  concrete run under the documented settings, with the source's own \<open>FakeModel\<close>.
\<close>

section \<open>Concrete runs\<close>

definition doc_batcher :: batcher_config where
  "doc_batcher = batcher_config_of documented_worker_config"

definition still :: "nat \<Rightarrow> pyfloat" where
  "still = (\<lambda>_. 0)"

lemma later_still [simp]: "later n still = still"
  by (simp add: later_def still_def)

text \<open>One call is accepted and executes.\<close>

definition one_call :: "batch_event list" where
  "one_call = [Enqueue (str ''r'') [str ''good'', str ''bad''] 10 0, FirstRun still, Arrive still, TimerFires still]"

lemmas batch_defs =
  one_call_def doc_batcher_def batcher_config_of_def documented_worker_config_def init_batcher_def
  enqueue_def queue_full_def start_loop_def loop_top_def idle_def take_first_def collect_def
  process_batch_def finish_batch_def close_batcher_def cancelled_loop_def future_done_def resolve_def
  expire_def py_slice_def Let_def

lemma fresh_reachable: "reachable fresh_batcher (batch_rel b model) init_batcher"
  by (rule reachable_init) (simp add: fresh_batcher_def)

lemma reachable_batch_run:
  "run_steps (batch_step b model) init_batcher es = Some s \<Longrightarrow> reachable fresh_batcher (batch_rel b model) s"
  using reachable_run [OF fresh_reachable, of "batch_step b model" b model es s] by (simp add: batch_rel_def)

lemma executing_run:
  "\<exists>s. run_steps (batch_step doc_batcher fake_predict_batch) init_batcher one_call = Some s \<and>
     futures s = [FPending] \<and> \<not> stopping_loop s \<and>
     (\<exists>e. pc s = Executing [e] [(0, 2)] [str ''good'', str ''bad''] 0 \<and> calls s = [e] \<and>
        en_inputs e = [str ''good'', str ''bad''] \<and> en_local_deadline e = 10)"
  by (simp add: batch_defs) (simp add: still_def)

lemma executing:
  obtains s e where "reachable fresh_batcher (batch_rel doc_batcher fake_predict_batch) s"
    "pc s = Executing [e] [(0, 2)] [str ''good'', str ''bad''] 0" "futures s = [FPending]" "calls s = [e]"
    "en_inputs e = [str ''good'', str ''bad'']" "en_local_deadline e = 10" "\<not> stopping_loop s"
  using executing_run reachable_batch_run by blast

section \<open>The batcher\<close>

text \<open>
  C4: In every interleaving: no future is ever resolved twice (\<open>InvalidStateError\<close> does not occur), the
  queue stays within a positive capacity, and until the loop has ended every pending future belongs to
  an envelope the loop still holds, the batch in hand before the one put back before the queue, in the
  order the calls were accepted.
\<close>

theorem no_request_lost:
  assumes "reachable fresh_batcher (batch_rel b model) s"
  shows "\<not> invalid_state s
    \<and> (bc_queue_capacity b \<le> 0 \<or> int (length (queue s)) \<le> bc_queue_capacity b)
    \<and> (pc s = Ended \<or>
        sorted_wrt (<) (map en_future (holding s)) \<and>
        {i. i < length (futures s) \<and> futures s ! i = FPending} \<subseteq> en_future ` set (holding s))"
proof -
  have g: "good b s" using batch_invariant.holds [OF assms] .
  then have "indexed s" by (rule good_indexed)
  with g show ?thesis by (auto simp: good_def queue_bounded_def indexed_def base_def)
qed

theorem no_request_lost_witness:
  "\<exists>s. reachable fresh_batcher (batch_rel doc_batcher fake_predict_batch) s \<and> holding s \<noteq> []"
proof -
  obtain s e where s: "reachable fresh_batcher (batch_rel doc_batcher fake_predict_batch) s"
    "pc s = Executing [e] [(0, 2)] [str ''good'', str ''bad''] 0" "futures s = [FPending]"
    by (rule executing)
  have "0 \<in> {i. i < length (futures s) \<and> futures s ! i = FPending}" using s(3) by simp
  with no_request_lost [OF s(1)] s(2) have "0 \<in> en_future ` set (holding s)" by auto
  with s(1) show ?thesis by fastforce
qed

text \<open>
  C29: The batch handed to the model is never empty, holds at most MAX_BATCH_REQUESTS requests and, unless
  it is a single request, at most MAX_BATCH_ITEMS texts; its texts are those of its requests, one after
  the other, and the slices cut it back into them.
\<close>

theorem batches_bounded:
  assumes "reachable fresh_batcher (batch_rel b model) s" "pc s = Executing valid slices texts start"
  shows "valid \<noteq> [] \<and> int (length valid) \<le> max 1 (bc_max_batch_requests b)
    \<and> (length valid = 1 \<or> int (length texts) \<le> bc_max_batch_items b)
    \<and> texts = concat (map en_inputs valid) \<and> map (\<lambda>sl. py_slice sl texts) slices = map en_inputs valid"
proof -
  have "batch_bounds b valid" and sl: "slices = slices_from 0 valid" and tx: "texts = flattened valid"
    using batch_invariant.holds [OF assms(1)] assms(2) by (simp_all add: good_def)
  moreover have "map (\<lambda>sl. py_slice sl (flattened valid)) (slices_from 0 valid) = map en_inputs valid"
  proof (rule nth_equalityI)
    fix i assume i: "i < length (map (\<lambda>sl. py_slice sl (flattened valid)) (slices_from 0 valid))"
    then have "(valid ! i, slices_from 0 valid ! i) \<in> set (zip valid (slices_from 0 valid))"
      by (auto simp: set_zip)
    from slices_from_zip [OF this] i
    show "map (\<lambda>sl. py_slice sl (flattened valid)) (slices_from 0 valid) ! i = map en_inputs valid ! i"
      by (auto simp: py_slice_def)
  qed simp
  ultimately show ?thesis by (auto simp: batch_bounds_def items_def flattened_def)
qed

theorem batches_bounded_witness:
  "\<exists>s valid slices texts start. reachable fresh_batcher (batch_rel doc_batcher fake_predict_batch) s \<and>
     pc s = Executing valid slices texts start \<and> int (length valid) \<le> 8"
proof -
  obtain s e where s: "reachable fresh_batcher (batch_rel doc_batcher fake_predict_batch) s"
    "pc s = Executing [e] [(0, 2)] [str ''good'', str ''bad''] 0" by (rule executing)
  with batches_bounded [OF s] show ?thesis
    by (force simp: doc_batcher_def batcher_config_of_def documented_worker_config_def)
qed

text \<open>
  C6: What a step does to the callers. A future that is done keeps its value. One that a step resolves
  was cancelled by its caller, or failed because the model raised, or holds a deadline error and the step
  read a time past its deadline, or holds a result and the step read a time within its deadline.
\<close>

theorem futures_resolved_once:
  assumes "reachable fresh_batcher (batch_rel b model) s" "batch_step b model s e = Some t"
    "i < length (futures s)"
  shows "if futures s ! i \<noteq> FPending then futures t ! i = futures s ! i
    else futures t ! i = FPending \<or> e = CancelCall i \<and> futures t ! i = FCancelled \<or>
      (case futures t ! i of
         FResult r \<Rightarrow> \<exists>now \<in> readings e. now \<le> en_local_deadline (calls s ! i)
       | FException a \<Rightarrow>
           (\<exists>m. a = DeadlineExceededError m) \<and> (\<exists>now \<in> readings e. en_local_deadline (calls s ! i) < now) \<or>
           a = InternalServerError ''Inference failed.'' \<and> model_failed model (pc s)
       | _ \<Rightarrow> False)"
proof -
  have "owns model (\<lambda>_ _. True)" by (simp add: owns_def)
  from step_explained [OF batch_invariant.holds [OF assms(1)] assms(2) this] assms(3) show ?thesis
    by (auto simp: step_explained_def explained_def split: future.splits)
qed

lemma late_run:
  "\<exists>s t a. run_steps (batch_step doc_batcher fake_predict_batch) init_batcher one_call = Some s \<and>
     futures s = [FPending] \<and> batch_step doc_batcher fake_predict_batch s (ModelReturns (\<lambda>_. 11)) = Some t \<and>
     futures t ! 0 = FException a"
  by (simp add: batch_defs fake_predict_batch_def) (simp add: still_def later_def resolve_def future_done_def)

theorem futures_resolved_once_witness:
  "\<exists>s t m. batch_step doc_batcher fake_predict_batch s (ModelReturns (\<lambda>_. 11)) = Some t \<and>
     futures t ! 0 = FException (DeadlineExceededError m)"
proof -
  obtain s t a where run: "run_steps (batch_step doc_batcher fake_predict_batch) init_batcher one_call = Some s"
    and f: "futures s = [FPending]"
    and st: "batch_step doc_batcher fake_predict_batch s (ModelReturns (\<lambda>_. 11)) = Some t"
    and a: "futures t ! 0 = FException a"
    using late_run by (elim exE conjE)
  have "\<not> model_failed fake_predict_batch (pc s)"
    by (cases "pc s") (simp_all add: fake_predict_batch_def)
  with futures_resolved_once [OF reachable_batch_run [OF run] st, of 0] f a
  have "\<exists>m. a = DeadlineExceededError m" by auto
  with st a show ?thesis by blast
qed

text \<open>
  C5: Every accepted request is answered. While the batcher is not closed, letting the loop run (queued
  envelopes arrive, the timer fires, the model returns), whatever the clock shows, resolves every future
  within a number of steps given by the measure of the state.
\<close>

theorem every_request_answered:
  assumes "reachable fresh_batcher (batch_rel b model) s" "\<not> stopping_loop s" "futures s \<noteq> []"
  shows "\<exists>t. run_loop b model clks (load s) s = Some t \<and> quiet t \<and>
    (\<forall>i < length (futures t). futures t ! i \<noteq> FPending)"
proof -
  have g: "good b s" using batch_invariant.holds [OF assms(1)] .
  then obtain t where "run_loop b model clks (load s) s = Some t" "quiet t" "good b t"
    using run_loop_drains [OF g awake_iff [OF g assms(2,3)] order_refl] by blast
  then show ?thesis using quiet_no_pending by blast
qed

theorem every_request_answered_witness:
  "\<exists>s t. reachable fresh_batcher (batch_rel doc_batcher fake_predict_batch) s \<and> futures s = [FPending] \<and>
     run_loop doc_batcher fake_predict_batch (\<lambda>_. still) (load s) s = Some t \<and> quiet t"
proof -
  obtain s e where s: "reachable fresh_batcher (batch_rel doc_batcher fake_predict_batch) s"
    "futures s = [FPending]" "\<not> stopping_loop s" by (rule executing)
  with every_request_answered [OF s(1,3), of "\<lambda>_. still"] show ?thesis by auto
qed

text \<open>
  C3: Every caller gets its own answer. With the source's \<open>FakeModel\<close>, whatever requests are batched
  together, cancelled or expired, a future that holds a result holds the model's predictions for the
  texts of its own call.
\<close>

theorem own_predictions:
  assumes "reachable fresh_batcher (batch_rel b fake_predict_batch) s" "i < length (futures s)"
    "futures s ! i = FResult r"
  shows "br_predictions r = map fake_row (en_inputs (calls s ! i))"
  using answered_reachable [OF assms(1) fake.owns_rows] assms(2,3) by (simp add: answered_def)

lemma answered_run:
  "\<exists>s r. run_steps (batch_step doc_batcher fake_predict_batch) init_batcher (one_call @ [ModelReturns still]) = Some s \<and>
     futures s = [FResult r] \<and> map en_inputs (calls s) = [[str ''good'', str ''bad'']]"
  by (simp add: batch_defs fake_predict_batch_def) (simp add: still_def)

theorem own_predictions_witness:
  "\<exists>s r. reachable fresh_batcher (batch_rel doc_batcher fake_predict_batch) s \<and> futures s = [FResult r] \<and>
     br_predictions r = [(str ''positive'', 95 / 100), (str ''negative'', 10 / 100)]"
proof -
  obtain s r where run: "run_steps (batch_step doc_batcher fake_predict_batch) init_batcher
      (one_call @ [ModelReturns still]) = Some s"
    and f: "futures s = [FResult r]" "map en_inputs (calls s) = [[str ''good'', str ''bad'']]"
    using answered_run by (elim exE conjE)
  note s = reachable_batch_run [OF run]
  have "br_predictions r = map fake_row [str ''good'', str ''bad'']"
    using own_predictions [OF s, of 0 r] f by (cases "calls s") auto
  then show ?thesis using s f
    by (auto simp: fake_row_def label_of_def str_def Let_def)
qed

text \<open>
  A closed batcher abandons what it holds. Once the loop has ended, no step but the caller's own
  cancellation ever resolves a pending future: the requests that were queued or executing when \<open>close\<close>
  was called wait for ever.
\<close>

lemma closed_batcher_abandons:
  assumes "reachable fresh_batcher (batch_rel b model) s" "pc s = Ended" "batch_step b model s e = Some t"
  shows "pc t = Ended \<and> length (futures t) = length (futures s) \<and>
    (\<forall>i < length (futures s). futures t ! i = futures s ! i \<or> e = CancelCall i)"
  by (rule ended_step [OF batch_invariant.holds [OF assms(1)] assms(2,3)])

lemma abandoned_run:
  "\<exists>s. run_steps (batch_step doc_batcher fake_predict_batch) init_batcher
      (one_call @ [Enqueue (str ''q'') [str ''good''] 10 0, Close, DeliverCancel still]) = Some s \<and>
     pc s = Ended \<and> futures s = [FPending, FPending]"
  by (simp add: batch_defs) (simp add: still_def)

theorem closed_batcher_abandons_witness:
  "\<exists>s t. reachable fresh_batcher (batch_rel doc_batcher fake_predict_batch) s \<and> pc s = Ended \<and>
     batch_step doc_batcher fake_predict_batch s Close = Some t \<and> futures t ! 0 = FPending"
proof -
  obtain s where run: "run_steps (batch_step doc_batcher fake_predict_batch) init_batcher
      (one_call @ [Enqueue (str ''q'') [str ''good''] 10 0, Close, DeliverCancel still]) = Some s"
    and s: "pc s = Ended" "futures s = [FPending, FPending]" using abandoned_run by blast
  note r = reachable_batch_run [OF run]
  obtain t where t: "batch_step doc_batcher fake_predict_batch s Close = Some t" by simp
  from closed_batcher_abandons [OF r s(1) t] s r t show ?thesis by auto
qed

section \<open>The models\<close>

text \<open>A batch whose encodings have one length and whose session gives two logits a text.\<close>

lemma onnx_runs:
  assumes "texts \<noteq> []" "encode_batch m texts = Some encodings"
    and "\<forall>e \<in> set encodings. length (ids e) = n \<and> length (attention_mask e) = n \<and> length (type_ids e) = n"
    and "session_run m (feed m [(''input_ids'', map ids encodings), (''attention_mask'', map attention_mask encodings),
       (''token_type_ids'', map type_ids encodings)]) = Some (map (\<lambda>(a, b). [a, b]) logits)"
  shows "\<exists>timing. onnx_predict_batch m clock texts = Some (map (\<lambda>(a, b). sentiment a b) logits, timing)"
proof -
  have "np_matrix (map f encodings) = Some (map f encodings)" if "\<forall>e \<in> set encodings. length (f e) = n" for f :: "encoding \<Rightarrow> int list"
    using that by (cases encodings) (simp_all add: np_matrix_def list_all_iff)
  then have matrices: "np_matrix (map ids encodings) = Some (map ids encodings)"
    "np_matrix (map attention_mask encodings) = Some (map attention_mask encodings)"
    "np_matrix (map type_ids encodings) = Some (map type_ids encodings)"
    using assms(3) by blast+
  let ?probs = "map (\<lambda>(a, b). [1 / (1 + exp (b - a)), 1 / (1 + exp (a - b))]) logits"
  have probs: "each_row softmax_row (map (\<lambda>(a, b). [a, b]) logits) = Some ?probs"
    by (simp add: each_row_map softmax_two split: prod.split)
  have "each_row score_row ?probs = Some (map (\<lambda>(a, b). sentiment a b) logits)"
    by (simp add: each_row_map score_two sentiment_def split: prod.split)
  with probs show ?thesis using assms(1,2,4) matrices by (simp add: onnx_predict_batch_def)
qed

text \<open>
  C33: The ONNX model's answers. When the tokenizer pads a batch to one length, as it is told to, and the session
  answers the arrays made of the encodings with two logits for each text, the batch has one prediction for each
  text, in order: the label is that of the higher logit ("positive" where they are equal), the score lies strictly
  between 0 and 1, and with the label "positive" it is the softmax of the two logits at that label, which the
  subtraction of the row's maximum does not change.
\<close>

theorem onnx_scores:
  assumes "texts \<noteq> []" "encode_batch m texts = Some encodings"
    and "\<forall>e \<in> set encodings. length (ids e) = n \<and> length (attention_mask e) = n \<and> length (type_ids e) = n"
    and "session_run m (feed m [(''input_ids'', map ids encodings), (''attention_mask'', map attention_mask encodings),
       (''token_type_ids'', map type_ids encodings)]) = Some (map (\<lambda>(a, b). [a, b]) logits)"
    and "length logits = length texts"
  shows "\<exists>preds timing. onnx_predict_batch m clock texts = Some (preds, timing) \<and>
    list_all2 (\<lambda>(a, b) (label, score). label = (if a \<le> b then str ''positive'' else str ''negative'') \<and>
      0 < score \<and> score < 1 \<and> (label = str ''positive'' \<longrightarrow> score = exp b / (exp a + exp b))) logits preds"
proof -
  obtain timing where run: "onnx_predict_batch m clock texts = Some (map (\<lambda>(a, b). sentiment a b) logits, timing)"
    using onnx_runs [OF assms(1-4)] by blast
  have "1 / (1 + exp (a - b)) = exp b / (exp a + exp b)" for a b :: real
    by (simp add: exp_diff divide_simps)
  then have "list_all2 (\<lambda>(a, b) (label, score). label = (if a \<le> b then str ''positive'' else str ''negative'') \<and>
      0 < score \<and> score < 1 \<and> (label = str ''positive'' \<longrightarrow> score = exp b / (exp a + exp b))) logits
      (map (\<lambda>(a, b). sentiment a b) logits)"
    by (auto simp: list_all2_conv_all_nth sentiment_def add_pos_pos split: prod.split)
  with run show ?thesis by blast
qed

text \<open>A tokenizer that reads the length of a text, and a session that compares it with 2.\<close>

definition length_session :: onnx_model where
  "length_session =
     \<lparr>encode_batch = (\<lambda>texts. Some (map (\<lambda>t. \<lparr>ids = [int (length t)], attention_mask = [1], type_ids = [0]\<rparr>) texts)),
      input_names = [''input_ids''],
      session_run = (\<lambda>arrays. Some (map (\<lambda>row. [2, of_int (hd row)]) (snd (hd arrays))))\<rparr>"

theorem onnx_scores_witness:
  "\<exists>preds timing. onnx_predict_batch length_session still [str ''good'', str ''a''] = Some (preds, timing) \<and>
     map fst preds = [str ''positive'', str ''negative'']"
proof -
  let ?texts = "[str ''good'', str ''a'']"
  let ?encodings = "map (\<lambda>t. \<lparr>ids = [int (length t)], attention_mask = [1], type_ids = [0]\<rparr>) ?texts"
  have "?texts \<noteq> []" "encode_batch length_session ?texts = Some ?encodings"
    "\<forall>e \<in> set ?encodings. length (ids e) = 1 \<and> length (attention_mask e) = 1 \<and> length (type_ids e) = 1"
    "session_run length_session (feed length_session [(''input_ids'', map ids ?encodings),
       (''attention_mask'', map attention_mask ?encodings), (''token_type_ids'', map type_ids ?encodings)]) =
       Some (map (\<lambda>(a, b). [a, b]) [(2, 4), (2, 1)])"
    "length [(2 :: real, 4 :: real), (2, 1)] = length ?texts"
    by (simp_all add: length_session_def feed_def str_def)
  from onnx_scores [OF this, of still] obtain preds timing where run:
    "onnx_predict_batch length_session still ?texts = Some (preds, timing)"
    and answers: "list_all2 (\<lambda>(a, b) (label, score). label = (if a \<le> b then str ''positive'' else str ''negative'') \<and>
      0 < score \<and> score < 1 \<and> (label = str ''positive'' \<longrightarrow> score = exp b / (exp a + exp b)))
      [(2 :: real, 4), (2, 1)] preds" by blast
  from answers have "map fst preds = [str ''positive'', str ''negative'']" by (auto simp: list_all2_Cons1)
  with run show ?thesis by (intro exI conjI)
qed

definition toy_session :: onnx_model where
  "toy_session =
     \<lparr>encode_batch = (\<lambda>texts. Some (map (\<lambda>_. \<lparr>ids = [101], attention_mask = [1], type_ids = [0]\<rparr>) texts)),
      input_names = [''input_ids''], session_run = (\<lambda>_. Some [[1, 2]])\<rparr>"

text \<open>
  The softmax is a distribution: of a non-empty row of logits it is defined, has the row's length,
  positive entries of at most 1, and sum 1.
\<close>

lemma softmax_is_distribution:
  assumes "logits \<noteq> []"
  shows "\<exists>probs. softmax_row logits = Some probs \<and> length probs = length logits \<and> sum_list probs = 1 \<and>
    list_all (\<lambda>p. 0 < p \<and> p \<le> 1) probs"
  using softmax_row_unshifted [OF assms] softmax_row_sum by blast

theorem softmax_is_distribution_witness: "\<exists>probs. softmax_row [3, 0] = Some probs \<and> sum_list probs = 1"
  using softmax_is_distribution [of "[3, 0]"] by auto

section \<open>The service process\<close>

text \<open>
  C26: Every success reply of a worker running \<open>FakeModel\<close>, in every interleaving of calls, cancellations,
  the batcher's loop, status probes and shutdown, carries the model's predictions for the texts of its
  own request, and the request's id, the worker's id and model version.
\<close>

theorem replies_are_own:
  assumes "reachable (fresh_process c) (process_rel c fake_predict_batch) p"
    "(rq, RpcResponse resp) \<in> set (replies p)"
  shows "rs_predictions resp = map fake_row (rq_inputs rq) \<and> rs_request_id resp = rq_request_id rq
    \<and> rs_worker_id resp = wc_worker_id c \<and> rs_model_version resp = wc_model_version c"
  using worker_process.holds [OF assms(1)] assms(2)
  by (fastforce simp: process_ok_def reply_ok_def list_all_iff)

definition good_request :: predict_request where
  "good_request = \<lparr>rq_request_id = str ''u'', rq_model_version = str ''tinybert-sst2-v1'',
     rq_inputs = [str ''good'']\<rparr>"

definition served_call :: "process_event list" where
  "served_call =
     [ServerStarted, RpcArrives good_request (Some 1) 0 0, LoopRuns (FirstRun still), LoopRuns (Arrive still),
      LoopRuns (TimerFires still), LoopRuns (ModelReturns still), RpcResumes 0]"

definition first_process :: process where
  "first_process = \<lparr>service = serve_started documented_worker_config, life = Booting, rpc_handlers = [], replies = []\<rparr>"

lemma served_run:
  "\<exists>p resp. run_steps (process_step documented_worker_config fake_predict_batch) first_process served_call = Some p \<and>
     replies p = [(good_request, RpcResponse resp)]"
  by (simp add: served_call_def first_process_def batch_defs fake_predict_batch_def serve_started_def serve_ready_def
      worker_logs_def new_worker_def predict_begin_def good_request_def predict_end_def count_result_def without_def
      takes_calls_def answered_run)
    (simp add: still_def good_request_def)

lemma served_reachable:
  "\<exists>p resp. reachable (fresh_process documented_worker_config)
       (process_rel documented_worker_config fake_predict_batch) p \<and>
     replies p = [(good_request, RpcResponse resp)]"
proof -
  obtain p resp where run: "run_steps (process_step documented_worker_config fake_predict_batch) first_process
      served_call = Some p" and r: "replies p = [(good_request, RpcResponse resp)]"
    using served_run by (elim exE conjE)
  have "reachable (fresh_process documented_worker_config)
      (process_rel documented_worker_config fake_predict_batch) first_process"
    by (rule reachable_init) (simp add: fresh_process_def first_process_def)
  from reachable_run [OF this _ run] r show ?thesis by (auto simp: process_rel_def)
qed

theorem replies_are_own_witness:
  "\<exists>p resp. reachable (fresh_process documented_worker_config)
       (process_rel documented_worker_config fake_predict_batch) p \<and>
     replies p = [(good_request, RpcResponse resp)] \<and> rs_predictions resp = [(str ''positive'', 95 / 100)]"
proof -
  obtain p resp where p: "reachable (fresh_process documented_worker_config)
      (process_rel documented_worker_config fake_predict_batch) p"
    and r: "replies p = [(good_request, RpcResponse resp)]" using served_reachable by (elim exE conjE)
  from replies_are_own [OF p, of good_request resp] r p show ?thesis
    by (auto simp: good_request_def fake_row_def label_of_def str_def Let_def)
qed

text \<open>
  A worker that drains never takes work again: whatever happens next, it stays DRAINING, and a call
  that arrives is rejected with FAILED_PRECONDITION before it reaches the batcher.
\<close>

lemma draining_worker_rejects:
  assumes "service_state (service p) = WORKER_STATE_DRAINING" "life p \<noteq> Booting" "process_step c model p e = Some q"
  shows "service_state (service q) = WORKER_STATE_DRAINING \<and>
    (case e of
       RpcArrives rq time_remaining now enqueue_now \<Rightarrow>
         q = p\<lparr>replies := replies p @ [(rq, abort FAILED_PRECONDITION ''WORKER_NOT_READY'')]\<rparr>
     | _ \<Rightarrow> True)"
proof (cases e)
  case (RpcArrives rq time_remaining now enqueue_now)
  with assms show ?thesis by (auto simp: predict_begin_def split: if_splits)
next
  case (RpcResumes k)
  obtain rq i where h: "rpc_handlers p ! k = (rq, i)" by fastforce
  have "service_state s = service_state (service p)"
    if "predict_end c rq v (service p) = Some (out, s)" for v out s
    using that by (auto simp: predict_end_def count_result_def dest: handler_error_frame split: future.splits)
  with RpcResumes assms h show ?thesis by (auto split: if_splits option.splits)
qed (use assms in \<open>auto simp: get_status_def Let_def sig_handler_def serve_finally_def serve_stopped_def worker_logs_def
      split: if_splits
      simp del: batch_step.simps\<close>)

definition drained :: process where
  "drained = first_process\<lparr>service := sig_handler documented_worker_config (service first_process), life := AwaitsStop\<rparr>"

theorem draining_worker_rejects_witness:
  "\<exists>q. process_step documented_worker_config fake_predict_batch drained (RpcArrives good_request (Some 1) 0 0) = Some q \<and>
     q = drained\<lparr>replies := [(good_request, abort FAILED_PRECONDITION ''WORKER_NOT_READY'')]\<rparr>"
proof -
  have d: "service_state (service drained) = WORKER_STATE_DRAINING" "life drained = AwaitsStop" "replies drained = []"
    by (simp_all add: drained_def sig_handler_def worker_logs_def first_process_def)
  then obtain q where q: "process_step documented_worker_config fake_predict_batch drained
      (RpcArrives good_request (Some 1) 0 0) = Some q" by (simp add: predict_begin_def takes_calls_def)
  from draining_worker_rejects [OF d(1) _ q] d(2,3) q show ?thesis by simp
qed

end
