(* ===== verification/Worker_Life.thy ===== *)
theory Worker_Life
  imports Worker_Properties "HOL-Library.Multiset"
begin

text \<open>
  The life of a worker process: what \<open>serve\<close> logs and which state the gateway's probes see at each stage,
  and that from the first signal on no call gets into the worker.
\<close>

section \<open>The lines of \<open>serve\<close>\<close>

definition life_events :: "serve_phase \<Rightarrow> nat \<Rightarrow> string list" where
  "life_events l n =
     (case l of
        Booting \<Rightarrow> []
      | Exited \<Rightarrow> ''worker_ready'' # replicate n ''worker_draining'' @ [''worker_stopped'']
      | _ \<Rightarrow> ''worker_ready'' # replicate n ''worker_draining'')"

definition life_log :: "worker_config \<Rightarrow> serve_phase \<Rightarrow> nat \<Rightarrow> (string \<times> (string \<times> log_value) list) list" where
  "life_log c l n =
     (''starting_worker'', [(''worker_id'', VStr (wc_worker_id c)), (''port'', VInt (wc_grpc_port c))]) #
       map (\<lambda>e. (e, [(''worker_id'', VStr (wc_worker_id c))])) (life_events l n)"

definition life_state :: "serve_phase \<Rightarrow> nat \<Rightarrow> int" where
  "life_state l n =
     (case l of
        Booting \<Rightarrow> WORKER_STATE_STARTING
      | AwaitsStop \<Rightarrow> if n = 0 then WORKER_STATE_READY else WORKER_STATE_DRAINING
      | _ \<Rightarrow> WORKER_STATE_DRAINING)"

definition loop_over :: "batcher \<Rightarrow> bool" where
  "loop_over b \<longleftrightarrow> pc b \<in> {NoTask, Ended}"

text \<open>The stage, with the number of signals handled so far.\<close>

definition life_ok :: "worker_config \<Rightarrow> nat \<Rightarrow> process \<Rightarrow> bool" where
  "life_ok c n p \<longleftrightarrow>
     worker_log (service p) = life_log c (life p) n \<and> service_state (service p) = life_state (life p) n \<and>
     (life p = Booting \<longrightarrow> n = 0) \<and>
     (life p \<in> {ClosesBatcher, StopsServer, Exited} \<longrightarrow> stopping_loop (batcher_state (service p))) \<and>
     (life p \<in> {StopsServer, Exited} \<longrightarrow> loop_over (batcher_state (service p))) \<and>
     (life p = Exited \<longrightarrow> rpc_handlers p = [])"

section \<open>A closed batcher stays closed\<close>

definition steady :: "segment \<Rightarrow> bool" where
  "steady seg \<longleftrightarrow> (\<forall>clk s. stopping_loop (seg clk s) = stopping_loop s \<and> calls (seg clk s) = calls s)"

lemma steady_process: "steady next_round \<Longrightarrow> steady (process_batch next_round batch)"
  unfolding steady_def
proof (intro allI)
  fix clk s assume steady: "\<forall>clk s. stopping_loop (next_round clk s) = stopping_loop s \<and> calls (next_round clk s) = calls s"
  obtain valid fl sl t where p: "prepare (later 1 clk) 0 batch s = (valid, fl, sl, t)"
    by (metis prod_cases4)
  then have "same_loop s t" using prepare_shape by blast
  with p steady show "stopping_loop (process_batch next_round batch clk s) = stopping_loop s \<and>
      calls (process_batch next_round batch clk s) = calls s"
    by (simp add: process_batch_def Let_def same_loop_def)
qed

lemma steady_collect: "steady next_round \<Longrightarrow> steady (collect b next_round batch n_items timer)"
  using steady_process [of next_round batch] by (simp add: steady_def collect_def)

lemma stopping_expire [simp]: "stopping_loop (expire m e s) = stopping_loop s" "calls (expire m e s) = calls s"
  using same_loop_expire [of s m e] by (simp_all add: same_loop_def)

lemma steady_take_first: "steady next_round \<Longrightarrow> steady (take_first b next_round first)"
  using steady_collect [of next_round b "[first]"] by (simp add: steady_def take_first_def)

lemma steady_loop_top: "steady (loop_top b)"
proof -
  have idle: "steady idle" by (simp add: steady_def idle_def)
  show ?thesis
    using steady_take_first [OF idle] idle by (simp add: steady_def loop_top_def split: option.split)
qed

lemma steady_collect_item: "steady (collect_item b batch n_items timer e)"
  using steady_collect [OF steady_loop_top] steady_process [OF steady_loop_top]
  by (simp add: steady_def collect_item_def)

lemma steadyD: "steady seg \<Longrightarrow> stopping_loop s \<Longrightarrow> stopping_loop (seg clk s)"
    "steady seg \<Longrightarrow> calls (seg clk s) = calls s"
  by (simp_all add: steady_def)

lemmas steady_segments =
  steady_loop_top steady_collect_item steady_take_first [OF steady_loop_top] steady_process [OF steady_loop_top]

lemma stopping_step: "stopping_loop s \<Longrightarrow> batch_step b model s e = Some t \<Longrightarrow> stopping_loop t"
  using finish_same [of s]
  by (cases e)
    (auto simp: enqueue_def close_batcher_def cancelled_loop_def Let_def same_loop_def
      split: if_splits list.splits loop_pc.splits intro!: steady_segments [THEN steadyD(1)])

text \<open>A call gets into the batcher by \<open>enqueue\<close> only.\<close>

lemma calls_step:
  "batch_step b model s e = Some t \<Longrightarrow> is_loop_event e \<or> e = CancelCall i \<or> e = Close \<Longrightarrow> calls t = calls s"
  using finish_same [of s]
  by (cases e)
    (auto simp: close_batcher_def cancelled_loop_def Let_def same_loop_def steady_segments [THEN steadyD(2)]
      split: if_splits list.splits loop_pc.splits)

text \<open>Once its loop is over it is over for good.\<close>

lemma loop_over_step: "stopping_loop s \<Longrightarrow> loop_over s \<Longrightarrow> batch_step b model s e = Some t \<Longrightarrow> loop_over t"
  by (cases e)
    (auto simp: loop_over_def enqueue_def close_batcher_def cancelled_loop_def Let_def
      split: if_splits list.splits loop_pc.splits)

section \<open>The process\<close>

text \<open>What a step does to the parts of the invariant, by what it does to the service and the batcher.\<close>

lemma life_ok_keep:
  assumes "life_ok c n p" "life q = life p" "worker_log (service q) = worker_log (service p)"
    "service_state (service q) = service_state (service p)"
    "stopping_loop (batcher_state (service p)) \<Longrightarrow> stopping_loop (batcher_state (service q))"
    "stopping_loop (batcher_state (service p)) \<Longrightarrow> loop_over (batcher_state (service p)) \<Longrightarrow> loop_over (batcher_state (service q))"
    "rpc_handlers p = [] \<Longrightarrow> life p = Exited \<Longrightarrow> rpc_handlers q = []"
  shows "life_ok c n q"
  using assms by (auto simp: life_ok_def)

lemma handler_error_log: "handler_error e s = (out, t) \<Longrightarrow> worker_log t = worker_log s"
  by (auto simp: handler_error_def count_result_def split: exn.splits app_error.splits)

lemma predict_begin_log: "predict_begin c rq tr now enow s = (r, t) \<Longrightarrow> worker_log t = worker_log s \<and> service_state t = service_state s"
  by (auto simp: predict_begin_def Let_def dest: handler_error_log handler_error_frame
      split: if_splits option.splits prod.splits sum.splits)

lemma predict_end_log:
  "predict_end c rq v s = Some (out, t) \<Longrightarrow>
     worker_log t = worker_log s \<and> service_state t = service_state s \<and> batcher_state t = batcher_state s"
  by (auto simp: predict_end_def count_result_def dest: handler_error_log handler_error_frame split: future.splits)

lemma life_ok_batch:
  assumes "life_ok c n p" "batch_step b model (batcher_state (service p)) e = Some t"
  shows "life_ok c n (p\<lparr>service := (service p)\<lparr>batcher_state := t\<rparr>\<rparr>)"
  using stopping_step [OF _ assms(2)] loop_over_step [OF _ _ assms(2)]
  by (intro life_ok_keep [OF assms(1)]) simp_all

lemma life_ok_step:
  assumes ok: "life_ok c n p" and st: "process_step c model p e = Some q"
  shows "life_ok c (if e = Signal then Suc n else n) q"
proof (cases e)
  case (RpcArrives rq tr now enow)
  obtain r t where b: "predict_begin c rq tr now enow (service p) = (r, t)" by fastforce
  have takes: "life p \<notin> {StopsServer, Exited}" using st RpcArrives by (auto simp: takes_calls_def split: if_splits)
  from b show ?thesis
  proof (cases rule: predict_begin_cases)
    case (rejected out)
    with st RpcArrives b predict_begin_log [OF b] show ?thesis
      by (simp, intro life_ok_keep [OF ok]) (auto split: if_splits)
  next
    case (accepted i bt left)
    then have "stopping_loop bt = stopping_loop (batcher_state (service p))"
      by (auto simp: enqueue_def start_loop_def Let_def split: if_splits)
    with st RpcArrives b accepted predict_begin_log [OF b] ok takes show ?thesis
      by (auto simp: life_ok_def split: if_splits)
  qed
next
  case (RpcResumes k)
  obtain rq i where h: "rpc_handlers p ! k = (rq, i)" by fastforce
  with st RpcResumes obtain out s where e: "predict_end c rq (futures (batcher_state (service p)) ! i) (service p) = Some (out, s)"
    and q: "q = p\<lparr>service := s, rpc_handlers := without k (rpc_handlers p), replies := replies p @ [(rq, out)]\<rparr>"
    by (auto split: if_splits option.splits)
  show ?thesis
    using predict_end_log [OF e] q RpcResumes by (simp, intro life_ok_keep [OF ok]) (auto simp: without_def)
next
  case (RpcCancelledBy k)
  with st life_ok_batch [OF ok] show ?thesis by (auto split: if_splits simp del: batch_step.simps)
next
  case (LoopRuns be)
  with st life_ok_batch [OF ok] show ?thesis by (auto split: if_splits simp del: batch_step.simps)
next
  case Signal
  then have n: "life p \<notin> {Booting, Exited}" using st by (auto split: if_splits)
  have "life_log c (life p) (Suc n) = life_log c (life p) n @ [(''worker_draining'', [(''worker_id'', VStr (wc_worker_id c))])]"
    using n by (cases "life p") (simp_all add: life_log_def life_events_def replicate_append_same)
  moreover have "life_state (life p) (Suc n) = WORKER_STATE_DRAINING"
    using n by (cases "life p") (simp_all add: life_state_def)
  ultimately show ?thesis
    using st ok Signal n by (auto simp: life_ok_def sig_handler_def worker_logs_def split: if_splits)
next
  case StatusRpc
  with st show ?thesis by (simp, intro life_ok_keep [OF ok]) (auto simp: get_status_def Let_def split: if_splits)
next
  case ServerStarted
  with st have p: "life p = Booting" "q = p\<lparr>service := serve_ready c (service p), life := AwaitsStop\<rparr>"
    by (auto split: if_splits)
  with ok ServerStarted show ?thesis
    by (simp add: life_ok_def serve_ready_def worker_logs_def life_log_def life_events_def life_state_def)
next
  case ServeFinally
  with st have p: "life p = AwaitsStop" "q = p\<lparr>service := serve_finally (service p), life := ClosesBatcher\<rparr>"
    by (auto split: if_splits)
  with ok ServeFinally show ?thesis
    by (simp add: life_ok_def serve_finally_def life_log_def life_events_def life_state_def close_batcher_def)
next
  case BatcherClosed
  with st have p: "life p = ClosesBatcher" "q = p\<lparr>life := StopsServer\<rparr>" "loop_over (batcher_state (service p))"
    by (auto simp: loop_over_def split: if_splits)
  with ok BatcherClosed show ?thesis by (simp add: life_ok_def life_log_def life_events_def life_state_def)
next
  case ServerStops
  with st have p: "life p = StopsServer" "rpc_handlers p = []"
    "q = p\<lparr>service := serve_stopped c (service p), life := Exited\<rparr>" by (auto split: if_splits)
  with ok ServerStops show ?thesis
    by (simp add: life_ok_def serve_stopped_def worker_logs_def life_log_def life_events_def life_state_def)
qed

lemma life_ok_init: "fresh_process c p \<Longrightarrow> life_ok c 0 p"
  by (simp add: fresh_process_def life_ok_def serve_started_def worker_logs_def new_worker_def life_log_def
      life_events_def life_state_def)

text \<open>The stages in their order, each with the event that begins it.\<close>

fun begins :: "process_event \<Rightarrow> serve_phase list" where
  "begins ServerStarted = [AwaitsStop]"
| "begins ServeFinally = [ClosesBatcher]"
| "begins BatcherClosed = [StopsServer]"
| "begins ServerStops = [Exited]"
| "begins _ = []"

definition stages :: "serve_phase list" where
  "stages = [Booting, AwaitsStop, ClosesBatcher, StopsServer, Exited]"

fun stage :: "serve_phase \<Rightarrow> nat" where
  "stage Booting = 0" | "stage AwaitsStop = 1" | "stage ClosesBatcher = 2" | "stage StopsServer = 3" | "stage Exited = 4"

lemma begins_step:
  "process_step c model p e = Some q \<Longrightarrow>
     take (Suc (stage (life q))) stages = take (Suc (stage (life p))) stages @ begins e \<and>
     last (take (Suc (stage (life q))) stages) = life q"
  by (cases e; cases "life p")
    (auto simp: stages_def split: if_splits option.splits prod.splits sum.splits simp del: batch_step.simps)

lemma life_run:
  assumes "run_steps (process_step c model) p es = Some q" "life_ok c n p"
  shows "life_ok c (n + length (filter (\<lambda>e. e = Signal) es)) q"
  using assms
proof (induction es arbitrary: p n)
  case (Cons e es)
  then obtain u where u: "process_step c model p e = Some u" "run_steps (process_step c model) u es = Some q"
    by (auto split: option.splits)
  from Cons.IH [OF u(2) life_ok_step [OF Cons.prems(2) u(1)]] show ?case by (cases "e = Signal") simp_all
qed simp

lemma stages_run:
  "run_steps (process_step c model) p es = Some q \<Longrightarrow>
     take (Suc (stage (life q))) stages = take (Suc (stage (life p))) stages @ concat (map begins es)"
  by (induction es arbitrary: p) (auto split: option.splits dest: begins_step simp del: process_step.simps)

text \<open>
  C25: The stages of a worker. However calls, probes, signals and the batcher interleave, the worker has gone through
  its stages in their order, none left out and none twice, and is in the last of them; with n signals handled so
  far its log is the start with its port, the line for readiness, n lines for draining and, when it is over, the
  last line; and the state its probes report is STARTING until the server is up, READY while it waits without
  having had a signal, and DRAINING from the first signal or the end of the wait on.
\<close>

theorem worker_stages:
  assumes "fresh_process c p" "run_steps (process_step c model) p es = Some q" "n = length (filter (\<lambda>e. e = Signal) es)"
  shows "(\<exists>k. Booting # concat (map begins es) =
        take (Suc k) [Booting, AwaitsStop, ClosesBatcher, StopsServer, Exited]) \<and>
    life q = last (Booting # concat (map begins es)) \<and>
    worker_log (service q) =
      [(''starting_worker'', [(''worker_id'', VStr (wc_worker_id c)), (''port'', VInt (wc_grpc_port c))])] @
      map (\<lambda>e. (e, [(''worker_id'', VStr (wc_worker_id c))]))
        ((if life q = Booting then [] else [''worker_ready'']) @ replicate n ''worker_draining'' @
         (if life q = Exited then [''worker_stopped''] else [])) \<and>
    service_state (service q) =
      (if life q = Booting then WORKER_STATE_STARTING
       else if life q = AwaitsStop \<and> n = 0 then WORKER_STATE_READY else WORKER_STATE_DRAINING)"
proof -
  have ok: "life_ok c n q" using life_run [OF assms(2) life_ok_init [OF assms(1)]] assms(3) by simp
  have "life p = Booting" using assms(1) by (simp add: fresh_process_def)
  then have order: "Booting # concat (map begins es) = take (Suc (stage (life q))) stages"
    using stages_run [OF assms(2)] by (simp add: stages_def)
  have "last (take (Suc (stage (life q))) stages) = life q" by (cases "life q") (simp_all add: stages_def)
  with order have at: "life q = last (Booting # concat (map begins es))" by simp
  show ?thesis
  proof (intro conjI)
    show "\<exists>k. Booting # concat (map begins es) = take (Suc k) [Booting, AwaitsStop, ClosesBatcher, StopsServer, Exited]"
      using order unfolding stages_def by blast
    show "worker_log (service q) =
      [(''starting_worker'', [(''worker_id'', VStr (wc_worker_id c)), (''port'', VInt (wc_grpc_port c))])] @
      map (\<lambda>e. (e, [(''worker_id'', VStr (wc_worker_id c))]))
        ((if life q = Booting then [] else [''worker_ready'']) @ replicate n ''worker_draining'' @
         (if life q = Exited then [''worker_stopped''] else []))"
      using ok by (cases "life q") (simp_all add: life_ok_def life_log_def life_events_def)
    show "service_state (service q) =
      (if life q = Booting then WORKER_STATE_STARTING
       else if life q = AwaitsStop \<and> n = 0 then WORKER_STATE_READY else WORKER_STATE_DRAINING)"
      using ok by (cases "life q") (simp_all add: life_ok_def life_state_def)
  qed (rule at)
qed

section \<open>A worker that drains\<close>

text \<open>The calls that arrive, with the answer a draining worker gives each.\<close>

fun turned_down :: "process_event \<Rightarrow> (predict_request \<times> rpc_outcome) multiset" where
  "turned_down (RpcArrives rq time_remaining now enqueue_now) = {#(rq, abort FAILED_PRECONDITION ''WORKER_NOT_READY'')#}"
| "turned_down _ = {#}"

definition draining_process :: "process \<Rightarrow> bool" where
  "draining_process p \<longleftrightarrow> service_state (service p) = WORKER_STATE_DRAINING \<and> life p \<noteq> Booting"

text \<open>From one state to another: what was refused is answered, the rest of the answers are to calls taken before.\<close>

definition drains_to :: "process \<Rightarrow> (predict_request \<times> rpc_outcome) multiset \<Rightarrow> process \<Rightarrow> bool" where
  "drains_to p refused q \<longleftrightarrow> draining_process q \<and> calls (batcher_state (service q)) = calls (batcher_state (service p)) \<and>
     (\<exists>ended. mset (replies q) = mset (replies p) + refused + ended \<and>
        mset (map fst (rpc_handlers p)) = mset (map fst (rpc_handlers q)) + image_mset fst ended)"

lemma drains_to_trans:
  assumes "drains_to p x u" "drains_to u y q"
  shows "drains_to p (x + y) q"
proof -
  obtain e1 e2 where "mset (replies u) = mset (replies p) + x + e1" "mset (replies q) = mset (replies u) + y + e2"
    "mset (map fst (rpc_handlers p)) = mset (map fst (rpc_handlers u)) + image_mset fst e1"
    "mset (map fst (rpc_handlers u)) = mset (map fst (rpc_handlers q)) + image_mset fst e2"
    using assms unfolding drains_to_def by blast
  then have "mset (replies q) = mset (replies p) + (x + y) + (e1 + e2) \<and>
      mset (map fst (rpc_handlers p)) = mset (map fst (rpc_handlers q)) + image_mset fst (e1 + e2)"
    by (simp add: ac_simps)
  with assms show ?thesis unfolding drains_to_def by auto
qed

lemma mset_without: "k < length xs \<Longrightarrow> mset xs = add_mset (xs ! k) (mset (without k xs))"
  by (metis add_mset_add_single id_take_nth_drop mset.simps(2) mset_append union_mset_add_mset_right without_def)

lemma drains_step:
  assumes d: "draining_process p" and st: "process_step c model p e = Some q"
  shows "drains_to p (turned_down e) q"
proof (cases e)
  case (RpcArrives rq tr now enow)
  with d st show ?thesis
    by (auto simp: drains_to_def draining_process_def predict_begin_def split: if_splits)
next
  case (RpcResumes k)
  then have k: "k < length (rpc_handlers p)" using st by (simp split: if_splits)
  obtain rq i where h: "rpc_handlers p ! k = (rq, i)" by fastforce
  with st k RpcResumes obtain out s where e: "predict_end c rq (futures (batcher_state (service p)) ! i) (service p) = Some (out, s)"
    and q: "q = p\<lparr>service := s, rpc_handlers := without k (rpc_handlers p), replies := replies p @ [(rq, out)]\<rparr>"
    by (auto split: option.splits)
  have "mset (map fst (rpc_handlers p)) = add_mset rq (mset (map fst (without k (rpc_handlers p))))"
    using mset_without [of k "map fst (rpc_handlers p)"] k h by (simp add: map_without)
  with d predict_end_log [OF e] show ?thesis
    unfolding drains_to_def RpcResumes q by (auto simp: draining_process_def intro!: exI [of _ "{#(rq, out)#}"])
next
  case (RpcCancelledBy k)
  with d st show ?thesis
    by (auto simp: drains_to_def draining_process_def dest: calls_step split: if_splits simp del: batch_step.simps)
next
  case (LoopRuns be)
  with d st show ?thesis
    by (auto simp: drains_to_def draining_process_def dest: calls_step split: if_splits simp del: batch_step.simps)
qed (use d st in \<open>auto simp: drains_to_def draining_process_def get_status_def sig_handler_def serve_finally_def
      serve_stopped_def worker_logs_def close_batcher_def Let_def split: if_splits\<close>)

lemma drains_run:
  assumes "run_steps (process_step c model) p es = Some q" "draining_process p"
  shows "drains_to p (\<Sum>e \<leftarrow> es. turned_down e) q"
  using assms
proof (induction es arbitrary: p)
  case (Cons e es)
  then obtain u where u: "process_step c model p e = Some u" "run_steps (process_step c model) u es = Some q"
    by (auto split: option.splits)
  from drains_step [OF Cons.prems(2) u(1)] have "drains_to p (turned_down e) u" .
  moreover from this Cons.IH [OF u(2)] have "drains_to u (\<Sum>e \<leftarrow> es. turned_down e) q" by (simp add: drains_to_def)
  ultimately show ?case by (simp add: drains_to_trans)
qed (simp add: drains_to_def)

text \<open>
  C21: A worker that drains takes no more work. From its first signal, or the end of its wait, on, whatever happens:
  every call that arrives is answered at once, FAILED_PRECONDITION WORKER_NOT_READY, and none gets into the
  batcher; the other answers given are to calls that were suspended at that moment, one for each that is no longer
  suspended; and the status probes, which still work, report DRAINING.
\<close>

theorem draining_worker_takes_no_more:
  assumes "process_step c model p e = Some u" "e = Signal \<or> e = ServeFinally"
    and "run_steps (process_step c model) u es = Some q"
  shows "calls (batcher_state (service q)) = calls (batcher_state (service p)) \<and>
    (\<exists>ended. mset (replies q) = mset (replies p) + (\<Sum>e \<leftarrow> es. turned_down e) + ended \<and>
       mset (map fst (rpc_handlers p)) = mset (map fst (rpc_handlers q)) + image_mset fst ended) \<and>
    (\<forall>reply s. get_status c (service q) = (Some reply, s) \<longrightarrow> sr_state reply = WORKER_STATE_DRAINING)"
proof -
  have u: "draining_process u" "calls (batcher_state (service u)) = calls (batcher_state (service p))"
    "replies u = replies p" "rpc_handlers u = rpc_handlers p"
    using assms(1,2) by (auto simp: draining_process_def sig_handler_def serve_finally_def worker_logs_def close_batcher_def
        split: if_splits)
  from drains_run [OF assms(3) u(1)] u(2-) show ?thesis
    by (auto simp: drains_to_def draining_process_def get_status_def Let_def split: if_splits)
qed

text \<open>A worker that gets a call while it drains, and is over.\<close>

definition whole_life :: "process_event list" where
  "whole_life = [ServerStarted, Signal, RpcArrives good_request (Some 1) 0 0, ServeFinally, BatcherClosed, ServerStops]"

lemma whole_life_run:
  "\<exists>p. run_steps (process_step documented_worker_config fake_predict_batch) first_process whole_life = Some p"
  by (simp add: whole_life_def first_process_def takes_calls_def serve_started_def serve_ready_def sig_handler_def
      worker_logs_def new_worker_def predict_begin_def serve_finally_def close_batcher_def init_batcher_def)

lemma first_process_fresh: "fresh_process documented_worker_config first_process"
  by (simp add: fresh_process_def first_process_def)

theorem worker_stages_witness:
  "\<exists>p. run_steps (process_step documented_worker_config fake_predict_batch) first_process whole_life = Some p \<and>
     life p = Exited \<and> map fst (worker_log (service p)) =
       [''starting_worker'', ''worker_ready'', ''worker_draining'', ''worker_stopped'']"
proof -
  obtain p where p: "run_steps (process_step documented_worker_config fake_predict_batch) first_process whole_life = Some p"
    using whole_life_run by blast
  note stages = worker_stages [OF first_process_fresh p refl, THEN conjunct2]
  have over: "life p = Exited" using stages [THEN conjunct1] by (simp add: whole_life_def)
  have "map fst (worker_log (service p)) =
      [''starting_worker'', ''worker_ready'', ''worker_draining'', ''worker_stopped'']"
    using stages [THEN conjunct2, THEN conjunct1] over by (simp add: whole_life_def)
  with p over show ?thesis by (intro exI [of _ p] conjI)
qed

theorem draining_worker_takes_no_more_witness:
  "\<exists>p u q. process_step documented_worker_config fake_predict_batch p Signal = Some u \<and>
     run_steps (process_step documented_worker_config fake_predict_batch) u [RpcArrives good_request (Some 1) 0 0] = Some q \<and>
     replies q = [(good_request, abort FAILED_PRECONDITION ''WORKER_NOT_READY'')]"
proof -
  let ?step = "process_step documented_worker_config fake_predict_batch"
  obtain p u where p: "?step first_process ServerStarted = Some p" "?step p Signal = Some u" "replies p = []" "rpc_handlers p = []"
    by (simp add: first_process_def serve_ready_def worker_logs_def)
  have "\<exists>q. run_steps ?step u [RpcArrives good_request (Some 1) 0 0] = Some q"
    using p(1,2) by (auto simp: first_process_def takes_calls_def sig_handler_def worker_logs_def predict_begin_def)
  then obtain q where q: "run_steps ?step u [RpcArrives good_request (Some 1) 0 0] = Some q" by blast
  from draining_worker_takes_no_more [OF p(2) _ q] p(3,4)
  have "mset (replies q) = {#(good_request, abort FAILED_PRECONDITION ''WORKER_NOT_READY'')#}" by auto
  then have "replies q = [(good_request, abort FAILED_PRECONDITION ''WORKER_NOT_READY'')]" by simp
  with p(2) q show ?thesis by (intro exI conjI)
qed

end
