(* ===== verification/Startup.thy ===== *)
theory Startup
  imports Worker_Properties Download
begin

text \<open>
  How a worker comes up: the constructor of \<open>ONNXModel\<close> (\<open>worker/model.py\<close>), the start of the metrics server
  (\<open>worker/metrics.py\<close>) and the head of \<open>serve\<close> (\<open>worker/server.py\<close>), up to the batcher. The tokenizer and
  ONNX Runtime are a record of what their constructors give, \<open>None\<close> when they raise.
\<close>

section \<open>The libraries\<close>

record session_options =
  so_intra_op_num_threads :: int
  so_inter_op_num_threads :: int
  so_execution_mode :: string

text \<open>
  A tokenizer, from its file, with \<open>enable_truncation(max_length)\<close> and \<open>enable_padding(direction)\<close> applied; a
  session, from its file and options, with the names of its inputs.
\<close>

type_synonym model_path = "pystr \<times> string"

record ml_runtime =
  rt_tokenizer :: "model_path \<Rightarrow> int \<Rightarrow> string \<Rightarrow> (pystr list \<Rightarrow> encoding list option) option"
  rt_session :: "model_path \<Rightarrow> session_options \<Rightarrow>
    (string list \<times> ((string \<times> int list list) list \<Rightarrow> real list list option)) option"

section \<open>The code\<close>

definition onnx_init ::
  "(model_path \<Rightarrow> bool) \<Rightarrow> ml_runtime \<Rightarrow> pystr \<Rightarrow> int \<Rightarrow> int \<Rightarrow> string + onnx_model" where
  "onnx_init exists rt model_dir intra_op_threads inter_op_threads =
     (let tokenizer_path = (model_dir, ''tokenizer.json''); onnx_path = (model_dir, ''model.onnx'') in
      if \<not> exists tokenizer_path \<or> \<not> exists onnx_path then Inl ''FileNotFoundError''
      else case rt_tokenizer rt tokenizer_path 128 ''right'' of
          None \<Rightarrow> Inl ''Exception''
        | Some encode \<Rightarrow>
            (let opts = \<lparr>so_intra_op_num_threads = intra_op_threads, so_inter_op_num_threads = inter_op_threads,
                         so_execution_mode = ''ORT_SEQUENTIAL''\<rparr>
             in case rt_session rt onnx_path opts of
                  None \<Rightarrow> Inl ''Exception''
                | Some (names, run) \<Rightarrow> Inr \<lparr>encode_batch = encode, input_names = names, session_run = run\<rparr>))"

text \<open>Whether the metrics are served: an exception of \<open>start_http_server\<close> (\<open>None\<close>) is swallowed.\<close>

definition start_worker_metrics_server :: "(int \<Rightarrow> unit option) \<Rightarrow> int \<Rightarrow> bool" where
  "start_worker_metrics_server start_http_server port =
     (case start_http_server port of None \<Rightarrow> False | Some _ \<Rightarrow> True)"

datatype served_model = Fake | Onnx onnx_model

definition choose_model ::
  "bool \<Rightarrow> environ \<Rightarrow> (model_path \<Rightarrow> bool) \<Rightarrow> ml_runtime \<Rightarrow> worker_config \<Rightarrow> string + served_model" where
  "choose_model use_fake_model env exists rt c =
     (if uses_fake_model use_fake_model env then Inr Fake
      else case onnx_init exists rt (wc_model_dir c) (wc_ort_intra_op_threads c) (wc_ort_inter_op_threads c) of
          Inl e \<Rightarrow> Inl e
        | Inr m \<Rightarrow> Inr (Onnx m))"

text \<open>
  \<open>serve\<close> up to \<open>server.start\<close>: an exception of the model's constructor ends the process, with one line in
  its log and no port open; otherwise the service is there, STARTING.
\<close>

definition serve_boot ::
  "bool \<Rightarrow> environ \<Rightarrow> (model_path \<Rightarrow> bool) \<Rightarrow> ml_runtime \<Rightarrow> (int \<Rightarrow> unit option) \<Rightarrow> worker_config \<Rightarrow>
     string + served_model \<times> bool \<times> process" where
  "serve_boot use_fake_model env exists rt start_http_server c =
     (let metrics_served = start_worker_metrics_server start_http_server (wc_metrics_port c) in
      case choose_model use_fake_model env exists rt c of
        Inl e \<Rightarrow> Inl e
      | Inr m \<Rightarrow> Inr (m, metrics_served,
          \<lparr>service = serve_started c, life = Booting, rpc_handlers = [], replies = []\<rparr>))"

definition predict_with :: "served_model \<Rightarrow> (nat \<Rightarrow> pyfloat) \<Rightarrow> pystr list \<Rightarrow> batch_output option" where
  "predict_with m clock texts = 
     (case m of Fake \<Rightarrow> fake_predict_batch texts | Onnx n \<Rightarrow> onnx_predict_batch n clock texts)"

section \<open>The downloaded model\<close>

text \<open>\<open>Path.exists\<close> over the file system the download leaves; the directory is plain text.\<close>

definition present :: "filesystem \<Rightarrow> model_path \<Rightarrow> bool" where
  "present fs p \<longleftrightarrow> list_all (\<lambda>c. c < 256) (fst p) \<and> fs (map char_of (fst p), snd p) \<noteq> None"

lemma present_str: "present fs (str d, n) \<longleftrightarrow> fs (d, n) \<noteq> None"
  by (auto simp: present_def str_def comp_def list_all_iff)

lemma model_files: "\<exists>item \<in> set FILES. mf_path item = (''artifacts/model'', ''tokenizer.json'')"
  "\<exists>item \<in> set FILES. mf_path item = (''artifacts/model'', ''model.onnx'')"
  by (simp_all add: FILES_def)

text \<open>What the libraries have to give for the two files.\<close>

definition loads_model :: "ml_runtime \<Rightarrow> worker_config \<Rightarrow> onnx_model \<Rightarrow> bool" where
  "loads_model rt c m \<longleftrightarrow>
     rt_tokenizer rt (wc_model_dir c, ''tokenizer.json'') 128 ''right'' = Some (encode_batch m) \<and>
     rt_session rt (wc_model_dir c, ''model.onnx'')
       \<lparr>so_intra_op_num_threads = wc_ort_intra_op_threads c, so_inter_op_num_threads = wc_ort_inter_op_threads c,
        so_execution_mode = ''ORT_SEQUENTIAL''\<rparr> = Some (input_names m, session_run m)"

lemma default_model_dir:
  "load_worker_config env = Some c \<Longrightarrow> env ''MODEL_DIR'' = None \<Longrightarrow> wc_model_dir c = str ''artifacts/model''"
  by (auto simp: load_worker_config_def getenv_def bind_eq_Some_conv)

text \<open>
  C22: From the download to a worker. After a download that ends well, a worker whose model directory shows the
  two files of the downloaded one, as the default does and compose's mount at \<open>/models\<close>, comes up as a fresh
  process with the ONNX model those files are, if the tokenizer and session libraries load them, with the
  configured numbers of threads; where one of the two is missing, it ends with FileNotFoundError instead.
\<close>

theorem downloaded_model_served:
  assumes "download_all sha256 servers FILES fs = (True, states)" "\<not> uses_fake_model flag env"
    "wc_model_dir c = str d" "\<And>name. mounted (d, name) = last states (''artifacts/model'', name)" "loads_model rt c m"
  shows "(\<exists>served p. serve_boot flag env (present mounted) rt http c = Inr (Onnx m, served, p) \<and> fresh_process c p)
    \<and> (fs' (d, ''tokenizer.json'') = None \<or> fs' (d, ''model.onnx'') = None \<longrightarrow>
        serve_boot flag env (present fs') rt http c = Inl ''FileNotFoundError'')"
proof -
  have there: "last states (mf_path item) \<noteq> None" if "item \<in> set FILES" for item
    using download_all_ok [OF assms(1) FILES_separate that] by (auto simp: verified_def)
  have "mounted (d, ''tokenizer.json'') \<noteq> None" "mounted (d, ''model.onnx'') \<noteq> None"
    using model_files there unfolding assms(4) by metis+
  then show ?thesis
    using assms(2,3,5)
    by (auto simp: serve_boot_def choose_model_def onnx_init_def loads_model_def present_str Let_def fresh_process_def)
qed

text \<open>
  Nothing else is asked of the files: two file systems with the same files, whatever is in them, bring up
  the same worker, and the digest it reports is the configured one. The tokenizer's limit is 128,
  whatever \<open>MAX_TOKENS_PER_INPUT\<close> says.
\<close>

lemma boot_ignores_contents:
  assumes "dom fs = dom fs'"
  shows "serve_boot flag env (present fs) rt http c = serve_boot flag env (present fs') rt http c"
proof -
  have "fs p = None \<longleftrightarrow> fs' p = None" for p using assms by (metis domIff)
  then have "present fs = present fs'" by (auto simp: present_def)
  then show ?thesis by simp
qed

lemma boot_ignores_token_limit:
  "serve_boot flag env exists rt http (c\<lparr>wc_max_tokens_per_input := k\<rparr>) =
     map_sum id (map_prod id id) (serve_boot flag env exists rt http c)"
  by (auto simp: serve_boot_def choose_model_def serve_started_def new_worker_def worker_logs_def Let_def
      split: sum.split)

text \<open>The documented worker, over the files of a complete download.\<close>

definition toy_runtime :: ml_runtime where
  "toy_runtime =
     \<lparr>rt_tokenizer = (\<lambda>path limit direction. Some (encode_batch toy_session)),
      rt_session = (\<lambda>path opts. Some (input_names toy_session, session_run toy_session))\<rparr>"

lemma plain_environ: "\<not> uses_fake_model False (\<lambda>_. None)"
  by (simp add: uses_fake_model_def getenv_def str_def)

text \<open>Compose's worker: \<open>MODEL_DIR\<close> is \<open>/models\<close>, where the downloaded directory is mounted.\<close>

definition compose_mount :: "filesystem \<Rightarrow> filesystem" where
  "compose_mount fs = (\<lambda>(d, name). if d = ''/models'' then fs (''artifacts/model'', name) else None)"

theorem downloaded_model_served_witness:
  "\<exists>served p. serve_boot False (\<lambda>_. None) (present (compose_mount served_files)) toy_runtime (\<lambda>port. None)
       (documented_worker_config\<lparr>wc_model_dir := str ''/models''\<rparr>) = Inr (Onnx toy_session, served, p)"
proof -
  let ?c = "documented_worker_config\<lparr>wc_model_dir := str ''/models''\<rparr>"
  have download: "download_all toy_digest (\<lambda>url. Refused) FILES served_files = (True, replicate (Suc (length FILES)) served_files)"
    by (rule download_all_again [OF served_verified])
  have loads: "loads_model toy_runtime ?c toy_session" by (simp add: loads_model_def toy_runtime_def)
  have dir: "wc_model_dir ?c = str ''/models''" by simp
  have "compose_mount served_files (''/models'', name) =
      last (replicate (Suc (length FILES)) served_files) (''artifacts/model'', name)" for name
    using FILES_ne by (simp add: compose_mount_def)
  from downloaded_model_served [OF download plain_environ dir this loads, where http = "\<lambda>port. None" and fs' = served_files]
  show ?thesis by blast
qed

end
