(* ===== verification/Rpc.thy ===== *)
theory Rpc
  imports Proto
begin

text \<open>
  The stub and the service table of \<open>generated/inference/v1/inference_pb2_grpc.py\<close>. What the generated code
  hands to the gRPC runtime is data: for a call its path and the two message types whose
  \<open>SerializeToString\<close> and \<open>FromString\<close> it uses, for a handler the servicer's method and the two types. The
  runtime itself and the wire format are not here.
\<close>

section \<open>The tables\<close>

datatype message = PredictRequest | PredictResponse | StatusRequest | StatusResponse

record unary_call =
  uc_path :: string
  uc_request_serializer :: message
  uc_response_deserializer :: message

text \<open>\<open>InferenceWorkerStub.__init__\<close>: the attributes of a stub.\<close>

definition InferenceWorkerStub :: "(string, unary_call) dict" where
  "InferenceWorkerStub =
     [(''Predict'', \<lparr>uc_path = ''/inference.v1.InferenceWorker/Predict'',
        uc_request_serializer = PredictRequest, uc_response_deserializer = PredictResponse\<rparr>),
      (''GetStatus'', \<lparr>uc_path = ''/inference.v1.InferenceWorker/GetStatus'',
        uc_request_serializer = StatusRequest, uc_response_deserializer = StatusResponse\<rparr>)]"

text \<open>The static methods of \<open>InferenceWorker\<close>, the experimental interface.\<close>

definition experimental_calls :: "(string, unary_call) dict" where
  "experimental_calls =
     [(''Predict'', \<lparr>uc_path = ''/inference.v1.InferenceWorker/Predict'',
        uc_request_serializer = PredictRequest, uc_response_deserializer = PredictResponse\<rparr>),
      (''GetStatus'', \<lparr>uc_path = ''/inference.v1.InferenceWorker/GetStatus'',
        uc_request_serializer = StatusRequest, uc_response_deserializer = StatusResponse\<rparr>)]"

record 'h rpc_handler =
  rh_method :: 'h
  rh_request_deserializer :: message
  rh_response_serializer :: message

text \<open>A servicer's two methods, and the table registered for it with the name of the service.\<close>

record 'h servicer =
  sv_Predict :: 'h
  sv_GetStatus :: 'h

definition add_InferenceWorkerServicer_to_server :: "'h servicer \<Rightarrow> string \<times> (string, 'h rpc_handler) dict" where
  "add_InferenceWorkerServicer_to_server sv =
     (''inference.v1.InferenceWorker'',
      [(''Predict'', \<lparr>rh_method = sv_Predict sv, rh_request_deserializer = PredictRequest,
          rh_response_serializer = PredictResponse\<rparr>),
       (''GetStatus'', \<lparr>rh_method = sv_GetStatus sv, rh_request_deserializer = StatusRequest,
          rh_response_serializer = StatusResponse\<rparr>)])"

text \<open>The base class: both methods set the code and the details and raise.\<close>

datatype base_outcome = NotImplementedError grpc_status string

definition InferenceWorkerServicer :: "base_outcome servicer" where
  "InferenceWorkerServicer =
     \<lparr>sv_Predict = NotImplementedError UNIMPLEMENTED ''Method not implemented!'',
      sv_GetStatus = NotImplementedError UNIMPLEMENTED ''Method not implemented!''\<rparr>"

text \<open>
  The version check on import: \<open>first_version_is_lower\<close> is the installed package's, \<open>None\<close> when it cannot be
  imported; \<open>False\<close> is the \<open>RuntimeError\<close>.
\<close>

definition GRPC_GENERATED_VERSION :: string where
  "GRPC_GENERATED_VERSION = ''1.71.0''"

definition version_supported :: "(string \<Rightarrow> string \<Rightarrow> bool) option \<Rightarrow> string \<Rightarrow> bool" where
  "version_supported first_version_is_lower grpc_version =
     (case first_version_is_lower of
        None \<Rightarrow> False
      | Some lower \<Rightarrow> \<not> lower grpc_version GRPC_GENERATED_VERSION)"

section \<open>Both sides fit\<close>

text \<open>
  Under the path of each call there is the handler of that name, and what one side serializes the other
  reads as the same message type; both client interfaces agree.
\<close>

definition fits :: "(string \<times> (string, 'h rpc_handler) dict) \<Rightarrow> string \<times> unary_call \<Rightarrow> bool" where
  "fits table c \<longleftrightarrow>
     uc_path (snd c) = ''/'' @ fst table @ ''/'' @ fst c \<and>
     (case map_of (snd table) (fst c) of
        None \<Rightarrow> False
      | Some h \<Rightarrow> rh_request_deserializer h = uc_request_serializer (snd c) \<and>
          rh_response_serializer h = uc_response_deserializer (snd c))"

lemma stub_fits_servicer:
  "list_all (fits (add_InferenceWorkerServicer_to_server sv)) InferenceWorkerStub \<and>
   map fst (snd (add_InferenceWorkerServicer_to_server sv)) = map fst InferenceWorkerStub \<and>
   experimental_calls = InferenceWorkerStub"
  by (simp add: fits_def add_InferenceWorkerServicer_to_server_def InferenceWorkerStub_def experimental_calls_def)

end
