(* ===== verification/App_Tasks.thy ===== *)
theory App_Tasks
  imports App_Properties
begin

text \<open>
  The gateway's application as it runs: any number of HTTP requests, the pollers and the shutdown on one
  event loop. A request's task passes through the middleware, the endpoint and the client and is cut at
  the awaits of all three: of the body, of \<open>call_next\<close>, and of the worker's call. \<open>handle_request\<close> is what
  one such task does when it is alone.
\<close>

section \<open>The task of a request\<close>

text \<open>
  Where a request's task is. \<open>Handed\<close> is the start of \<open>call_next\<close>, before the endpoint runs, and \<open>Handled\<close>
  its end; both, and \<open>Predicting\<close>, hold \<open>start_time\<close>, and \<open>Predicting\<close> holds \<open>t0\<close> of the endpoint.
\<close>

datatype http_task =
    ReadingBody
  | Handed pyfloat
  | Predicting pyfloat pyfloat validated flight
  | Handled pyfloat "exn + http_response"

text \<open>
  What an await gives back: the body, or an exception of reading it; the endpoint's turn, with the fresh
  request id and the clocks it reads; a call's outcome, with the clocks after it, at the next attempt and
  at the end; a cancellation, with the clock of the middleware's \<open>finally\<close>; the turn of the middleware.
  (Where the task waits for a call, the cancellation is that call's outcome.)
\<close>

datatype task_event =
    BodyRead pyfloat
  | BodyLost exn
  | EndpointRuns pystr pyfloat pyfloat pyfloat
  | CallEnds rpc_outcome pyfloat pyfloat pyfloat
  | TaskCancelled pyfloat
  | MiddlewareEnds pyfloat

text \<open>A task goes on, or it is over: turned away at the door, or with what \<open>call_next\<close> gave it.\<close>

datatype task_result =
    GoesOn http_task
  | TurnedAway "exn + http_response"
  | Settled "exn + http_response"

definition go_on_to ::
  "gateway_config \<Rightarrow> pyfloat \<Rightarrow> pyfloat \<Rightarrow> validated \<Rightarrow> pyfloat \<Rightarrow> call \<Rightarrow> nat \<Rightarrow> gateway \<Rightarrow> http_task \<times> gateway" where
  "go_on_to c start t0 v now k attempt g =
     (case launch c now k attempt g of
        (Inl e, h) \<Rightarrow> (Handled start (Inr (error_response (v_request_id v) e)), h)
      | (Inr f, h) \<Rightarrow> (Predicting start t0 v f, h))"

text \<open>The endpoint up to its await; the route's handler where it has none.\<close>

definition endpoint_runs ::
  "gateway_config \<Rightarrow> (nat list \<Rightarrow> json option) \<Rightarrow> (http_request \<Rightarrow> http_response) \<Rightarrow> http_request \<Rightarrow> pyfloat \<Rightarrow>
     pystr \<Rightarrow> pyfloat \<Rightarrow> pyfloat \<Rightarrow> pyfloat \<Rightarrow> gateway \<Rightarrow> http_task \<times> gateway" where
  "endpoint_runs c parse fallback r start uuid t0 now0 now1 g =
     (if is_predict r
      then case validate c uuid (parse (ht_body r)) of
          Inl e \<Rightarrow> (Handled start (Inl e), g)
        | Inr v \<Rightarrow>
            go_on_to c start t0 v now1
              (start_call now0 (v_request_id v) (v_inputs v) (v_model_version v) (v_timeout_ms v)) 1 g
      else (Handled start (Inr (other_route fallback r g)), g))"

text \<open>The endpoint from the end of a call, up to the next call or its own end.\<close>

definition call_ends ::
  "gateway_config \<Rightarrow> pyfloat \<Rightarrow> pyfloat \<Rightarrow> validated \<Rightarrow> flight \<Rightarrow> rpc_outcome \<Rightarrow> pyfloat \<Rightarrow> pyfloat \<Rightarrow> pyfloat \<Rightarrow>
     gateway \<Rightarrow> http_task \<times> gateway" where
  "call_ends c start t0 v f out now0 now1 t1 g =
     (case attempt_end c (fl_attempt f) now0 (fl_call f) (fl_worker f) out g of
        (Returned res, h) \<Rightarrow> (Handled start (Inr (success_response v res t0 t1)), h)
      | (Raised (App e), h) \<Rightarrow> (Handled start (Inr (error_response (v_request_id v) e)), h)
      | (Raised e, h) \<Rightarrow> (Handled start (Inl e), h)
      | (Retry x, h) \<Rightarrow> go_on_to c start t0 v now1 ((fl_call f)\<lparr>exclude_ids := x\<rparr>) (Suc (fl_attempt f)) h)"

text \<open>The middleware's \<open>finally\<close>, with the labels of what \<open>call_next\<close> gave.\<close>

definition count_request :: "pyfloat \<Rightarrow> exn + http_response \<Rightarrow> gateway \<Rightarrow> gateway" where
  "count_request duration out g =
     (let (response, status, code) = settle out
      in inc_requests_total status code (observe_duration duration (add_active (-1) g)))"

fun task_runs ::
  "gateway_config \<Rightarrow> (nat list \<Rightarrow> json option) \<Rightarrow> (http_request \<Rightarrow> http_response) \<Rightarrow> http_request \<Rightarrow> http_task \<Rightarrow>
     task_event \<Rightarrow> gateway \<Rightarrow> (task_result \<times> gateway) option" where
  "task_runs c parse fallback r ReadingBody (BodyRead clk) g =
     Some (case body_check c r of
         Some out \<Rightarrow> (TurnedAway out, g)
       | None \<Rightarrow> (GoesOn (Handed clk), add_active 1 g))"
| "task_runs c parse fallback r ReadingBody (BodyLost e) g = Some (TurnedAway (Inl e), g)"
| "task_runs c parse fallback r ReadingBody (TaskCancelled clk) g = Some (TurnedAway (Inl Cancelled), g)"
| "task_runs c parse fallback r (Handed start) (EndpointRuns uuid t0 now0 now1) g =
     Some (apfst GoesOn (endpoint_runs c parse fallback r start uuid t0 now0 now1 g))"
| "task_runs c parse fallback r (Handed start) (TaskCancelled clk) g =
     Some (Settled (Inl Cancelled), count_request (clk - start) (Inl Cancelled) g)"
| "task_runs c parse fallback r (Predicting start t0 v f) (CallEnds out now0 now1 t1) g =
     Some (apfst GoesOn (call_ends c start t0 v f out now0 now1 t1 g))"
| "task_runs c parse fallback r (Handled start out) (TaskCancelled clk) g =
     Some (Settled (Inl Cancelled), count_request (clk - start) (Inl Cancelled) g)"
| "task_runs c parse fallback r (Handled start out) (MiddlewareEnds clk) g =
     Some (Settled out, count_request (clk - start) out g)"
| "task_runs c parse fallback r ph ev g = None"

section \<open>The application\<close>

record service =
  app :: gateway
  app_tasks :: pollers
  connections :: "(http_request \<times> http_task) list"
  turned_away :: "(http_request \<times> (exn + http_response)) list"
  settled_requests :: "(http_request \<times> (exn + http_response)) list"
  arrived :: nat

datatype service_event =
    Arrives http_request pyfloat
  | Task nat task_event
  | HealthBegins pystr
  | HealthEnds pystr probe_result pyfloat
  | ShutdownBegins
  | ShutdownResumes

text \<open>The start of the middleware.\<close>

definition arrives :: "gateway_config \<Rightarrow> http_request \<Rightarrow> pyfloat \<Rightarrow> service \<Rightarrow> service" where
  "arrives c r clk s =
     (let t = s\<lparr>arrived := Suc (arrived s)\<rparr> in
      if ht_path r \<noteq> str ''/v1/predict''
      then t\<lparr>app := add_active 1 (app s), connections := connections s @ [(r, Handed clk)]\<rparr>
      else case header_check c r (app s) of
          Some out \<Rightarrow> t\<lparr>turned_away := turned_away s @ [(r, out)]\<rparr>
        | None \<Rightarrow> t\<lparr>connections := connections s @ [(r, ReadingBody)]\<rparr>)"

definition with_app_tasks :: "service \<Rightarrow> (pollers \<times> gateway) option \<Rightarrow> service option" where
  "with_app_tasks s x = map_option (\<lambda>(p, g). s\<lparr>app_tasks := p, app := g\<rparr>) x"

fun service_step ::
  "gateway_config \<Rightarrow> (nat list \<Rightarrow> json option) \<Rightarrow> (http_request \<Rightarrow> http_response) \<Rightarrow> service \<Rightarrow> service_event \<Rightarrow>
     service option" where
  "service_step c parse fallback s (Arrives r clk) = Some (arrives c r clk s)"
| "service_step c parse fallback s (Task i ev) =
     (if length (connections s) \<le> i then None
      else let (r, ph) = connections s ! i; rest = without i (connections s) in
        case task_runs c parse fallback r ph ev (app s) of
          None \<Rightarrow> None
        | Some (GoesOn ph', g) \<Rightarrow> Some (s\<lparr>app := g, connections := (connections s)[i := (r, ph')]\<rparr>)
        | Some (TurnedAway out, g) \<Rightarrow>
            Some (s\<lparr>app := g, connections := rest, turned_away := turned_away s @ [(r, out)]\<rparr>)
        | Some (Settled out, g) \<Rightarrow>
            Some (s\<lparr>app := g, connections := rest, settled_requests := settled_requests s @ [(r, out)]\<rparr>))"
| "service_step c parse fallback s (HealthBegins w) = with_app_tasks s (poller_resumes w (app_tasks s) (app s))"
| "service_step c parse fallback s (HealthEnds w out now) =
     with_app_tasks s (probe_returns c w out now (app_tasks s) (app s))"
| "service_step c parse fallback s ShutdownBegins =
     with_app_tasks s (stop_begins (app_tasks s) ((app s)\<lparr>accepting_requests := False\<rparr>))"
| "service_step c parse fallback s ShutdownResumes = with_app_tasks s (stop_resumes (app_tasks s) (app s))"

definition service_rel ::
  "gateway_config \<Rightarrow> (nat list \<Rightarrow> json option) \<Rightarrow> (http_request \<Rightarrow> http_response) \<Rightarrow> service \<Rightarrow> service_event \<Rightarrow>
     service \<Rightarrow> bool" where
  "service_rel c parse fallback s e t \<longleftrightarrow> service_step c parse fallback s e = Some t"

text \<open>The modules' globals, and the application after its start.\<close>

definition init_gateway :: "gateway_config \<Rightarrow> gateway" where
  "init_gateway c = sched.extend (init_sched c) \<lparr>accepting_requests = True\<rparr>"

definition started_service :: "gateway_config \<Rightarrow> service" where
  "started_service c =
     (let g = lifespan_startup (init_gateway c) in
      \<lparr>app = g, app_tasks = started_pollers g, connections = [], turned_away = [], settled_requests = [],
       arrived = 0\<rparr>)"

definition serving :: "gateway_config \<Rightarrow> service \<Rightarrow> bool" where
  "serving c s \<longleftrightarrow> distinct (map fst (configured_workers c)) \<and> s = started_service c"

section \<open>Steps taken apart\<close>

text \<open>A step of a request's task, with the other connections around it.\<close>

lemma nth_split: "i < length xs \<Longrightarrow> \<exists>pre post. xs = pre @ xs ! i # post \<and> length pre = i"
  by (metis id_take_nth_drop length_take min.absorb2 nat_less_le)

lemma service_taskE:
  assumes "service_step c parse fallback s (Task i ev) = Some t"
  obtains pre r ph post res g where
    "connections s = pre @ (r, ph) # post" "length pre = i" "task_runs c parse fallback r ph ev (app s) = Some (res, g)"
    "app t = g" "app_tasks t = app_tasks s" "arrived t = arrived s"
    "(\<exists>ph'. res = GoesOn ph' \<and> connections t = pre @ (r, ph') # post \<and> turned_away t = turned_away s \<and>
        settled_requests t = settled_requests s) \<or>
     (\<exists>out. res = TurnedAway out \<and> connections t = pre @ post \<and> turned_away t = turned_away s @ [(r, out)] \<and>
        settled_requests t = settled_requests s) \<or>
     (\<exists>out. res = Settled out \<and> connections t = pre @ post \<and> turned_away t = turned_away s \<and>
        settled_requests t = settled_requests s @ [(r, out)])"
proof -
  have i: "i < length (connections s)" using assms by (simp split: if_splits)
  then obtain pre post where split: "connections s = pre @ connections s ! i # post" "length pre = i"
    using nth_split by blast
  obtain r ph where rp: "connections s ! i = (r, ph)" by fastforce
  with assms i obtain res g where run: "task_runs c parse fallback r ph ev (app s) = Some (res, g)"
    by (cases "task_runs c parse fallback r ph ev (app s)") auto
  have conns: "(connections s)[i := x] = pre @ x # post" "without i (connections s) = pre @ post" for x
    using split(2) by (simp_all add: split(1) [unfolded rp] without_def list_update_append)
  show ?thesis
  proof (rule that [OF _ split(2) run])
    show "connections s = pre @ (r, ph) # post" using split(1) rp by simp
  qed (use assms i rp run conns in \<open>auto simp: Let_def split: task_result.splits\<close>)
qed

end
