(* ===== verification/Service_Properties.thy ===== *)
theory Service_Properties
  imports App_Tasks "HOL-Library.Multiset"
begin

text \<open>
  The gateway's application in every interleaving of its requests, pollers and shutdown: what its
  metrics and reservations count, and what it refuses once it drains.
\<close>

section \<open>What the registry's tasks leave alone\<close>

lemma meters_launch: "launch c now k attempt g = (r, h) \<Longrightarrow> meters h = meters g"
  using meters_attempt(1) [of c now k g] by (auto simp del: meters_attempt dest!: launch_spec split: sum.splits)

lemma meters_registry [simp]:
  "meters (s\<lparr>stopping := b\<rparr>) = meters s" "meters (s\<lparr>poller_tasks := ws\<rparr>) = meters s"
  "meters (poll_begin w s) = meters s" "meters (poll_end c w out now s) = meters s"
  "meters (snd (cancel_next ws p s)) = meters s"
proof -
  have flags: "meters (s\<lparr>stopping := b\<rparr>) = meters s" "meters (s\<lparr>poller_tasks := ws\<rparr>) = meters s"
    for s :: "'a registry_scheme" and b ws
    by (simp_all add: meters_def)
  then show "meters (s\<lparr>stopping := b\<rparr>) = meters s" "meters (s\<lparr>poller_tasks := ws\<rparr>) = meters s" by blast+
  show "meters (poll_begin w s) = meters s" "meters (poll_end c w out now s) = meters s"
    by (auto simp: poll_begin_def poll_end_def record_probe_failure_def Let_def
        split: probe_result.splits option.splits)
  show "meters (snd (cancel_next ws p s)) = meters s"
    by (induction ws p s rule: cancel_next.induct) (auto simp: flags)
qed

lemma meters_tasks:
  "poller_resumes wid p s = Some (q, t) \<Longrightarrow> meters t = meters s"
  "probe_returns c wid out now p s = Some (q, t) \<Longrightarrow> meters t = meters s"
  "stop_begins p s = Some (q, t) \<Longrightarrow> meters t = meters s"
  "stop_resumes p s = Some (q, t) \<Longrightarrow> meters t = meters s"
proof -
  have cancel: "meters t = meters s" if "cancel_next ws p s' = (q, t)" "meters s' = meters s" for ws s'
    using meters_registry(5) [of ws p s'] that by simp
  show "poller_resumes wid p s = Some (q, t) \<Longrightarrow> meters t = meters s"
    "probe_returns c wid out now p s = Some (q, t) \<Longrightarrow> meters t = meters s"
    by (auto simp: poller_resumes_def probe_returns_def split: if_splits)
  show "stop_begins p s = Some (q, t) \<Longrightarrow> meters t = meters s"
    using cancel by (auto simp: stop_begins_def split: if_splits)
  show "stop_resumes p s = Some (q, t) \<Longrightarrow> meters t = meters s"
    by (erule stop_resumesE) (use cancel in \<open>auto dest: sym\<close>)
qed

section \<open>The invariant\<close>

text \<open>The worker a request waits for, and whether the middleware has counted it as active.\<close>

fun waits_for :: "http_task \<Rightarrow> pystr list" where
  "waits_for (Predicting start t0 v f) = [fl_worker f]"
| "waits_for ph = []"

fun admitted :: "http_task \<Rightarrow> bool" where
  "admitted ReadingBody \<longleftrightarrow> False"
| "admitted ph \<longleftrightarrow> True"

fun task_ok :: "http_task \<Rightarrow> bool" where
  "task_ok (Predicting start t0 v f) \<longleftrightarrow> flight_ok f"
| "task_ok ph \<longleftrightarrow> True"

definition waiting_calls :: "(http_request \<times> http_task) list \<Rightarrow> pystr list" where
  "waiting_calls conns = concat (map (waits_for \<circ> snd) conns)"

definition active_requests :: "(http_request \<times> http_task) list \<Rightarrow> int" where
  "active_requests conns = int (length (filter (admitted \<circ> snd) conns))"

definition counted :: "(http_request \<times> (exn + http_response)) list \<Rightarrow> nat \<times> string \<Rightarrow> nat" where
  "counted outs label = length (filter (\<lambda>(r, out). snd (settle out) = label) outs)"

definition booked :: "gateway_config \<Rightarrow> pystr list \<Rightarrow> gateway \<Rightarrow> bool" where
  "booked c ws g \<longleftrightarrow> sched_wf g \<and> within_limit c g \<and> ledger reserved g ws"

definition service_inv :: "gateway_config \<Rightarrow> service \<Rightarrow> bool" where
  "service_inv c s \<longleftrightarrow>
     booked c (waiting_calls (connections s)) (app s) \<and> list_all (task_ok \<circ> snd) (connections s) \<and>
     arrived s = length (connections s) + length (turned_away s) + length (settled_requests s) \<and>
     GATEWAY_ACTIVE_REQUESTS (app s) = active_requests (connections s) \<and>
     GATEWAY_REQUESTS_TOTAL (app s) = counted (settled_requests s) \<and>
     length (GATEWAY_REQUEST_DURATION_SECONDS (app s)) = length (settled_requests s)"

text \<open>What a stretch of a request's task does to the reservations and the metrics.\<close>

lemma booked_mset: "booked c ws g \<Longrightarrow> mset ws = mset ws' \<Longrightarrow> booked c ws' g"
  by (simp add: booked_def ledger_def flip: count_mset)

lemma booked_cong:
  assumes "registry_wf h = registry_wf g" "\<And>w. reserved w h = reserved w g"
  shows "booked c ws h = booked c ws g"
  using assms by (simp add: booked_def sched_wf_def within_limit_def ledger_def)

lemma booked_metrics [simp]:
  "booked c ws (add_active k g) = booked c ws g" "booked c ws (count_request d out g) = booked c ws g"
proof -
  let ?h = "count_request d out g"
  have "workers ?h = workers g" "GATEWAY_WORKER_HEALTHY ?h = GATEWAY_WORKER_HEALTHY g"
    by (cases "settle out", simp add: count_request_def obs_defs)+
  then show "booked c ws ?h = booked c ws g"
    by (intro booked_cong) (simp_all add: registry_wf_def reserved_def node_def)
qed (simp add: booked_def within_limit_def ledger_def)

lemma booked_go_on:
  assumes "go_on_to c start t0 v now k attempt g = (ph, h)" "booked c ws g"
    "attempt = 1 \<and> exclude_ids k = {} \<or> attempt = 2 \<and> (\<exists>w. exclude_ids k = {w})"
  shows "booked c (ws @ waits_for ph) h \<and> task_ok ph \<and> admitted ph \<and> meters h = meters g"
proof -
  obtain r h' where l: "launch c now k attempt g = (r, h')" by fastforce
  with assms(1) have [simp]: "h' = h" by (cases r) (auto simp: go_on_to_def)
  from launch_inv [OF l] meters_launch [OF l] assms l show ?thesis
    by (cases r) (auto simp: go_on_to_def booked_def flight_ok_def)
qed

lemma booked_call_ends:
  assumes "call_ends c start t0 v f out now0 now1 t1 g = (ph, h)" "booked c ws g" "flight_ok f" "fl_worker f \<in> set ws"
  shows "booked c (remove1 (fl_worker f) ws @ waits_for ph) h \<and> task_ok ph \<and> admitted ph \<and> meters h = meters g"
proof -
  obtain r u where e: "attempt_end c (fl_attempt f) now0 (fl_call f) (fl_worker f) out g = (r, u)" by fastforce
  then have u: "u = snd (attempt_end c (fl_attempt f) now0 (fl_call f) (fl_worker f) out g)" by simp
  have b: "booked c (remove1 (fl_worker f) ws) u \<and> meters u = meters g"
    unfolding u using assms(2,4) by (auto simp: booked_def sched_wf_attempt_end within_limit_end ledger_attempt_end)
  show ?thesis
  proof (cases r)
    case (Retry x)
    with attempt_end_retry [of c "fl_attempt f" now0 "fl_call f" "fl_worker f" out g x u] e assms(3)
    have "fl_attempt f = 1" "x = {fl_worker f}" by (auto simp: flight_ok_def)
    moreover have "go_on_to c start t0 v now1 ((fl_call f)\<lparr>exclude_ids := x\<rparr>) (Suc (fl_attempt f)) u = (ph, h)"
      using assms(1) e Retry by (simp add: call_ends_def)
    ultimately show ?thesis using booked_go_on [of c start t0 v now1 _ _ u ph h] b by fastforce
  next
    case (Raised x)
    with assms(1) e b show ?thesis by (cases x) (auto simp: call_ends_def)
  qed (use assms(1) e b in \<open>auto simp: call_ends_def\<close>)
qed

definition task_effect :: "http_task \<Rightarrow> task_result \<Rightarrow> gateway \<Rightarrow> gateway \<Rightarrow> bool" where
  "task_effect ph res g h \<longleftrightarrow>
     (case res of
        GoesOn ph' \<Rightarrow> admitted ph' \<and> meters h = (if admitted ph then meters g else meters (add_active 1 g))
      | TurnedAway out \<Rightarrow> \<not> admitted ph \<and> meters h = meters g
      | Settled out \<Rightarrow> admitted ph \<and> (\<exists>d. meters h = meters (count_request d out g)))"

fun result_waits :: "task_result \<Rightarrow> pystr list" where
  "result_waits (GoesOn ph) = waits_for ph"
| "result_waits res = []"

fun result_ok :: "task_result \<Rightarrow> bool" where
  "result_ok (GoesOn ph) \<longleftrightarrow> task_ok ph"
| "result_ok res \<longleftrightarrow> True"

lemma endpoint_runs_inv:
  assumes "endpoint_runs c parse fallback r start uuid t0 now0 now1 g = (ph, h)" "booked c ws g"
  shows "booked c (ws @ waits_for ph) h \<and> task_ok ph \<and> admitted ph \<and> meters h = meters g"
proof (cases "is_predict r")
  case True
  show ?thesis
  proof (cases "validate c uuid (parse (ht_body r))")
    case (Inr v)
    with True assms(1) have "go_on_to c start t0 v now1
        (start_call now0 (v_request_id v) (v_inputs v) (v_model_version v) (v_timeout_ms v)) 1 g = (ph, h)"
      by (simp add: endpoint_runs_def)
    then show ?thesis using assms(2) by (rule booked_go_on) (simp add: start_call_def)
  qed (use True assms in \<open>auto simp: endpoint_runs_def\<close>)
qed (use assms in \<open>auto simp: endpoint_runs_def\<close>)

lemma task_runs_inv:
  assumes "task_runs c parse fallback r ph ev g = Some (res, h)" "booked c ws g" "task_ok ph"
    "mset ws = mset (waits_for ph) + M"
  shows "(\<forall>ws'. mset ws' = mset (result_waits res) + M \<longrightarrow> booked c ws' h) \<and> result_ok res \<and> task_effect ph res g h"
proof -
  have keep: ?thesis if "booked c us h" "mset us = mset (result_waits res) + M" "result_ok res" "task_effect ph res g h" for us
    using that booked_mset [OF that(1)] by simp
  show ?thesis
  proof (cases "(c, parse, fallback, r, ph, ev, g)" rule: task_runs.cases)
    case (4 c' parse' fallback' r' start uuid t0 now0 now1 g')
    then obtain ph' where e: "endpoint_runs c parse fallback r start uuid t0 now0 now1 g = (ph', h)" "res = GoesOn ph'"
      using assms(1) by (cases "endpoint_runs c parse fallback r start uuid t0 now0 now1 g") auto
    show ?thesis
      using endpoint_runs_inv [OF e(1) assms(2)] assms(4) 4 e(2)
      by (intro keep [of "ws @ waits_for ph'"]) (auto simp: task_effect_def)
  next
    case (6 c' parse' fallback' r' start t0 v f out now0 now1 t1 g')
    then obtain ph' where e: "call_ends c start t0 v f out now0 now1 t1 g = (ph', h)" "res = GoesOn ph'"
      using assms(1) by (cases "call_ends c start t0 v f out now0 now1 t1 g") auto
    have "fl_worker f \<in># mset ws" unfolding assms(4) using 6 by simp
    then have "fl_worker f \<in> set ws" by simp
    with booked_call_ends [OF e(1) assms(2)] assms(3,4) 6 e(2) show ?thesis
      by (intro keep [of "remove1 (fl_worker f) ws @ waits_for ph'"]) (auto simp: task_effect_def)
  qed (insert assms, auto simp: task_effect_def split: option.splits elim: booked_mset, (erule booked_mset, simp)+)
qed

lemma counted_snoc: "counted (outs @ [(r, out)]) =
    (counted outs)(snd (settle out) := Suc (counted outs (snd (settle out))))"
  by (auto simp: counted_def fun_eq_iff)

lemma waiting_calls_simps [simp]:
  "waiting_calls [] = []" "waiting_calls (x # conns) = waits_for (snd x) @ waiting_calls conns"
  "waiting_calls (conns @ conns') = waiting_calls conns @ waiting_calls conns'"
  by (simp_all add: waiting_calls_def)

lemma active_requests_simps [simp]:
  "active_requests [] = 0"
  "active_requests (x # conns) = (if admitted (snd x) then 1 else 0) + active_requests conns"
  "active_requests (conns @ conns') = active_requests conns + active_requests conns'"
  by (simp_all add: active_requests_def)

lemma service_inv_task:
  assumes inv: "service_inv c s" and step: "service_step c parse fallback s (Task i ev) = Some t"
  shows "service_inv c t"
  using step
proof (rule service_taskE)
  fix pre r ph post res g
  assume s: "connections s = pre @ (r, ph) # post" and run: "task_runs c parse fallback r ph ev (app s) = Some (res, g)"
    and t: "app t = g" "arrived t = arrived s"
      "(\<exists>ph'. res = GoesOn ph' \<and> connections t = pre @ (r, ph') # post \<and> turned_away t = turned_away s \<and>
          settled_requests t = settled_requests s) \<or>
       (\<exists>out. res = TurnedAway out \<and> connections t = pre @ post \<and> turned_away t = turned_away s @ [(r, out)] \<and>
          settled_requests t = settled_requests s) \<or>
       (\<exists>out. res = Settled out \<and> connections t = pre @ post \<and> turned_away t = turned_away s \<and>
          settled_requests t = settled_requests s @ [(r, out)])"
  have ok: "booked c (waiting_calls (connections s)) (app s)" "task_ok ph"
    "list_all (task_ok \<circ> snd) pre" "list_all (task_ok \<circ> snd) post"
    using inv s by (simp_all add: service_inv_def)
  have "mset (waiting_calls (connections s)) = mset (waits_for ph) + mset (waiting_calls (pre @ post))"
    by (simp add: s)
  from task_runs_inv [OF run ok(1,2) this]
  have b: "mset ws' = mset (result_waits res) + mset (waiting_calls (pre @ post)) \<Longrightarrow> booked c ws' g"
    and res: "result_ok res" "task_effect ph res (app s) g" for ws'
    by blast+
  have m: "GATEWAY_ACTIVE_REQUESTS (app s) = active_requests pre + (if admitted ph then 1 else 0) + active_requests post"
    "GATEWAY_REQUESTS_TOTAL (app s) = counted (settled_requests s)"
    "length (GATEWAY_REQUEST_DURATION_SECONDS (app s)) = length (settled_requests s)"
    "arrived s = Suc (length (pre @ post)) + length (turned_away s) + length (settled_requests s)"
    using inv by (simp_all add: service_inv_def s)
  from t(3) show "service_inv c t"
  proof (elim disjE exE conjE)
    fix ph' assume "res = GoesOn ph'" "connections t = pre @ (r, ph') # post" "turned_away t = turned_away s"
      "settled_requests t = settled_requests s"
    with b [of "waiting_calls (connections t)"] res ok m t(1,2) show ?thesis
      by (auto simp: service_inv_def task_effect_def meters_def add_active_def split: if_splits)
  next
    fix out assume "res = TurnedAway out" "connections t = pre @ post" "turned_away t = turned_away s @ [(r, out)]"
      "settled_requests t = settled_requests s"
    with b [of "waiting_calls (connections t)"] res ok m t(1,2) show ?thesis
      by (auto simp: service_inv_def task_effect_def meters_def)
  next
    fix out assume "res = Settled out" "connections t = pre @ post" "turned_away t = turned_away s"
      "settled_requests t = settled_requests s @ [(r, out)]"
    with b [of "waiting_calls (connections t)"] res ok m t(1,2) show ?thesis
      by (auto simp: service_inv_def task_effect_def meters_def count_request_def obs_defs counted_snoc split_beta
          settle_def)
  qed
qed

lemma service_inv_arrives: "service_inv c s \<Longrightarrow> service_inv c (arrives c r clk s)"
  by (auto simp: service_inv_def arrives_def Let_def add_active_def split: option.split
      dest: booked_metrics(1) [THEN iffD2, of c _ _ 1])

lemma service_inv_tasks:
  assumes "service_inv c s" "with_app_tasks s x = Some t"
    "\<And>q g. x = Some (q, g) \<Longrightarrow> task_step (app s) g \<and> meters g = meters (app s)"
  shows "service_inv c t"
proof -
  obtain q g where t: "t = s\<lparr>app_tasks := q, app := g\<rparr>" and "x = Some (q, g)"
    using assms(2) by (auto simp: with_app_tasks_def)
  with assms(3) have "task_step (app s) g" "meters g = meters (app s)" by blast+
  with assms(1) t show ?thesis
    by (auto simp: service_inv_def task_step_def booked_def sched_wf_def within_limit_def ledger_def meters_def)
qed

lemma service_inv_step: "service_inv c s \<Longrightarrow> service_rel c parse fallback s e t \<Longrightarrow> service_inv c t"
proof (cases e)
  case (Arrives r clk)
  then show "service_inv c s \<Longrightarrow> service_rel c parse fallback s e t \<Longrightarrow> service_inv c t"
    by (auto simp: service_rel_def intro: service_inv_arrives)
next
  case (Task i ev)
  then show "service_inv c s \<Longrightarrow> service_rel c parse fallback s e t \<Longrightarrow> service_inv c t"
    unfolding service_rel_def by (simp only:) (rule service_inv_task)
next
  case ShutdownBegins
  have "task_step (g\<lparr>accepting_requests := False\<rparr>) h \<longleftrightarrow> task_step g h" for g h :: gateway
    by (simp add: task_step_def reserved_def node_def registry_wf_def)
  moreover have "meters (g\<lparr>accepting_requests := False\<rparr>) = meters g" for g :: gateway by (simp add: meters_def)
  ultimately show "service_inv c s \<Longrightarrow> service_rel c parse fallback s e t \<Longrightarrow> service_inv c t"
    using ShutdownBegins
    by (auto simp: service_rel_def elim!: service_inv_tasks dest: task_steps meters_tasks)
qed (auto simp: service_rel_def elim!: service_inv_tasks dest: task_steps meters_tasks)

lemma booked_startup:
  assumes "distinct (map fst (configured_workers c))"
  shows "booked c [] (lifespan_startup (init_gateway c))"
proof -
  have "node w (init_gateway c) = node w (init_sched c)" for w
    by (simp add: init_gateway_def sched.defs node_def)
  then have r: "reserved w (init_gateway c) = 0" and g: "registry_wf (init_gateway c) = registry_wf (init_sched c)" for w
    using reserved_init [of w c] by (simp_all add: reserved_def registry_wf_def) (simp_all add: init_gateway_def sched.defs)
  have "sched_wf (init_gateway c)" using sched_wf_init [OF assms] r g by (simp add: sched_wf_def)
  then have "sched_wf (lifespan_startup (init_gateway c))"
    by (simp add: lifespan_startup_def init_gateway_def sched.defs sched_wf_start)
  moreover have "reserved w (lifespan_startup (init_gateway c)) = 0" for w
    using r [of w] by (simp add: lifespan_startup_def init_gateway_def sched.defs)
  ultimately show ?thesis by (simp add: booked_def within_limit_def ledger_def)
qed

lemma service_inv_init: "serving c s \<Longrightarrow> service_inv c s"
  using booked_startup [of c]
  by (auto simp: serving_def service_inv_def started_service_def Let_def counted_def fun_eq_iff)
    (simp_all add: lifespan_startup_def init_gateway_def sched.defs init_sched_def start_registry_def)

interpretation service_invariant: inductive_invariant "serving c" "service_rel c parse fallback" "service_inv c"
  for c parse fallback
  by unfold_locales (auto intro: service_inv_init service_inv_step)

section \<open>What the application counts\<close>

text \<open>
  C14: The gateway's books are exact in every interleaving of its requests, its pollers and its shutdown. A
  worker's reservations are the requests that wait for it and within the limit; the gauge of active
  requests is the number of requests between the middleware's two ends; the counter under each pair of
  labels is the number of requests that came out of the middleware with them, one duration for each; and
  every request that arrived is still open, was turned away at the door, or was answered, once.
\<close>

theorem service_accounts:
  assumes "reachable (serving c) (service_rel c parse fallback) s"
  shows "reserved w (app s) = int (count_list (waiting_calls (connections s)) w) \<and>
    reserved w (app s) \<le> max 0 (gateway_max_outstanding_per_worker c) \<and>
    GATEWAY_ACTIVE_REQUESTS (app s) = active_requests (connections s) \<and>
    GATEWAY_REQUESTS_TOTAL (app s) label = counted (settled_requests s) label \<and>
    length (GATEWAY_REQUEST_DURATION_SECONDS (app s)) = length (settled_requests s) \<and>
    arrived s = length (connections s) + length (turned_away s) + length (settled_requests s)"
  using service_invariant.holds [OF assms]
  by (auto simp: service_inv_def booked_def within_limit_def dest: ledgerD)

text \<open>What was sent for each request that is over.\<close>

definition sent :: "service \<Rightarrow> (http_request \<times> (exn + http_response)) list" where
  "sent s = turned_away s @ map (apsnd (fst \<circ> settle)) (settled_requests s)"

text \<open>A worker becomes healthy, and a prediction request gets as far as its call.\<close>

definition health_events :: "service_event list" where
  "health_events = [HealthBegins w1, HealthEnds w1 (ProbeResponse (ready_status w1)) 1]"

definition request_events :: "service_event list" where
  "request_events = [Arrives plain_request 0, Task 0 (BodyRead 0), Task 0 (EndpointRuns (str ''u'') 0 2 2)]"

lemma health_run:
  "\<exists>s f h. run_steps (service_step documented_config parse fallback) (started_service documented_config) health_events = Some s
     \<and> connections s = [] \<and> sent s = [] \<and> stopper (app_tasks s) = Serving \<and> accepting_requests (app s) \<and>
     launch documented_config 2 (start_call 2 rid inputs ver 1000) 1 (add_active 1 (app s)) = (Inr f, h) \<and> fl_worker f = w1"
  by (simp add: health_events_def sent_def started_service_def lifespan_startup_def init_gateway_def sched.defs with_app_tasks_def
      concrete_defs)

lemma plain_checks:
  "accepting_requests g \<Longrightarrow> header_check documented_config plain_request g = None"
  "body_check documented_config plain_request = None" "ht_path plain_request = str ''/v1/predict''"
  using plain_not_early early_response_cong [of g "open_gateway True" documented_config plain_request]
  by (auto simp: early_response_def plain_request_def open_gateway_def split: option.splits)

definition plain_validated :: validated where
  "plain_validated = \<lparr>v_request_id = str ''u'', v_inputs = [str ''good''],
     v_model_version = model_version documented_config, v_timeout_ms = 1000\<rparr>"

lemma service_run:
  "\<exists>s f. run_steps (service_step documented_config (\<lambda>_. good_payload) fallback) (started_service documented_config)
       (health_events @ request_events) = Some s \<and>
     connections s = [(plain_request, Predicting 0 0 plain_validated f)] \<and> fl_worker f = w1 \<and> sent s = [] \<and>
     stopper (app_tasks s) = Serving"
proof -
  obtain s f h where s: "run_steps (service_step documented_config (\<lambda>_. good_payload) fallback) (started_service documented_config)
      health_events = Some s" "connections s = []" "sent s = []" "stopper (app_tasks s) = Serving" "accepting_requests (app s)"
    "launch documented_config 2 (start_call 2 (str ''u'') [str ''good''] (model_version documented_config) 1000) 1
       (add_active 1 (app s)) = (Inr f, h)" "fl_worker f = w1"
    using health_run by blast
  then show ?thesis
    by (simp add: run_steps_append request_events_def arrives_def plain_checks plain_is_predict endpoint_runs_def
        good_payload_valid go_on_to_def plain_validated_def sent_def)
qed

theorem service_accounts_witness:
  "\<exists>s. run_steps (service_step documented_config (\<lambda>_. good_payload) (\<lambda>_. health_live)) (started_service documented_config)
       (health_events @ request_events) = Some s \<and> reserved w1 (app s) = 1 \<and> GATEWAY_ACTIVE_REQUESTS (app s) = 1"
proof -
  obtain s where s: "run_steps (service_step documented_config (\<lambda>_. good_payload) (\<lambda>_. health_live))
      (started_service documented_config) (health_events @ request_events) = Some s"
    "waiting_calls (connections s) = [w1]" "active_requests (connections s) = 1"
    using service_run by force
  have "distinct (map fst (configured_workers documented_config))" by (simp add: documented_config_def)
  then have "reachable (serving documented_config) (service_rel documented_config (\<lambda>_. good_payload) (\<lambda>_. health_live)) s"
    by (intro reachable_run [OF _ _ s(1)] reachable_init) (simp_all add: serving_def service_rel_def)
  from service_accounts [OF this, of w1] s show ?thesis by auto
qed

end
