(* ===== verification/Service_Answers.thy ===== *)
theory Service_Answers
  imports Service_Properties
begin

text \<open>
  Whose answer a response is made of: each response the application sends for a prediction request is
  traced to a call that this request made.
\<close>

section \<open>What the responses relay\<close>

text \<open>The request read as \<open>v\<close>, and the message its calls carry.\<close>

definition request_reads :: "gateway_config \<Rightarrow> (nat list \<Rightarrow> json option) \<Rightarrow> http_request \<Rightarrow> validated \<Rightarrow> bool" where
  "request_reads c parse r v \<longleftrightarrow>
     (\<exists>d uuid. parse (ht_body r) = Some (JObj d) \<and> valid_payload c uuid d v)"

definition call_message :: "validated \<Rightarrow> predict_request" where
  "call_message v = \<lparr>rq_request_id = v_request_id v, rq_model_version = v_model_version v, rq_inputs = v_inputs v\<rparr>"

text \<open>
  In a run along \<open>es\<close>, the response is made of the answer to a call this very request was waiting for, a
  call that carried its texts.
\<close>

definition own_answer ::
  "gateway_config \<Rightarrow> (nat list \<Rightarrow> json option) \<Rightarrow> (http_request \<Rightarrow> http_response) \<Rightarrow> service_event list \<Rightarrow>
     http_request \<Rightarrow> http_response \<Rightarrow> bool" where
  "own_answer c parse fallback es r resp \<longleftrightarrow>
     (\<exists>es1 i ans now0 now1 t1 es2 u start t0 v f.
        es = es1 @ Task i (CallEnds (RpcResponse ans) now0 now1 t1) # es2 \<and>
        run_steps (service_step c parse fallback) (started_service c) es1 = Some u \<and>
        i < length (connections u) \<and> connections u ! i = (r, Predicting start t0 v f) \<and>
        request_reads c parse r v \<and> call_request (fl_call f) = call_message v \<and>
        resp = success_response v (make_result (fl_attempt f) (fl_worker f) ans) t0 t1)"

lemma own_answerI:
  assumes "run_steps (service_step c parse fallback) (started_service c) es = Some u" "i < length (connections u)"
    "connections u ! i = (r, Predicting start t0 v f)" "request_reads c parse r v" "call_request (fl_call f) = call_message v"
  shows "own_answer c parse fallback (es @ [Task i (CallEnds (RpcResponse ans) now0 now1 t1)]) r
    (success_response v (make_result (fl_attempt f) (fl_worker f) ans) t0 t1)"
  using assms unfolding own_answer_def by blast

lemma own_answer_mono: "own_answer c parse fallback es r resp \<Longrightarrow> own_answer c parse fallback (es @ [e]) r resp"
  unfolding own_answer_def by (metis append_Cons append_assoc)

text \<open>What holds of a task on the way there; \<open>P\<close> says which success responses are accounted for.\<close>

fun task_own ::
  "gateway_config \<Rightarrow> (nat list \<Rightarrow> json option) \<Rightarrow> (http_response \<Rightarrow> bool) \<Rightarrow> http_request \<Rightarrow> http_task \<Rightarrow> bool" where
  "task_own c parse P r (Predicting start t0 v f) \<longleftrightarrow> request_reads c parse r v \<and> call_request (fl_call f) = call_message v"
| "task_own c parse P r (Handled start (Inr resp)) \<longleftrightarrow> (is_predict r \<longrightarrow> error_shape resp \<or> P resp)"
| "task_own c parse P r ph \<longleftrightarrow> True"

lemma task_own_mono: "task_own c parse P r ph \<Longrightarrow> (\<And>resp. P resp \<Longrightarrow> P' resp) \<Longrightarrow> task_own c parse P' r ph"
  by (cases "(c, parse, P, r, ph)" rule: task_own.cases) auto

lemma task_own_go_on:
  assumes "go_on_to c start t0 v now k attempt g = (ph, h)" "request_reads c parse r v" "call_request k = call_message v"
  shows "task_own c parse P r ph"
  using assms
  by (auto simp: go_on_to_def error_shape_response dest: launch_spec split: prod.splits sum.splits)

lemma validate_request_reads: "validate c uuid (parse (ht_body r)) = Inr v \<Longrightarrow> request_reads c parse r v"
  by (auto simp: request_reads_def validate_Inr)

lemma task_own_endpoint:
  assumes "endpoint_runs c parse fallback r start uuid t0 now0 now1 g = (ph, h)"
  shows "task_own c parse P r ph"
proof (cases "is_predict r")
  case True
  show ?thesis
  proof (cases "validate c uuid (parse (ht_body r))")
    case (Inr v)
    with True assms have "go_on_to c start t0 v now1
        (start_call now0 (v_request_id v) (v_inputs v) (v_model_version v) (v_timeout_ms v)) 1 g = (ph, h)"
      by (simp add: endpoint_runs_def)
    then show ?thesis
      using validate_request_reads [of c uuid parse r v, OF Inr] by (rule task_own_go_on) (simp add: start_call_def call_message_def)
  qed (use True assms in \<open>auto simp: endpoint_runs_def\<close>)
qed (use assms in \<open>auto simp: endpoint_runs_def\<close>)

lemma task_own_call_ends:
  assumes "call_ends c start t0 v f out now0 now1 t1 g = (ph, h)" "request_reads c parse r v" "call_request (fl_call f) = call_message v"
    "\<And>ans. out = RpcResponse ans \<Longrightarrow> P (success_response v (make_result (fl_attempt f) (fl_worker f) ans) t0 t1)"
  shows "task_own c parse P r ph"
proof -
  obtain res u where e: "attempt_end c (fl_attempt f) now0 (fl_call f) (fl_worker f) out g = (res, u)" by fastforce
  show ?thesis
  proof (cases res)
    case (Returned x)
    with e obtain ans where "out = RpcResponse ans" "x = make_result (fl_attempt f) (fl_worker f) ans"
      by (auto simp: attempt_end_response)
    with assms(1,4) e Returned show ?thesis by (auto simp: call_ends_def)
  next
    case (Raised x)
    with assms(1) e show ?thesis by (cases x) (auto simp: call_ends_def error_shape_response)
  next
    case (Retry x)
    then have "go_on_to c start t0 v now1 ((fl_call f)\<lparr>exclude_ids := x\<rparr>) (Suc (fl_attempt f)) u = (ph, h)"
      using assms(1) e by (simp add: call_ends_def)
    then show ?thesis by (rule task_own_go_on) (use assms(2,3) in simp_all)
  qed
qed

lemma body_check_shape: "body_check c r = Some (Inr resp) \<Longrightarrow> error_shape resp"
  by (auto simp: body_check_def error_shape_response split: if_splits)

lemma header_check_shape: "header_check c r g = Some (Inr resp) \<Longrightarrow> error_shape resp"
  by (auto simp: header_check_def error_shape_response split: if_splits option.splits)

definition result_own ::
  "gateway_config \<Rightarrow> (nat list \<Rightarrow> json option) \<Rightarrow> (http_response \<Rightarrow> bool) \<Rightarrow> http_request \<Rightarrow> task_result \<Rightarrow> bool" where
  "result_own c parse P r res \<longleftrightarrow>
     (case res of
        GoesOn ph \<Rightarrow> task_own c parse P r ph
      | TurnedAway out \<Rightarrow> (\<forall>resp. out = Inr resp \<longrightarrow> error_shape resp)
      | Settled out \<Rightarrow> (\<forall>resp. is_predict r \<and> fst (settle out) = Inr resp \<longrightarrow> error_shape resp \<or> P resp))"

lemma task_own_runs:
  assumes "task_runs c parse fallback r ph ev g = Some (res, h)" "task_own c parse P r ph"
    "\<And>start t0 v f ans now0 now1 t1. ph = Predicting start t0 v f \<Longrightarrow> ev = CallEnds (RpcResponse ans) now0 now1 t1 \<Longrightarrow>
       P (success_response v (make_result (fl_attempt f) (fl_worker f) ans) t0 t1)"
  shows "result_own c parse P r res"
proof (cases "(c, parse, fallback, r, ph, ev, g)" rule: task_runs.cases)
  case (4 c' parse' fallback' r' start uuid t0 now0 now1 g')
  with assms(1) show ?thesis
    by (cases "endpoint_runs c parse fallback r start uuid t0 now0 now1 g")
      (auto simp: result_own_def intro: task_own_endpoint)
next
  case (6 c' parse' fallback' r' start t0 v f out now0 now1 t1 g')
  obtain ph' h' where e: "call_ends c start t0 v f out now0 now1 t1 g = (ph', h')" by fastforce
  have "task_own c parse P r ph'"
    by (rule task_own_call_ends [OF e]) (use assms(2,3) 6 in auto)
  then show ?thesis using assms(1) 6 e by (auto simp: result_own_def)
next
  case (8 c' parse' fallback' r' start out clk g')
  have "error_shape resp" if "fst (settle (Inl e)) = Inr resp" for e resp
    using error_shape_settle [of e resp] that by (cases "settle (Inl e)") auto
  with 8 assms(1,2) show ?thesis by (cases out) (auto simp: result_own_def)
qed (use assms(1) in \<open>auto simp: result_own_def split: option.splits dest: body_check_shape\<close>)

definition conn_own ::
  "gateway_config \<Rightarrow> (nat list \<Rightarrow> json option) \<Rightarrow> (http_request \<Rightarrow> http_response \<Rightarrow> bool) \<Rightarrow>
     http_request \<times> http_task \<Rightarrow> bool" where
  "conn_own c parse P x \<longleftrightarrow> task_own c parse (P (fst x)) (fst x) (snd x)"

definition sent_own :: "(http_request \<Rightarrow> http_response \<Rightarrow> bool) \<Rightarrow> http_request \<times> (exn + http_response) \<Rightarrow> bool" where
  "sent_own P x \<longleftrightarrow> (\<forall>resp. is_predict (fst x) \<and> snd x = Inr resp \<longrightarrow> error_shape resp \<or> P (fst x) resp)"

definition run_own ::
  "gateway_config \<Rightarrow> (nat list \<Rightarrow> json option) \<Rightarrow> (http_request \<Rightarrow> http_response \<Rightarrow> bool) \<Rightarrow> service \<Rightarrow> bool" where
  "run_own c parse P s \<longleftrightarrow> list_all (conn_own c parse P) (connections s) \<and> list_all (sent_own P) (sent s)"

lemma run_own_mono:
  assumes "run_own c parse P s" "\<And>r resp. P r resp \<Longrightarrow> P' r resp"
  shows "run_own c parse P' s"
proof -
  have "conn_own c parse P x \<Longrightarrow> conn_own c parse P' x" "sent_own P y \<Longrightarrow> sent_own P' y" for x y
    using assms(2) task_own_mono [of c parse "P (fst x)" "fst x" "snd x" "P' (fst x)"]
    by (auto simp: conn_own_def sent_own_def)
  with assms(1) show ?thesis unfolding run_own_def by (blast intro: list.pred_mono_strong)
qed

lemma run_own_task:
  assumes own: "run_own c parse P s" and step: "service_step c parse fallback s (Task i ev) = Some t"
    and new: "\<And>r start t0 v f ans now0 now1 t1. i < length (connections s) \<Longrightarrow>
      connections s ! i = (r, Predicting start t0 v f) \<Longrightarrow> ev = CallEnds (RpcResponse ans) now0 now1 t1 \<Longrightarrow>
      request_reads c parse r v \<Longrightarrow> call_request (fl_call f) = call_message v \<Longrightarrow>
      P r (success_response v (make_result (fl_attempt f) (fl_worker f) ans) t0 t1)"
  shows "run_own c parse P t"
  using step
proof (rule service_taskE)
  fix pre r ph post res g
  assume s: "connections s = pre @ (r, ph) # post" "length pre = i"
    and run: "task_runs c parse fallback r ph ev (app s) = Some (res, g)"
    and t: "(\<exists>ph'. res = GoesOn ph' \<and> connections t = pre @ (r, ph') # post \<and> turned_away t = turned_away s \<and>
          settled_requests t = settled_requests s) \<or>
       (\<exists>out. res = TurnedAway out \<and> connections t = pre @ post \<and> turned_away t = turned_away s @ [(r, out)] \<and>
          settled_requests t = settled_requests s) \<or>
       (\<exists>out. res = Settled out \<and> connections t = pre @ post \<and> turned_away t = turned_away s \<and>
          settled_requests t = settled_requests s @ [(r, out)])"
  have ph: "task_own c parse (P r) r ph" using own s by (simp add: run_own_def conn_own_def)
  have at: "i < length (connections s)" "connections s ! i = (r, ph)" using s by (auto simp: nth_append)
  have "result_own c parse (P r) r res"
    by (rule task_own_runs [OF run ph]) (use new at ph in auto)
  with t own s show ?thesis
    by (auto simp: run_own_def result_own_def sent_def conn_own_def sent_own_def)
qed

lemma run_own_arrives: "run_own c parse P s \<Longrightarrow> run_own c parse P (arrives c r clk s)"
  by (auto simp: run_own_def arrives_def sent_def conn_own_def sent_own_def Let_def dest: header_check_shape split: option.splits)

lemma run_own_step:
  assumes "service_step c parse fallback s e = Some t" "run_own c parse P s" "\<nexists>i ev. e = Task i ev"
  shows "run_own c parse P t"
proof (cases e)
  case (Arrives r clk)
  with assms(1,2) run_own_arrives show ?thesis by auto
qed (use assms in \<open>auto simp: with_app_tasks_def run_own_def sent_def\<close>)

lemma run_own_run:
  "run_steps (service_step c parse fallback) (started_service c) es = Some t \<Longrightarrow>
     run_own c parse (own_answer c parse fallback es) t"
proof (induction es arbitrary: t rule: rev_induct)
  case Nil
  then show ?case by (auto simp: run_own_def started_service_def Let_def sent_def)
next
  case (snoc e es)
  then obtain s where s: "run_steps (service_step c parse fallback) (started_service c) es = Some s"
    "service_step c parse fallback s e = Some t"
    by (auto simp: run_steps_append bind_eq_Some_conv split: option.splits)
  have own: "run_own c parse (own_answer c parse fallback (es @ [e])) s"
    using snoc.IH [OF s(1)] by (rule run_own_mono) (rule own_answer_mono)
  show ?case
  proof (cases "\<exists>i ev. e = Task i ev")
    case True
    then obtain i ev where e: "e = Task i ev" by blast
    from own s(2) [unfolded e] show ?thesis
      unfolding e by (rule run_own_task) (use s(1) own_answerI in blast)
  qed (use own s(2) run_own_step in blast)
qed

text \<open>
  C15: Whatever is served at the same time, each response belongs to its own request. What the application
  has sent for a prediction request is an error whose status is its code's, or a 200 made of the answer of
  a worker to a call that this request was waiting for and that carried exactly its texts, under its
  resolved id.
\<close>

theorem responses_are_own:
  assumes "run_steps (service_step c parse fallback) (started_service c) es = Some t"
    "(r, Inr resp) \<in> set (sent t)" "is_predict r"
  shows "error_shape resp \<or> own_answer c parse fallback es r resp"
  using run_own_run [OF assms(1)] assms(2,3) by (auto simp: run_own_def sent_own_def list_all_iff)

definition answer_events :: "predict_response \<Rightarrow> service_event list" where
  "answer_events ans = [Task 0 (CallEnds (RpcResponse ans) 2 2 1), Task 0 (MiddlewareEnds 1)]"

lemma answered_request_run:
  "\<exists>t resp. run_steps (service_step documented_config (\<lambda>_. good_payload) fallback) (started_service documented_config)
       ((health_events @ request_events) @ answer_events ans) = Some t \<and> sent t = [(plain_request, Inr resp)] \<and>
     hr_status resp = 200"
proof -
  obtain s f where s: "run_steps (service_step documented_config (\<lambda>_. good_payload) fallback) (started_service documented_config)
      (health_events @ request_events) = Some s" "connections s = [(plain_request, Predicting 0 0 plain_validated f)]"
    "sent s = []"
    using service_run by blast
  have "run_steps (service_step documented_config (\<lambda>_. good_payload) fallback) (started_service documented_config)
      ((health_events @ request_events) @ answer_events ans) =
    run_steps (service_step documented_config (\<lambda>_. good_payload) fallback) s (answer_events ans)"
    by (subst run_steps_append) (simp add: s(1))
  also have "\<exists>t resp. \<dots> = Some t \<and> sent t = [(plain_request, Inr resp)] \<and> hr_status resp = 200"
    using s(2,3) by (simp add: answer_events_def call_ends_def attempt_end_def handle_outcome_def sent_def without_def
        success_response_def)
  finally show ?thesis .
qed

theorem responses_are_own_witness:
  "\<exists>t resp. run_steps (service_step documented_config (\<lambda>_. good_payload) (\<lambda>_. health_live)) (started_service documented_config)
       ((health_events @ request_events) @ answer_events answer) = Some t \<and> sent t = [(plain_request, Inr resp)] \<and>
     own_answer documented_config (\<lambda>_. good_payload) (\<lambda>_. health_live)
       ((health_events @ request_events) @ answer_events answer) plain_request resp"
proof -
  obtain t resp where t: "run_steps (service_step documented_config (\<lambda>_. good_payload) (\<lambda>_. health_live))
      (started_service documented_config) ((health_events @ request_events) @ answer_events answer) = Some t"
    "sent t = [(plain_request, Inr resp)]" "hr_status resp = 200"
    using answered_request_run by blast
  then have "\<not> error_shape resp" by (simp add: error_shape_def)
  with responses_are_own [OF t(1) _ plain_is_predict, of resp] t show ?thesis by auto
qed

end
