(* ===== verification/Service_Workers.thy ===== *)
theory Service_Workers
  imports Service_Answers Worker_Properties
begin

text \<open>
  The gateway's application and the worker processes together: any number of requests on one side, any
  number of processes, each batching the calls it gets, on the other.
\<close>

text \<open>
  Every answer a request of the run \<open>es\<close> gets is a reply of some worker process running \<open>FakeModel\<close> to the
  message of the call the request was waiting for.
\<close>

definition answered_by_workers ::
  "gateway_config \<Rightarrow> (nat list \<Rightarrow> json option) \<Rightarrow> (http_request \<Rightarrow> http_response) \<Rightarrow> service_event list \<Rightarrow> bool" where
  "answered_by_workers c parse fallback es \<longleftrightarrow>
     (\<forall>es1 i ans now0 now1 t1 es2 u r start t0 v f.
        es = es1 @ Task i (CallEnds (RpcResponse ans) now0 now1 t1) # es2 \<and>
        run_steps (service_step c parse fallback) (started_service c) es1 = Some u \<and>
        i < length (connections u) \<and> connections u ! i = (r, Predicting start t0 v f) \<longrightarrow>
        (\<exists>wc p. reachable (fresh_process wc) (process_rel wc fake_predict_batch) p \<and>
           (call_request (fl_call f), RpcResponse ans) \<in> set (replies p)))"

lemma worker_reply:
  assumes "reachable (fresh_process wc) (process_rel wc fake_predict_batch) p" "(rq, RpcResponse ans) \<in> set (replies p)"
  shows "rs_predictions ans = map fake_row (rq_inputs rq)"
  using worker_process.holds [OF assms(1)] assms(2)
  by (fastforce simp: process_ok_def reply_ok_def list_all_iff)

text \<open>
  C13: End to end, with everything concurrent. Whatever requests, probes, batches, failures and shutdowns are
  interleaved in the gateway and in the workers, a 200 response to a prediction request holds exactly the
  model's predictions for the texts of that request's own body, in order, under its own id.
\<close>

theorem end_to_end_service:
  assumes "run_steps (service_step c parse fallback) (started_service c) es = Some t"
    "answered_by_workers c parse fallback es" "(r, Inr resp) \<in> set (sent t)" "is_predict r" "hr_status resp = 200"
  shows "\<exists>v pc. request_reads c parse r v \<and> hr_content resp = PredictContent pc \<and>
    pc_request_id pc = v_request_id v \<and> pc_model_version pc = v_model_version v \<and>
    pc_predictions pc = map fake_row (v_inputs v)"
proof -
  have "\<not> error_shape resp" using assms(5) by (simp add: error_shape_def)
  then have "own_answer c parse fallback es r resp"
    using run_own_run [OF assms(1)] assms(3,4) by (auto simp: run_own_def sent_own_def list_all_iff)
  then obtain es1 i ans now0 now1 t1 es2 u start t0 v f where run:
    "es = es1 @ Task i (CallEnds (RpcResponse ans) now0 now1 t1) # es2"
    "run_steps (service_step c parse fallback) (started_service c) es1 = Some u"
    "i < length (connections u)" "connections u ! i = (r, Predicting start t0 v f)"
    and own: "request_reads c parse r v" "call_request (fl_call f) = call_message v"
      "resp = success_response v (make_result (fl_attempt f) (fl_worker f) ans) t0 t1"
    unfolding own_answer_def by blast
  obtain wc p where "reachable (fresh_process wc) (process_rel wc fake_predict_batch) p"
    "(call_message v, RpcResponse ans) \<in> set (replies p)"
    using assms(2) run own(2) unfolding answered_by_workers_def by metis
  then have "rs_predictions ans = map fake_row (v_inputs v)"
    by (auto simp: call_message_def dest: worker_reply)
  with own(1,3) show ?thesis by (auto simp: success_response_def make_result_def)
qed

text \<open>One request, served by the worker process of the run \<open>served_call\<close>.\<close>

lemma plain_message: "call_message plain_validated = good_request"
  by (simp add: call_message_def plain_validated_def good_request_def documented_config_def)

lemma answered_once:
  assumes p: "reachable (fresh_process wc) (process_rel wc fake_predict_batch) p" "(good_request, RpcResponse ans) \<in> set (replies p)"
  shows "answered_by_workers documented_config (\<lambda>_. good_payload) fallback ((health_events @ request_events) @ answer_events ans)"
proof -
  obtain s f where s: "run_steps (service_step documented_config (\<lambda>_. good_payload) fallback) (started_service documented_config)
      (health_events @ request_events) = Some s" "connections s = [(plain_request, Predicting 0 0 plain_validated f)]"
    using service_run by blast
  have f: "call_request (fl_call f) = good_request"
    using run_own_run [OF s(1)] s(2) by (simp add: run_own_def conn_own_def plain_message)
  have split: "es1 = health_events @ request_events \<and> i = 0 \<and> ans' = ans"
    if "(health_events @ request_events) @ answer_events ans = es1 @ Task i (CallEnds (RpcResponse ans') now0 now1 t1) # es2"
    for es1 es2 i ans' now0 now1 t1
    using that by (auto simp: health_events_def request_events_def answer_events_def Cons_eq_append_conv)
  show ?thesis
    unfolding answered_by_workers_def
  proof (intro allI impI, elim conjE)
    fix es1 i ans' now0 now1 t1 es2 u r start t0 v f'
    assume "(health_events @ request_events) @ answer_events ans = es1 @ Task i (CallEnds (RpcResponse ans') now0 now1 t1) # es2"
      and u: "run_steps (service_step documented_config (\<lambda>_. good_payload) fallback) (started_service documented_config) es1 = Some u"
      "connections u ! i = (r, Predicting start t0 v f')"
    from split [OF this(1)] u s f p
    show "\<exists>wc p. reachable (fresh_process wc) (process_rel wc fake_predict_batch) p \<and>
        (call_request (fl_call f'), RpcResponse ans') \<in> set (replies p)" by auto
  qed
qed

theorem end_to_end_service_witness:
  "\<exists>es t resp pc. run_steps (service_step documented_config (\<lambda>_. good_payload) (\<lambda>_. health_live))
       (started_service documented_config) es = Some t \<and> sent t = [(plain_request, Inr resp)] \<and>
     hr_content resp = PredictContent pc \<and> pc_predictions pc = [(str ''positive'', 95 / 100)]"
proof -
  obtain p ans where p: "reachable (fresh_process documented_worker_config)
      (process_rel documented_worker_config fake_predict_batch) p"
    "replies p = [(good_request, RpcResponse ans)]"
    using served_reachable by blast
  obtain t resp where t: "run_steps (service_step documented_config (\<lambda>_. good_payload) (\<lambda>_. health_live))
      (started_service documented_config) ((health_events @ request_events) @ answer_events ans) = Some t"
    "sent t = [(plain_request, Inr resp)]" "hr_status resp = 200"
    using answered_request_run by blast
  have a: "answered_by_workers documented_config (\<lambda>_. good_payload) (\<lambda>_. health_live)
      ((health_events @ request_events) @ answer_events ans)"
    by (rule answered_once [OF p(1)]) (simp add: p(2))
  obtain v pc where r: "request_reads documented_config (\<lambda>_. good_payload) plain_request v" "hr_content resp = PredictContent pc"
    "pc_predictions pc = map fake_row (v_inputs v)"
    using end_to_end_service [OF t(1) a _ plain_is_predict t(3)] t(2) by auto
  have "v_inputs v = [str ''good'']"
    using r(1) by (auto simp: request_reads_def good_payload_def valid_payload_def inputs_accepted_def inj_map_eq_map)
  then have "pc_predictions pc = [(str ''positive'', 95 / 100)]"
    using r(3) by (simp add: fake_row_def label_of_def str_def Let_def)
  with t r(2) show ?thesis by blast
qed

end
