(* ===== verification/Service_Alone.thy ===== *)
theory Service_Alone
  imports Service_Properties
begin

text \<open>
  A request's task that no other task interrupts does what \<open>handle_request\<close> does, the function the properties
  of a single request are stated on.
\<close>

section \<open>A request alone\<close>

text \<open>What the awaits of a task that is alone give it, read off the environment of \<open>handle_request\<close>.\<close>

fun next_event :: "gateway request_env \<Rightarrow> (nat \<Rightarrow> pyfloat) \<Rightarrow> http_task \<Rightarrow> task_event" where
  "next_event env clock ReadingBody = BodyRead (clock 0)"
| "next_event env clock (Handed start) =
     EndpointRuns (re_uuid env) (re_perf env 0) (re_loop_time env) (env_begin (re_attempts env 1))"
| "next_event env clock (Predicting start t0 v f) =
     (let a = re_attempts env (fl_attempt f) in
      CallEnds (env_rpc a (fl_worker f) (gateway_deadline (fl_call f) - env_begin a)) (env_end a)
        (env_begin (re_attempts env (Suc (fl_attempt f)))) (re_perf env 1))"
| "next_event env clock (Handled start out) = MiddlewareEnds (clock 1)"

text \<open>The first connection's task, run until it is over or the fuel is.\<close>

fun serve_alone ::
  "gateway_config \<Rightarrow> (http_request \<Rightarrow> http_response) \<Rightarrow> gateway request_env \<Rightarrow> (nat \<Rightarrow> pyfloat) \<Rightarrow> nat \<Rightarrow> service \<Rightarrow>
     service" where
  "serve_alone c fallback env clock 0 s = s"
| "serve_alone c fallback env clock (Suc n) s =
     (case connections s of
        [] \<Rightarrow> s
      | (r, ph) # rest \<Rightarrow>
          (case service_step c (re_json env) fallback s (Task 0 (next_event env clock ph)) of
             None \<Rightarrow> s
           | Some t \<Rightarrow> serve_alone c fallback env clock n t))"

lemma serve_alone_over [simp]: "connections s = [] \<Longrightarrow> serve_alone c fallback env clock n s = s"
  by (cases n) simp_all

text \<open>The state of a service that has only this request's task, and how it ends.\<close>

definition alone_at :: "service \<Rightarrow> http_request \<Rightarrow> http_task \<Rightarrow> gateway \<Rightarrow> service" where
  "alone_at s r ph g = s\<lparr>app := g, connections := [(r, ph)]\<rparr>"

definition alone_over :: "service \<Rightarrow> http_request \<Rightarrow> exn + http_response \<Rightarrow> gateway \<Rightarrow> service" where
  "alone_over s r out g = s\<lparr>app := g, connections := [], settled_requests := settled_requests s @ [(r, out)]\<rparr>"

lemma serve_alone_step:
  assumes "task_runs c (re_json env) fallback r ph (next_event env clock ph) g = Some (GoesOn ph', h)"
  shows "serve_alone c fallback env clock (Suc n) (alone_at s r ph g) =
    serve_alone c fallback env clock n (alone_at s r ph' h)"
  using assms by (simp add: alone_at_def)

lemma serve_alone_handled:
  "serve_alone c fallback env clock (Suc n) (alone_at s r (Handled (clock 0) out) g) =
     alone_over s r out (count_request (clock 1 - clock 0) out g)"
  by (simp add: alone_at_def alone_over_def without_def)

text \<open>What the endpoint makes of a prediction's result.\<close>

definition endpoint_outcome ::
  "gateway request_env \<Rightarrow> validated \<Rightarrow> (exn + prediction_result) \<times> gateway \<Rightarrow> (exn + http_response) \<times> gateway" where
  "endpoint_outcome env v x =
     (case x of
        (Inl (App e), t) \<Rightarrow> (Inr (error_response (v_request_id v) e), t)
      | (Inl e, t) \<Rightarrow> (Inl e, t)
      | (Inr res, t) \<Rightarrow> (Inr (success_response v res (re_perf env 0) (re_perf env 1)), t))"

definition finished :: "(nat \<Rightarrow> pyfloat) \<Rightarrow> service \<Rightarrow> http_request \<Rightarrow> (exn + http_response) \<times> gateway \<Rightarrow> service" where
  "finished clock s r x = alone_over s r (fst x) (count_request (clock 1 - clock 0) (fst x) (snd x))"

lemma serve_alone_handled_endpoint:
  "endpoint_outcome env v x = (out, g) \<Longrightarrow>
     serve_alone c fallback env clock (Suc n) (alone_at s r (Handled (clock 0) out) g) =
       finished clock s r (endpoint_outcome env v x)"
  by (simp only: serve_alone_handled finished_def fst_conv snd_conv)

text \<open>One attempt; the next one, after a retry, is a hypothesis.\<close>

lemma serve_alone_attempt:
  assumes quiet: "\<And>i g. env_during (re_attempts env i) g = g"
    and ph: "go_on_to c (clock 0) (re_perf env 0) v (env_begin (re_attempts env a)) k a g = (ph, h)"
    and retry: "\<And>x u ph' h'. a = 1 \<Longrightarrow>
      go_on_to c (clock 0) (re_perf env 0) v (env_begin (re_attempts env 2)) (k\<lparr>exclude_ids := x\<rparr>) 2 u = (ph', h') \<Longrightarrow>
      serve_alone c fallback env clock (Suc n) (alone_at s r ph' h') =
        finished clock s r (endpoint_outcome env v (run_attempts c (re_attempts env) (k\<lparr>exclude_ids := x\<rparr>) rest u))"
  shows "serve_alone c fallback env clock (Suc (Suc n)) (alone_at s r ph h) =
    finished clock s r (endpoint_outcome env v (run_attempts c (re_attempts env) k (a # rest) g))"
proof -
  let ?A = "re_attempts env a"
  let ?P = "Predicting (clock 0) (re_perf env 0) v"
  obtain b h' where beg: "attempt_begin c (env_begin ?A) k g = (b, h')" by fastforce
  show ?thesis
  proof (cases b)
    case (Inl e)
    with ph beg have p: "ph = Handled (clock 0) (Inr (error_response (v_request_id v) e))" "h = h'"
      by (auto simp: go_on_to_def launch_def)
    show ?thesis
      unfolding p by (rule serve_alone_handled_endpoint) (simp add: endpoint_outcome_def beg Inl)
  next
    case (Inr wr)
    obtain w remaining where wr: "wr = (w, remaining)" by (cases wr)
    define f where "f = \<lparr>fl_call = k, fl_attempt = a, fl_worker = w\<rparr>"
    have p: "ph = ?P f" "h = h'" using ph beg Inr wr by (auto simp: go_on_to_def launch_def f_def)
    have "remaining = gateway_deadline k - env_begin ?A"
      using beg [unfolded Inr wr] by (rule attempt_beginE) simp
    then have ev: "next_event env clock (?P f) =
        CallEnds (env_rpc ?A w remaining) (env_end ?A) (env_begin (re_attempts env (Suc a))) (re_perf env 1)"
      by (simp add: f_def Let_def)
    obtain res u where e: "attempt_end c a (env_end ?A) k w (env_rpc ?A w remaining) h' = (res, u)" by fastforce
    obtain ph' h2 where ce: "call_ends c (clock 0) (re_perf env 0) v f (env_rpc ?A w remaining) (env_end ?A)
        (env_begin (re_attempts env (Suc a))) (re_perf env 1) h' = (ph', h2)" by fastforce
    have "task_runs c (re_json env) fallback r (?P f) (next_event env clock (?P f)) h' = Some (GoesOn ph', h2)"
      by (simp only: ev task_runs.simps ce apfst_conv)
    from serve_alone_step [OF this]
    have step: "serve_alone c fallback env clock (Suc (Suc n)) (alone_at s r ph h) =
        serve_alone c fallback env clock (Suc n) (alone_at s r ph' h2)" by (simp only: p)
    have run: "run_attempts c (re_attempts env) k (a # rest) g =
        (case res of Returned x \<Rightarrow> (Inr x, u) | Raised x \<Rightarrow> (Inl x, u)
         | Retry x \<Rightarrow> run_attempts c (re_attempts env) (k\<lparr>exclude_ids := x\<rparr>) rest u)"
      using beg Inr wr e by (simp add: quiet split: attempt_result.split)
    show ?thesis
    proof (cases res)
      case (Returned x)
      with ce e have p': "ph' = Handled (clock 0) (Inr (success_response v x (re_perf env 0) (re_perf env 1)))" "h2 = u"
        by (auto simp: call_ends_def f_def)
      have "endpoint_outcome env v (run_attempts c (re_attempts env) k (a # rest) g) =
          (Inr (success_response v x (re_perf env 0) (re_perf env 1)), u)"
        unfolding run by (simp add: Returned endpoint_outcome_def)
      then show ?thesis unfolding step p' by (rule serve_alone_handled_endpoint)
    next
      case (Raised x)
      then obtain out where p': "ph' = Handled (clock 0) out" "h2 = u"
        "endpoint_outcome env v (run_attempts c (re_attempts env) k (a # rest) g) = (out, u)"
        using ce e run by (cases x) (auto simp: call_ends_def f_def endpoint_outcome_def)
      show ?thesis unfolding step p'(1,2) by (rule serve_alone_handled_endpoint) (rule p'(3))
    next
      case (Retry x)
      have "a = 1" using attempt_end_retry [OF e [unfolded Retry]] by simp
      moreover have "go_on_to c (clock 0) (re_perf env 0) v (env_begin (re_attempts env 2)) (k\<lparr>exclude_ids := x\<rparr>) 2 u = (ph', h2)"
        using ce e Retry \<open>a = 1\<close> by (simp add: call_ends_def f_def numeral_2_eq_2)
      ultimately show ?thesis unfolding step run Retry attempt_result.case by (rule retry)
    qed
  qed
qed

lemma serve_alone_attempts:
  assumes quiet: "\<And>i g. env_during (re_attempts env i) g = g"
    and ph: "go_on_to c (clock 0) (re_perf env 0) v (env_begin (re_attempts env 1)) k 1 g = (ph, h)"
  shows "serve_alone c fallback env clock (Suc (Suc (Suc m))) (alone_at s r ph h) =
    finished clock s r (endpoint_outcome env v (run_attempts c (re_attempts env) k [1, 2] g))"
proof (rule serve_alone_attempt [where env = env and clock = clock and a = 1, OF _ ph])
    fix x u ph' h'
    assume "go_on_to c (clock 0) (re_perf env 0) v (env_begin (re_attempts env 2)) (k\<lparr>exclude_ids := x\<rparr>) 2 u = (ph', h')"
    from serve_alone_attempt [where env = env and clock = clock and a = 2, OF _ this, of fallback m s r "[]"] quiet
    show "serve_alone c fallback env clock (Suc (Suc m)) (alone_at s r ph' h') =
        finished clock s r (endpoint_outcome env v (run_attempts c (re_attempts env) (k\<lparr>exclude_ids := x\<rparr>) [2] u))"
      by simp
qed (rule quiet)

lemma predict_endpoint_outcome:
  "validate c (re_uuid env) (re_json env body) = Inr v \<Longrightarrow>
     predict_endpoint c env body g = endpoint_outcome env v
       (predict c (re_attempts env) (re_loop_time env) (v_request_id v) (v_inputs v) (v_model_version v) (v_timeout_ms v) g)"
  by (simp add: predict_endpoint_def endpoint_outcome_def split: prod.split sum.split exn.split)

lemma serve_alone_handed:
  assumes quiet: "\<And>i g. env_during (re_attempts env i) g = g"
  shows "serve_alone c fallback env clock (Suc (Suc (Suc (Suc m)))) (alone_at s r (Handed (clock 0)) g) =
    finished clock s r (dispatch c env fallback r g)"
proof -
  obtain ph h where e: "endpoint_runs c (re_json env) fallback r (clock 0) (re_uuid env) (re_perf env 0) (re_loop_time env)
      (env_begin (re_attempts env 1)) g = (ph, h)" by fastforce
  have "serve_alone c fallback env clock (Suc (Suc (Suc (Suc m)))) (alone_at s r (Handed (clock 0)) g) =
      serve_alone c fallback env clock (Suc (Suc (Suc m))) (alone_at s r ph h)"
    by (rule serve_alone_step) (simp only: next_event.simps task_runs.simps e apfst_conv)
  also have "\<dots> = finished clock s r (dispatch c env fallback r g)"
  proof (cases "\<exists>v. is_predict r \<and> validate c (re_uuid env) (re_json env (ht_body r)) = Inr v")
    case True
    then obtain v where v: "is_predict r" "validate c (re_uuid env) (re_json env (ht_body r)) = Inr v" by blast
    with e have "go_on_to c (clock 0) (re_perf env 0) v (env_begin (re_attempts env 1))
        (start_call (re_loop_time env) (v_request_id v) (v_inputs v) (v_model_version v) (v_timeout_ms v)) 1 g = (ph, h)"
      by (simp add: endpoint_runs_def)
    from serve_alone_attempts [where clock = clock, OF quiet this] show ?thesis
      using v by (simp only: dispatch_predict predict_endpoint_outcome predict_def)
  next
    case False
    then have p: "ph = Handled (clock 0) (fst (dispatch c env fallback r g))" "h = snd (dispatch c env fallback r g)"
      using e by (auto simp: endpoint_runs_def dispatch_def predict_endpoint_def split: sum.splits if_splits)
    show ?thesis
      unfolding p by (simp only: serve_alone_handled finished_def)
  qed
  finally show ?thesis .
qed

lemma middleware_admits:
  "early_response c r g = None \<Longrightarrow> middleware c call_next clock r g =
     (fst (settle (fst (call_next (add_active 1 g)))),
      count_request (clock 1 - clock 0) (fst (call_next (add_active 1 g))) (snd (call_next (add_active 1 g))))"
  by (simp add: middleware_def count_request_def split_beta Let_def)

lemma finished_sel:
  "connections (finished clock s r x) = []" "app (finished clock s r x) = count_request (clock 1 - clock 0) (fst x) (snd x)"
  "mset (sent (finished clock s r x)) = add_mset (r, fst (settle (fst x))) (mset (sent s))"
  by (simp_all add: finished_def alone_over_def sent_def)

text \<open>
  The refinement: five steps of the task, left alone, give the response and the state of \<open>handle_request\<close>, and
  nothing else is sent.
\<close>

lemma alone_is_handle_request:
  assumes "connections s = []" "\<And>i g. env_during (re_attempts env i) g = g"
    "t = serve_alone c fallback env clock 5 (arrives c r (clock 0) s)"
  shows "connections t = [] \<and> app t = snd (handle_request c env fallback clock r (app s)) \<and>
    mset (sent t) = add_mset (r, fst (handle_request c env fallback clock r (app s))) (mset (sent s))"
proof -
  define u where "u = s\<lparr>arrived := Suc (arrived s)\<rparr>"
  have u: "sent u = sent s" "app u = app s" by (simp_all add: u_def sent_def)
  have over: ?thesis if "t = finished clock u r (dispatch c env fallback r (add_active 1 (app s)))"
    "early_response c r (app s) = None"
    unfolding that(1) handle_request_def middleware_admits [OF that(2)] using u by (simp add: finished_sel)
  have handed: "serve_alone c fallback env clock (Suc (Suc (Suc (Suc m)))) (alone_at u r (Handed (clock 0)) (add_active 1 (app s))) =
      finished clock u r (dispatch c env fallback r (add_active 1 (app s)))" for m
    by (rule serve_alone_handed) (rule assms(2))
  have five: "5 = Suc (Suc (Suc (Suc (Suc 0))))" by simp
  have t: "t = serve_alone c fallback env clock (Suc (Suc (Suc (Suc (Suc 0))))) (arrives c r (clock 0) s)"
    using assms(3) by (simp only: five)
  show ?thesis
  proof (cases "ht_path r = str ''/v1/predict''")
    case False
    have a: "arrives c r (clock 0) s = alone_at u r (Handed (clock 0)) (add_active 1 (app s))"
      using assms(1) False by (simp add: arrives_def alone_at_def u_def)
    show ?thesis by (rule over) (use False in \<open>simp_all only: t a handed early_response_def if_True not_False_eq_True\<close>)
  next
    case True
    show ?thesis
    proof (cases "header_check c r (app s)")
      case (Some out)
      then have "t = u\<lparr>turned_away := turned_away s @ [(r, out)]\<rparr>"
        using assms(1) True by (simp add: t arrives_def u_def)
      then show ?thesis
        using Some True assms(1) by (simp add: u_def sent_def handle_request_def middleware_def early_response_def)
    next
      case None
      have a: "arrives c r (clock 0) s = alone_at u r ReadingBody (app s)"
        using assms(1) True None by (simp add: arrives_def alone_at_def u_def)
      show ?thesis
      proof (cases "body_check c r")
        case (Some out)
        then have "t = u\<lparr>connections := [], turned_away := turned_away s @ [(r, out)]\<rparr>"
          unfolding t a by (simp add: alone_at_def u_def without_def)
        then show ?thesis
          using Some None True by (simp add: u_def sent_def handle_request_def middleware_def early_response_def)
      next
        case no: None
        have "serve_alone c fallback env clock (Suc (Suc (Suc (Suc (Suc 0))))) (alone_at u r ReadingBody (app s)) =
            serve_alone c fallback env clock (Suc (Suc (Suc (Suc 0)))) (alone_at u r (Handed (clock 0)) (add_active 1 (app s)))"
          by (rule serve_alone_step) (simp add: no)
        then have "t = finished clock u r (dispatch c env fallback r (add_active 1 (app s)))"
          by (simp only: t a handed)
        then show ?thesis by (rule over) (simp add: early_response_def True None no)
      qed
    qed
  qed
qed

section \<open>What a request alone leaves behind\<close>

lemma reserved_count_request [simp]: "reserved w (count_request d out g) = reserved w g"
  by (simp add: reserved_def node_def count_request_def obs_defs Let_def split_beta)

lemma meters_run_attempts:
  assumes "\<And>i g. env_during (env i) g = g"
  shows "meters (snd (run_attempts c env k attempts g)) = meters g"
proof (induction attempts arbitrary: k g)
  case (Cons a rest)
  obtain r t where b: "attempt_begin c (env_begin (env a)) k g = (r, t)" by fastforce
  with meters_attempt(1) [of c "env_begin (env a)" k g] have t: "meters t = meters g" by simp
  show ?case
  proof (cases r)
    case (Inr wr)
    obtain w rem where wr: "wr = (w, rem)" by (cases wr)
    obtain x u where e: "attempt_end c a (env_end (env a)) k w (env_rpc (env a) w rem) t = (x, u)" by fastforce
    with meters_attempt(2) [of c a "env_end (env a)" k w "env_rpc (env a) w rem" t] t have "meters u = meters g" by simp
    with b Inr wr e Cons.IH show ?thesis by (simp add: assms split: attempt_result.split)
  qed (use b t in simp)
qed simp

lemma dispatch_alone:
  fixes g :: gateway
  assumes quiet: "\<And>i g. env_during (re_attempts env i) g = g" and wf: "sched_wf g"
  shows "meters (snd (dispatch c env fallback r g)) = meters g"
    and "reserved w (snd (dispatch c env fallback r g)) = reserved w g"
proof -
  have ok: "env_ok (re_attempts env)" using quiet by (simp add: env_ok_def)
  have p: "meters (snd (predict c (re_attempts env) now rid inputs ver ms g)) = meters g"
    "reserved w (snd (predict c (re_attempts env) now rid inputs ver ms g)) = reserved w g" for now rid inputs ver ms
    unfolding predict_def
    by (rule meters_run_attempts, rule quiet) (rule run_attempts_reserved [OF wf ok], simp only: quiet)
  have "meters (snd (predict_endpoint c env body g)) = meters g \<and>
      reserved w (snd (predict_endpoint c env body g)) = reserved w g" for body
  proof (cases "validate c (re_uuid env) (re_json env body)")
    case (Inr v)
    obtain q u where q: "predict c (re_attempts env) (re_loop_time env) (v_request_id v) (v_inputs v)
        (v_model_version v) (v_timeout_ms v) g = (q, u)" by fastforce
    then have "meters u = meters g" "reserved w u = reserved w g" using p by (metis snd_conv)+
    with Inr q show ?thesis by (simp add: predict_endpoint_def split: sum.split exn.split)
  qed (simp add: predict_endpoint_def)
  then show "meters (snd (dispatch c env fallback r g)) = meters g"
    "reserved w (snd (dispatch c env fallback r g)) = reserved w g"
    by (simp_all add: dispatch_def)
qed

text \<open>What a request that was let in adds to the metrics: one duration and one count, under its status.\<close>

definition counted_as :: "pyfloat \<Rightarrow> nat \<Rightarrow> gateway \<Rightarrow> gateway \<Rightarrow> bool" where
  "counted_as d status g h \<longleftrightarrow>
     (\<exists>code. GATEWAY_REQUEST_DURATION_SECONDS h = GATEWAY_REQUEST_DURATION_SECONDS g @ [d] \<and>
        GATEWAY_REQUESTS_TOTAL h =
          (GATEWAY_REQUESTS_TOTAL g)((status, code) := Suc (GATEWAY_REQUESTS_TOTAL g (status, code))))"

lemma handle_request_alone:
  assumes quiet: "\<And>i g. env_during (re_attempts env i) g = g" and wf: "sched_wf (s :: gateway)"
    and early: "early_response c r s = None"
    and h: "handle_request c env fallback clock r s = (response, t)"
  shows "reserved w t = reserved w s \<and> GATEWAY_ACTIVE_REQUESTS t = GATEWAY_ACTIVE_REQUESTS s \<and>
    counted_as (clock 1 - clock 0) (case response of Inr resp \<Rightarrow> hr_status resp | Inl _ \<Rightarrow> 500) s t"
proof -
  have wf': "sched_wf (add_active 1 s)" using wf by simp
  have others: "others_balanced (re_attempts env)" using quiet by (simp add: others_balanced_def)
  obtain outcome u where d: "dispatch c env fallback r (add_active 1 s) = (outcome, u)" by fastforce
  have u: "meters u = meters (add_active 1 s)" "reserved w u = reserved w s"
    using dispatch_alone [OF quiet wf', where c = c and fallback = fallback and r = r] d by (simp, metis reserved_add_active snd_conv)
  have "t = count_request (clock 1 - clock 0) outcome u"
    using h d middleware_admits [OF early, of "dispatch c env fallback r" clock] by (simp add: handle_request_def)
  then have "reserved w t = reserved w s" using u(2) by simp
  moreover have "snd (dispatch c env fallback r (add_active 1 s)) = u" using d by simp
  ultimately show ?thesis
    using requests_counted_once [OF early others h] u(1)
    by (auto simp: counted_as_def meters_def add_active_def)
qed

text \<open>
  C16: A request that is served with no other task in between. Its task is over within five steps, having sent
  exactly one response, that of \<open>handle_request\<close>: for a prediction request the relayed answer of one of its own
  calls or an error whose status follows its code. Every reservation it made is given back and the gauge
  of active requests is where it was; a request that was let in has added exactly one duration and one
  count, under the status of its response (500 when it was cancelled), and one turned away has changed nothing.
\<close>

theorem request_served_alone:
  assumes "connections s = []" "\<And>i g. env_during (re_attempts env i) g = g" "sched_wf (app s)"
    "t = serve_alone c fallback env clock 5 (arrives c r (clock 0) s)"
  shows "connections t = [] \<and>
    (\<exists>out. mset (sent t) = add_mset (r, out) (mset (sent s)) \<and>
      handle_request c env fallback clock r (app s) = (out, app t) \<and>
      (\<forall>resp. out = Inr resp \<and> is_predict r \<longrightarrow>
         relays c env (ht_body r) (add_active 1 (app s)) resp \<or> error_shape resp) \<and>
      (\<forall>w. reserved w (app t) = reserved w (app s)) \<and>
      GATEWAY_ACTIVE_REQUESTS (app t) = GATEWAY_ACTIVE_REQUESTS (app s) \<and>
      (if early_response c r (app s) = None
       then counted_as (clock 1 - clock 0) (case out of Inr resp \<Rightarrow> hr_status resp | Inl _ \<Rightarrow> 500) (app s) (app t)
       else app t = app s))"
proof -
  obtain out g where h: "handle_request c env fallback clock r (app s) = (out, g)" by fastforce
  with alone_is_handle_request [OF assms(1,2,4)]
  have over: "connections t = []" "app t = g" "mset (sent t) = add_mset (r, out) (mset (sent s))" by simp_all
  have shape: "relays c env (ht_body r) (add_active 1 (app s)) resp \<or> error_shape resp" if "out = Inr resp" "is_predict r" for resp
    using handle_request_cases [OF h [unfolded that(1)] that(2)] .
  show ?thesis
  proof (cases "early_response c r (app s)")
    case None
    from over shape h None handle_request_alone [OF assms(2,3) None h] show ?thesis by (intro conjI exI [of _ out]) auto
  next
    case (Some response)
    then have "g = app s" using h by (simp add: handle_request_def middleware_early)
    with over shape h Some show ?thesis by (intro conjI exI [of _ out]) auto
  qed
qed

definition quiet_service :: service where
  "quiet_service = \<lparr>app = open_gateway True, app_tasks = started_pollers (open_gateway True), connections = [],
     turned_away = [], settled_requests = [], arrived = 0\<rparr>"

lemma open_gateway_sched_wf: "sched_wf (open_gateway a)"
  using open_gateway_wf [of a]
  by (auto simp: sched_wf_def reserved_def node_def open_gateway_def init_workers_def new_worker_node_def
      documented_config_def)

theorem request_served_alone_witness:
  "\<exists>t. t = serve_alone documented_config (\<lambda>_. health_live) (json_env None) (\<lambda>_. 0) 5
       (arrives documented_config plain_request 0 quiet_service) \<and>
     mset (sent t) = {#(plain_request, Inr (error_response [] (InvalidRequestError ''Invalid JSON payload.'')))#} \<and>
     counted_as 0 400 (open_gateway True) (app t) \<and> GATEWAY_ACTIVE_REQUESTS (app t) = 0"
proof -
  define t where "t = serve_alone documented_config (\<lambda>_. health_live) (json_env None) (\<lambda>_. 0) 5
       (arrives documented_config plain_request 0 quiet_service)"
  have q: "connections quiet_service = []" "mset (sent quiet_service) = {#}" "app quiet_service = open_gateway True"
    by (simp_all add: quiet_service_def sent_def)
  have quiet: "env_during (re_attempts (json_env None) i) g = g" for i g
    by (simp add: json_env_def failover_env_def)
  have wf: "sched_wf (app quiet_service)" by (simp add: q open_gateway_sched_wf)
  obtain u where u: "handle_request documented_config (json_env None) (\<lambda>_. health_live) (\<lambda>_. 0) plain_request
      (open_gateway True) = (Inr (error_response [] (InvalidRequestError ''Invalid JSON payload.'')), u)"
    using no_worker_response by blast
  from request_served_alone [where clock = "\<lambda>_. 0", OF q(1) quiet wf t_def] obtain out where out:
    "mset (sent t) = add_mset (plain_request, out) (mset (sent quiet_service))"
    "handle_request documented_config (json_env None) (\<lambda>_. health_live) (\<lambda>_. 0) plain_request (app quiet_service) = (out, app t)"
    "GATEWAY_ACTIVE_REQUESTS (app t) = GATEWAY_ACTIVE_REQUESTS (app quiet_service)"
    "counted_as (0 - 0) (case out of Inr resp \<Rightarrow> hr_status resp | Inl _ \<Rightarrow> 500) (app quiet_service) (app t)"
    using plain_not_early q(3) by auto
  then have "out = Inr (error_response [] (InvalidRequestError ''Invalid JSON payload.''))" using u q(3) by simp
  with out q have "mset (sent t) = {#(plain_request, Inr (error_response [] (InvalidRequestError ''Invalid JSON payload.'')))#}"
    "counted_as 0 400 (open_gateway True) (app t)" "GATEWAY_ACTIVE_REQUESTS (app t) = 0"
    by (simp_all add: error_response_def open_gateway_def)
  then show ?thesis using t_def by blast
qed

end
