(* ===== verification/Service_Shutdown.thy ===== *)
theory Service_Shutdown
  imports Service_Properties Shutdown_Properties
begin

text \<open>
  The application's shutdown, interleaved with the requests it is still serving: what it refuses from
  the moment it begins, and that it can always go on.
\<close>

section \<open>What requests leave alone\<close>

lemma accepting_obs [simp]:
  "accepting_requests (upd_worker w f g) = accepting_requests g"
  "accepting_requests (inc_retries q g) = accepting_requests g"
  "accepting_requests (inc_rpc_failures w q g) = accepting_requests g"
  "accepting_requests (set_outstanding_gauge w v g) = accepting_requests g"
  "accepting_requests (inc_routing w g) = accepting_requests g"
  "accepting_requests (set_healthy_gauge w v g) = accepting_requests g"
  "accepting_requests (log_call a b e d g) = accepting_requests g"
  "accepting_requests (add_active k g) = accepting_requests g"
  "accepting_requests (observe_duration t g) = accepting_requests g"
  "accepting_requests (inc_requests_total st code g) = accepting_requests g"
  by (simp_all add: obs_defs upd_worker_def)

lemma accepting_scheduler [simp]:
  "accepting_requests (snd (select_worker c X g)) = accepting_requests g"
  "accepting_requests (release_worker w g) = accepting_requests g"
  "accepting_requests (mark_unhealthy_immediately c w g) = accepting_requests g"
  by (simp_all add: select_worker_def release_worker_def mark_unhealthy_immediately_def Let_def split: option.split)

lemma accepting_attempt [simp]:
  "accepting_requests (snd (attempt_begin c now k g)) = accepting_requests g"
  "accepting_requests (snd (attempt_end c a now k w out g)) = accepting_requests g"
proof -
  show "accepting_requests (snd (attempt_begin c now k g)) = accepting_requests g"
    using accepting_scheduler(1) [of c "exclude_ids k" g]
    by (cases "select_worker c (exclude_ids k) g") (auto simp: attempt_begin_def Let_def split: sum.split)
qed (auto simp: attempt_end_def handle_outcome_def Let_def split_beta split: rpc_outcome.split)

lemma accepting_registry [simp]:
  "accepting_requests (poll_begin w g) = accepting_requests g"
  "accepting_requests (poll_end c w out now g) = accepting_requests g"
  "accepting_requests (snd (cancel_next ws p g)) = accepting_requests g"
proof -
  show "accepting_requests (poll_begin w g) = accepting_requests g"
    "accepting_requests (poll_end c w out now g) = accepting_requests g"
    by (auto simp: poll_begin_def poll_end_def record_probe_failure_def Let_def split: probe_result.splits option.splits)
  show "accepting_requests (snd (cancel_next ws p g)) = accepting_requests g"
    by (induction ws p g rule: cancel_next.induct) auto
qed

text \<open>A stretch of a request's task leaves the flag and the registry's tasks as they were.\<close>

definition aside :: "gateway \<Rightarrow> gateway \<Rightarrow> bool" where
  "aside g h \<longleftrightarrow> same_tasks g h \<and> accepting_requests h = accepting_requests g"

lemma aside_trans: "aside g h \<Longrightarrow> aside h u \<Longrightarrow> aside g u"
  by (auto simp: aside_def intro: same_tasks_trans)

lemma aside_refl [simp]: "aside g g"
  by (simp add: aside_def)

lemma aside_metrics [simp]: "aside g (add_active k g)" "aside g (count_request d out g)"
  by (simp_all add: aside_def same_tasks_def count_request_def split_beta) (simp_all add: obs_defs)

lemma aside_go_on: "go_on_to c start t0 v now k attempt g = (ph, h) \<Longrightarrow> aside g h"
  using same_tasks_begin [of g c now k] accepting_attempt(1) [of c now k g]
  by (auto simp: go_on_to_def aside_def simp del: accepting_attempt dest!: launch_spec split: prod.splits sum.splits)

lemma aside_call_ends:
  assumes "call_ends c start t0 v f out now0 now1 t1 g = (ph, h)"
  shows "aside g h"
proof -
  obtain r u where e: "attempt_end c (fl_attempt f) now0 (fl_call f) (fl_worker f) out g = (r, u)" by fastforce
  have u: "aside g u"
    using same_tasks_end [of g c "fl_attempt f" now0 "fl_call f" "fl_worker f" out]
      accepting_attempt(2) [of c "fl_attempt f" now0 "fl_call f" "fl_worker f" out g] e
    by (simp add: aside_def)
  show ?thesis
  proof (cases r)
    case (Retry x)
    with assms e have "aside u h" by (auto simp: call_ends_def dest: aside_go_on)
    with u show ?thesis by (rule aside_trans)
  next
    case (Raised x)
    with assms e u show ?thesis by (cases x) (auto simp: call_ends_def)
  qed (use assms e u in \<open>auto simp: call_ends_def\<close>)
qed

lemma aside_runs:
  assumes "task_runs c parse fallback r ph ev g = Some (res, h)"
  shows "aside g h"
proof (cases "(c, parse, fallback, r, ph, ev, g)" rule: task_runs.cases)
  case (4 c' parse' fallback' r' start uuid t0 now0 now1 g')
  with assms show ?thesis
    by (auto simp: endpoint_runs_def apfst_def map_prod_def dest: aside_go_on split: prod.splits if_splits sum.splits)
next
  case (6 c' parse' fallback' r' start t0 v f out now0 now1 t1 g')
  with assms show ?thesis
    by (cases "call_ends c start t0 v f out now0 now1 t1 g") (auto dest: aside_call_ends)
qed (use assms in \<open>auto split: option.splits\<close>)

section \<open>The flag and the shutdown\<close>

definition drain_ok :: "service \<Rightarrow> bool" where
  "drain_ok s \<longleftrightarrow> pollers_ok (app_tasks s) (app s) \<and> (accepting_requests (app s) \<longleftrightarrow> stopper (app_tasks s) = Serving)"

lemma drain_ok_aside:
  "drain_ok s \<Longrightarrow> app_tasks t = app_tasks s \<Longrightarrow> aside (app s) (app t) \<Longrightarrow> drain_ok t"
  using pollers_ok_cong [of "app t" "app s" "app_tasks s"] by (simp add: drain_ok_def aside_def same_tasks_def)

lemma stopper_tasks:
  "poller_resumes w p g = Some (q, h) \<Longrightarrow> stopper q = stopper p \<and> accepting_requests h = accepting_requests g"
  "probe_returns c w out now p g = Some (q, h) \<Longrightarrow> stopper q = stopper p \<and> accepting_requests h = accepting_requests g"
  by (auto simp: poller_resumes_def probe_returns_def split: if_splits)

lemma cancel_next_stopper: "stopper (fst (cancel_next ws p g)) \<noteq> Serving"
proof (induction ws p g rule: cancel_next.induct)
  case (1 p g)
  show ?case using close_next_cases [of "map fst (workers g)" g] by auto
qed auto

lemma stopper_stop:
  "stop_begins p g = Some (q, h) \<Longrightarrow> stopper q \<noteq> Serving \<and> accepting_requests h = accepting_requests g"
  "stop_resumes p g = Some (q, h) \<Longrightarrow> stopper p \<noteq> Serving \<and> stopper q \<noteq> Serving \<and>
     accepting_requests h = accepting_requests g"
proof -
  have cancel: "stopper q \<noteq> Serving \<and> accepting_requests h = accepting_requests g'"
    if "cancel_next ws p' g' = (q, h)" for ws p' g'
    using cancel_next_stopper [of ws p' g'] accepting_registry(3) [of ws p' g'] that by simp
  show "stop_begins p g = Some (q, h) \<Longrightarrow> stopper q \<noteq> Serving \<and> accepting_requests h = accepting_requests g"
    using cancel [of "poller_tasks g" p "g\<lparr>stopping := True\<rparr>"] by (auto simp: stop_begins_def split: if_splits)
  assume "stop_resumes p g = Some (q, h)"
  then show "stopper p \<noteq> Serving \<and> stopper q \<noteq> Serving \<and> accepting_requests h = accepting_requests g"
  proof (cases rule: stop_resumesE)
    case (cancelling wids)
    with cancel [of wids p g] show ?thesis by (simp add: eq_commute)
  next
    case (closing wid wids)
    with close_next_cases [of wids h] show ?thesis by auto
  qed
qed

lemma drain_ok_step:
  assumes "drain_ok s" "service_rel c parse fallback s e t"
  shows "drain_ok t"
proof (cases e)
  case (Arrives r clk)
  then have t: "t = arrives c r clk s" using assms(2) by (simp add: service_rel_def)
  show ?thesis
    by (rule drain_ok_aside [OF assms(1)]) (auto simp: t arrives_def Let_def split: option.split)
next
  case (Task i ev)
  with assms(2) have "service_step c parse fallback s (Task i ev) = Some t" by (simp add: service_rel_def)
  then show ?thesis
    by (rule service_taskE) (use drain_ok_aside [OF assms(1)] aside_runs in blast)
next
  case ShutdownBegins
  then obtain q h where t: "stop_begins (app_tasks s) ((app s)\<lparr>accepting_requests := False\<rparr>) = Some (q, h)"
    "app_tasks t = q" "app t = h"
    using assms(2) by (auto simp: service_rel_def with_app_tasks_def)
  have "pollers_ok (app_tasks s) ((app s)\<lparr>accepting_requests := False\<rparr>)"
    using assms(1) pollers_ok_cong [of "(app s)\<lparr>accepting_requests := False\<rparr>" "app s"] by (simp add: drain_ok_def)
  with t show ?thesis by (auto simp: drain_ok_def dest: stopper_stop pollers_ok_begins)
qed (use assms in \<open>auto simp: service_rel_def with_app_tasks_def drain_ok_def
    dest: stopper_tasks stopper_stop pollers_ok_resumes pollers_ok_returns pollers_ok_stop\<close>)

lemma drain_ok_init: "serving c s \<Longrightarrow> drain_ok s"
proof -
  let ?g = "lifespan_startup (init_gateway c)"
  have "\<not> stopping ?g" "accepting_requests ?g" "stopper (started_pollers ?g) = Serving"
    by (simp_all add: lifespan_startup_def start_registry_def started_pollers_def)
  then show "serving c s \<Longrightarrow> drain_ok s"
    by (simp add: serving_def drain_ok_def started_service_def Let_def pollers_ok_started)
qed

interpretation drain_invariant: inductive_invariant "serving c" "service_rel c parse fallback" drain_ok for c parse fallback
  by unfold_locales (auto intro: drain_ok_init drain_ok_step)

text \<open>
  C17: From the moment the shutdown begins, whatever is still being served, a prediction request that arrives is
  answered 503 SERVICE_DRAINING and changes nothing else, the readiness is 503, and the shutdown, until it
  is done, can take its next step. Before that no request is refused for draining.
\<close>

theorem draining_gateway_refuses:
  assumes "reachable (serving c) (service_rel c parse fallback) s" "ht_path r = str ''/v1/predict''"
  shows "if stopper (app_tasks s) = Serving then accepting_requests (app s)
    else arrives c r clk s = s\<lparr>arrived := Suc (arrived s),
           turned_away := turned_away s @ [(r, Inr (error_response [] ServiceDrainingError_default))]\<rparr> \<and>
         hr_status (health_ready (app s)) = 503 \<and>
         (stopper (app_tasks s) = Stopped \<or> service_step c parse fallback s ShutdownResumes \<noteq> None)"
  using drain_invariant.holds [OF assms(1)] assms(2) stop_resumes_enabled [of "app_tasks s" "app s"]
  by (auto simp: drain_ok_def arrives_def header_check_def health_ready_def with_app_tasks_def)

theorem draining_gateway_refuses_witness:
  "\<exists>s. run_steps (service_step documented_config (\<lambda>_. good_payload) (\<lambda>_. health_live)) (started_service documented_config)
       ((health_events @ request_events) @ [ShutdownBegins]) = Some s \<and> connections s \<noteq> [] \<and>
     turned_away (arrives documented_config plain_request 0 s) =
       turned_away s @ [(plain_request, Inr (error_response [] ServiceDrainingError_default))]"
proof -
  let ?step = "service_step documented_config (\<lambda>_. good_payload) (\<lambda>_. health_live)"
  obtain u where u: "run_steps ?step (started_service documented_config) (health_events @ request_events) = Some u"
    "connections u \<noteq> []"
    "stopper (app_tasks u) = Serving"
    using service_run by force
  obtain q h where b: "stop_begins (app_tasks u) ((app u)\<lparr>accepting_requests := False\<rparr>) = Some (q, h)"
    using u(3) by (cases "cancel_next (poller_tasks (app u)) (app_tasks u) ((app u)\<lparr>accepting_requests := False, stopping := True\<rparr>)")
      (simp add: stop_begins_def)
  define s where "s = u\<lparr>app_tasks := q, app := h\<rparr>"
  have s: "run_steps ?step (started_service documented_config) ((health_events @ request_events) @ [ShutdownBegins]) = Some s"
    using b by (subst run_steps_append) (simp add: u(1) with_app_tasks_def s_def)
  have "distinct (map fst (configured_workers documented_config))" by (simp add: documented_config_def)
  then have "reachable (serving documented_config) (service_rel documented_config (\<lambda>_. good_payload) (\<lambda>_. health_live)) s"
    by (intro reachable_run [OF _ _ s] reachable_init) (simp_all add: serving_def service_rel_def)
  from draining_gateway_refuses [OF this plain_checks(3), of 0] stopper_stop(1) [OF b]
  have "turned_away (arrives documented_config plain_request 0 s) =
      turned_away s @ [(plain_request, Inr (error_response [] ServiceDrainingError_default))]"
    by (simp add: s_def)
  then show ?thesis using s u(2) by (intro exI [of _ s]) (simp add: s_def)
qed

end
