(* ===== verification/Service_Progress.thy ===== *)
theory Service_Progress
  imports Service_Properties
begin

text \<open>
  No request is served for ever: a measure that every step of a request's task decreases, the steps
  counted request by request, and what such a task waits for.
\<close>

section \<open>The steps a request has left\<close>

fun steps_left :: "http_task \<Rightarrow> nat" where
  "steps_left ReadingBody = 5"
| "steps_left (Handed start) = 4"
| "steps_left (Predicting start t0 v f) = 4 - fl_attempt f"
| "steps_left (Handled start out) = 1"

lemma flight_attempt: "flight_ok f \<Longrightarrow> fl_attempt f = 1 \<or> fl_attempt f = 2"
  unfolding flight_ok_def by blast

lemma steps_go_on:
  assumes "go_on_to c start t0 v now k attempt g = (ph, h)" "attempt \<le> 2"
  shows "steps_left ph \<le> 4 - attempt"
  using assms by (auto simp: go_on_to_def launch_def split: prod.splits sum.splits)

lemma steps_endpoint:
  "endpoint_runs c parse fallback r start uuid t0 now0 now1 g = (ph, h) \<Longrightarrow> steps_left ph < 4"
  by (auto simp: endpoint_runs_def dest: steps_go_on split: if_splits sum.splits)

lemma steps_call_ends:
  assumes "call_ends c start t0 v f out now0 now1 t1 g = (ph, h)" "flight_ok f"
  shows "steps_left ph < 4 - fl_attempt f"
proof -
  obtain r u where e: "attempt_end c (fl_attempt f) now0 (fl_call f) (fl_worker f) out g = (r, u)" by fastforce
  have a: "fl_attempt f \<le> 2" using flight_attempt [OF assms(2)] by auto
  show ?thesis
  proof (cases r)
    case (Retry x)
    from attempt_end_retry [OF e [unfolded Retry]] have "fl_attempt f = 1" by simp
    moreover have "go_on_to c start t0 v now1 ((fl_call f)\<lparr>exclude_ids := x\<rparr>) (Suc (fl_attempt f)) u = (ph, h)"
      using assms(1) e Retry by (simp add: call_ends_def)
    ultimately show ?thesis by (auto dest: steps_go_on)
  next
    case (Raised x)
    with assms(1) e a show ?thesis by (cases x) (auto simp: call_ends_def)
  qed (use assms(1) e a in \<open>auto simp: call_ends_def\<close>)
qed

lemma task_runs_decreases:
  assumes "task_runs c parse fallback r ph ev g = Some (GoesOn ph', h)" "task_ok ph"
  shows "steps_left ph' < steps_left ph"
proof (cases "(c, parse, fallback, r, ph, ev, g)" rule: task_runs.cases)
  case (4 c' parse' fallback' r' start uuid t0 now0 now1 g')
  with assms(1) show ?thesis
    by (cases "endpoint_runs c parse fallback r start uuid t0 now0 now1 g") (auto dest: steps_endpoint)
next
  case (6 c' parse' fallback' r' start t0 v f out now0 now1 t1 g')
  with assms show ?thesis
    by (cases "call_ends c start t0 v f out now0 now1 t1 g") (auto dest: steps_call_ends)
qed (use assms in \<open>auto split: option.splits\<close>)

lemma task_runs_positive: "task_ok ph \<Longrightarrow> 0 < steps_left ph"
  using flight_attempt by (cases ph) fastforce+

section \<open>What a request waits for\<close>

fun awaits :: "http_task \<Rightarrow> task_event \<Rightarrow> bool" where
  "awaits ReadingBody (BodyRead clk) \<longleftrightarrow> True"
| "awaits ReadingBody (BodyLost e) \<longleftrightarrow> True"
| "awaits ReadingBody (TaskCancelled clk) \<longleftrightarrow> True"
| "awaits (Handed start) (EndpointRuns uuid t0 now0 now1) \<longleftrightarrow> True"
| "awaits (Handed start) (TaskCancelled clk) \<longleftrightarrow> True"
| "awaits (Predicting start t0 v f) (CallEnds out now0 now1 t1) \<longleftrightarrow> True"
| "awaits (Handled start out) (MiddlewareEnds clk) \<longleftrightarrow> True"
| "awaits (Handled start out) (TaskCancelled clk) \<longleftrightarrow> True"
| "awaits ph ev \<longleftrightarrow> False"

lemma task_runs_awaits: "task_runs c parse fallback r ph ev g = None \<longleftrightarrow> \<not> awaits ph ev"
  by (cases ph; cases ev; simp)

lemma service_step_awaits:
  assumes "i < length (connections s)"
  shows "service_step c parse fallback s (Task i ev) \<noteq> None \<longleftrightarrow> awaits (snd (connections s ! i)) ev"
proof -
  obtain r ph where x: "connections s ! i = (r, ph)" by fastforce
  show ?thesis
    using assms x task_runs_awaits [of c parse fallback r ph ev "app s"]
    by (cases "task_runs c parse fallback r ph ev (app s)") (auto simp: Let_def split: task_result.split)
qed

section \<open>Steps counted by request\<close>

text \<open>
  Beside a run, the steps each request's task has taken: of the open connections, in their order, and of
  those that are over.
\<close>

fun count_step :: "service \<Rightarrow> service \<Rightarrow> service_event \<Rightarrow> nat list \<times> nat list \<Rightarrow> nat list \<times> nat list" where
  "count_step s t (Task i ev) (taken, ended) =
     (if length (connections t) < length (connections s) then (without i taken, ended @ [Suc (taken ! i)])
      else (taken[i := Suc (taken ! i)], ended))"
| "count_step s t e (taken, ended) =
     (taken @ replicate (length (connections t) - length (connections s)) 0, ended)"

fun counted_run ::
  "gateway_config \<Rightarrow> (nat list \<Rightarrow> json option) \<Rightarrow> (http_request \<Rightarrow> http_response) \<Rightarrow> service \<Rightarrow> nat list \<times> nat list \<Rightarrow>
     service_event list \<Rightarrow> (service \<times> nat list \<times> nat list) option" where
  "counted_run c parse fallback s counts [] = Some (s, counts)"
| "counted_run c parse fallback s counts (e # es) =
     (case service_step c parse fallback s e of
        None \<Rightarrow> None
      | Some t \<Rightarrow> counted_run c parse fallback t (count_step s t e counts) es)"

lemma counted_run_run:
  "run_steps (service_step c parse fallback) s es = map_option fst (counted_run c parse fallback s counts es)"
  by (induction es arbitrary: s counts) (auto split: option.split)

definition within_five :: "service \<Rightarrow> nat list \<times> nat list \<Rightarrow> bool" where
  "within_five s counts \<longleftrightarrow>
     list_all2 (\<lambda>n x. n + steps_left (snd x) \<le> 5) (fst counts) (connections s) \<and> list_all (\<lambda>n. n \<le> 5) (snd counts)"

text \<open>A step of one request's task, which takes one of the steps that task has left.\<close>

lemma task_step_takes:
  assumes "service_step c parse fallback s (Task i ev) = Some t" "service_inv c s"
  obtains pre r ph post where "connections s = pre @ (r, ph) # post" "length pre = i" "0 < steps_left ph"
    "connections t = pre @ post \<or> (\<exists>ph'. connections t = pre @ (r, ph') # post \<and> steps_left ph' < steps_left ph)"
  using assms(1)
proof (rule service_taskE)
  fix pre r ph post res g
  assume s: "connections s = pre @ (r, ph) # post" "length pre = i"
    and run: "task_runs c parse fallback r ph ev (app s) = Some (res, g)"
    and t: "(\<exists>ph'. res = GoesOn ph' \<and> connections t = pre @ (r, ph') # post \<and> turned_away t = turned_away s \<and>
          settled_requests t = settled_requests s) \<or>
       (\<exists>out. res = TurnedAway out \<and> connections t = pre @ post \<and> turned_away t = turned_away s @ [(r, out)] \<and>
          settled_requests t = settled_requests s) \<or>
       (\<exists>out. res = Settled out \<and> connections t = pre @ post \<and> turned_away t = turned_away s \<and>
          settled_requests t = settled_requests s @ [(r, out)])"
  have ok: "task_ok ph" using assms(2) s by (simp add: service_inv_def)
  from run t task_runs_positive [OF ok] show thesis
    by (intro that [OF s]) (auto dest: task_runs_decreases [OF _ ok])
qed

lemma within_five_step:
  assumes st: "service_step c parse fallback s e = Some t" and inv: "service_inv c s" and five: "within_five s counts"
  shows "within_five t (count_step s t e counts)"
proof -
  obtain taken ended where counts: "counts = (taken, ended)" by (cases counts)
  show ?thesis
  proof (cases e)
    case (Arrives r clk)
    then have t: "t = arrives c r clk s" using st by simp
    have "connections t = connections s \<or> (\<exists>x. connections t = connections s @ [x] \<and> steps_left (snd x) \<le> 5)"
      by (auto simp: t arrives_def Let_def split: option.split)
    with five show ?thesis by (auto simp: within_five_def counts Arrives intro!: list_all2_appendI)
  next
    case (Task i ev)
    from st [unfolded Task] inv obtain pre r ph post where s: "connections s = pre @ (r, ph) # post" "length pre = i"
      "0 < steps_left ph"
      and t: "connections t = pre @ post \<or> (\<exists>ph'. connections t = pre @ (r, ph') # post \<and> steps_left ph' < steps_left ph)"
      by (rule task_step_takes)
    obtain ns n ms where n: "taken = ns @ n # ms" "length ns = i" "n + steps_left ph \<le> 5"
      "list_all2 (\<lambda>n x. n + steps_left (snd x) \<le> 5) ns pre" "list_all2 (\<lambda>n x. n + steps_left (snd x) \<le> 5) ms post"
      using five s(1,2) by (auto simp: within_five_def counts list_all2_append2 list_all2_Cons2 dest: list_all2_lengthD)
    have "without i taken = ns @ ms" "taken ! i = n" "taken[i := m] = ns @ m # ms" for m
      using n(2) by (simp_all add: n(1) without_def list_update_append nth_append)
    with t n(3-5) s five show ?thesis
      by (auto simp: within_five_def counts Task intro!: list_all2_appendI)
  qed (use st five in \<open>auto simp: within_five_def counts with_app_tasks_def\<close>)
qed

lemma within_five_run:
  assumes "counted_run c parse fallback s counts es = Some (t, counts')" "service_inv c s" "within_five s counts"
  shows "within_five t counts'"
  using assms
proof (induction es arbitrary: s counts)
  case (Cons e es)
  then obtain u where u: "service_step c parse fallback s e = Some u"
    "counted_run c parse fallback u (count_step s u e counts) es = Some (t, counts')"
    by (auto split: option.splits)
  then have "service_inv c u" using Cons.prems(2) by (auto simp: service_rel_def intro: service_inv_step)
  from Cons.IH [OF u(2) this] within_five_step [OF u(1) Cons.prems(2,3)] show ?case by blast
qed simp

section \<open>It ends\<close>

text \<open>
  C18: No request is served for ever, and none is stuck. However the requests are interleaved, each of them takes
  at most five steps: counted request by request along the run, an open one has taken at most four and one
  that is over at most five. Every step of a task ends its request or leaves it with fewer steps, and no
  other request is touched; and an open request takes its next step whatever the thing it waits for gives, a
  cancellation included, and by nothing else.
\<close>

theorem requests_end:
  assumes "distinct (map fst (configured_workers c))"
    "run_steps (service_step c parse fallback) (started_service c) es = Some t"
  shows "(\<exists>taken ended. counted_run c parse fallback (started_service c) ([], []) es = Some (t, taken, ended) \<and>
      list_all2 (\<lambda>n x. n < 5 \<and> n + steps_left (snd x) \<le> 5) taken (connections t) \<and> list_all (\<lambda>n. n \<le> 5) ended) \<and>
    (\<forall>i ev u. service_step c parse fallback t (Task i ev) = Some u \<longrightarrow> connections u = without i (connections t) \<or>
       (\<exists>ph. connections u = (connections t)[i := (fst (connections t ! i), ph)] \<and>
          steps_left ph < steps_left (snd (connections t ! i)))) \<and>
    (\<forall>i ev. i < length (connections t) \<longrightarrow>
       (service_step c parse fallback t (Task i ev) \<noteq> None \<longleftrightarrow> awaits (snd (connections t ! i)) ev))"
proof (intro conjI)
  have s: "serving c (started_service c)" using assms(1) by (simp add: serving_def)
  have "reachable (serving c) (service_rel c parse fallback) t"
    using reachable_run [OF reachable_init _ assms(2), of "serving c" "service_rel c parse fallback"] s
    by (simp add: service_rel_def)
  then have inv: "service_inv c t" by (rule service_invariant.holds)
  obtain taken ended where run: "counted_run c parse fallback (started_service c) ([], []) es = Some (t, taken, ended)"
    using assms(2) counted_run_run [of c parse fallback "started_service c" es "([], [])"] by auto
  have "within_five (started_service c) ([], [])" by (simp add: within_five_def started_service_def Let_def)
  from within_five_run [OF run service_inv_init [OF s] this]
  have five: "list_all2 (\<lambda>n x. n + steps_left (snd x) \<le> 5) taken (connections t)" "list_all (\<lambda>n. n \<le> 5) ended"
    by (simp_all add: within_five_def)
  have "0 < steps_left (snd (connections t ! i))" if "i < length (connections t)" for i
    using inv that by (auto simp: service_inv_def list_all_length intro: task_runs_positive)
  then have "list_all2 (\<lambda>n x. n < 5 \<and> n + steps_left (snd x) \<le> 5) taken (connections t)"
    using five(1) unfolding list_all2_conv_all_nth by force
  with run five(2) show "\<exists>taken ended. counted_run c parse fallback (started_service c) ([], []) es = Some (t, taken, ended) \<and>
      list_all2 (\<lambda>n x. n < 5 \<and> n + steps_left (snd x) \<le> 5) taken (connections t) \<and> list_all (\<lambda>n. n \<le> 5) ended"
    by blast
  show "\<forall>i ev u. service_step c parse fallback t (Task i ev) = Some u \<longrightarrow> connections u = without i (connections t) \<or>
       (\<exists>ph. connections u = (connections t)[i := (fst (connections t ! i), ph)] \<and>
          steps_left ph < steps_left (snd (connections t ! i)))"
  proof (intro allI impI)
    fix i ev u assume "service_step c parse fallback t (Task i ev) = Some u"
    from task_step_takes [OF this inv] obtain pre r ph post where "connections t = pre @ (r, ph) # post" "length pre = i"
      "connections u = pre @ post \<or> (\<exists>ph'. connections u = pre @ (r, ph') # post \<and> steps_left ph' < steps_left ph)"
      by metis
    then show "connections u = without i (connections t) \<or>
       (\<exists>ph. connections u = (connections t)[i := (fst (connections t ! i), ph)] \<and>
          steps_left ph < steps_left (snd (connections t ! i)))"
      by (auto simp: without_def)
  qed
qed (use service_step_awaits in blast)

theorem requests_end_witness:
  "\<exists>t. run_steps (service_step documented_config (\<lambda>_. good_payload) (\<lambda>_. health_live)) (started_service documented_config)
       (health_events @ request_events) = Some t \<and> length (connections t) = 1 \<and>
     service_step documented_config (\<lambda>_. good_payload) (\<lambda>_. health_live) t (Task 0 (CallEnds RpcCancelled 2 2 3)) \<noteq> None"
proof -
  obtain t f where t: "run_steps (service_step documented_config (\<lambda>_. good_payload) (\<lambda>_. health_live))
      (started_service documented_config) (health_events @ request_events) = Some t"
    "connections t = [(plain_request, Predicting 0 0 plain_validated f)]"
    using service_run by blast
  have d: "distinct (map fst (configured_workers documented_config))" by (simp add: documented_config_def)
  from requests_end [OF d t(1)] t(2)
  have "service_step documented_config (\<lambda>_. good_payload) (\<lambda>_. health_live) t (Task 0 ev) \<noteq> None \<longleftrightarrow>
      awaits (Predicting 0 0 plain_validated f) ev" for ev
    by (simp del: service_step.simps)
  then have "service_step documented_config (\<lambda>_. good_payload) (\<lambda>_. health_live) t (Task 0 (CallEnds RpcCancelled 2 2 3)) \<noteq> None"
    by (simp del: service_step.simps)
  with t show ?thesis by (intro exI [of _ t]) (simp del: service_step.simps)
qed

end
