(* ===== verification/Spec2Isabelle.thy ===== *)
theory Spec2Isabelle
  imports App_Properties Shared_Properties Script_Properties Log_Properties Worker_Life Startup Rpc
    Service_Workers Service_Alone Service_Shutdown Service_Progress
begin

text \<open>
  A verification development for the distributed model server: an HTTP gateway (\<open>src/gateway/\<close>) that
  validates prediction requests, picks one of several workers and calls it over gRPC with at most one
  retry, and workers (\<open>src/worker/\<close>) that queue the calls, run them through a text classifier in
  batches and answer each with its own predictions. Both are asyncio programs; \<open>src/shared/\<close> holds the
  error classes and the structured logger. The scripts of \<open>src/scripts/\<close> prepare a corpus and the model's
  files, put load on the gateway, sample the containers, summarise the results and rehearse a failure.

  How the parts interact. \<open>app.py\<close> validates a body and calls \<open>client.predict\<close>; the client asks the
  scheduler for a worker (a reservation is counted on it), awaits the worker's \<open>Predict\<close>, and releases
  the reservation; an UNAVAILABLE ejects the worker in the registry and is retried once elsewhere. The
  registry's pollers move each worker through STARTING, HEALTHY, UNHEALTHY and DRAINING by its status
  probes. In the worker, \<open>server.py\<close> hands the texts to \<open>batcher.enqueue\<close> and awaits a future that the
  batcher's loop resolves after collecting a batch and running the model on it.

  The theories.
  \<^item> \<open>Prelude\<close>: Python's values and the library functions the source uses, reachable states, and the
    locale \<open>inductive_invariant\<close> through which every invariant below is established.
  \<^item> \<open>Errors\<close> (\<open>shared/errors.py\<close>), \<open>Logs\<close> (\<open>shared/logging.py\<close>), \<open>Config\<close> (both \<open>config.py\<close>),
    \<open>Metrics\<close> (\<open>gateway/metrics.py\<close>), \<open>Proto\<close> (the gRPC messages).
  \<^item> \<open>Registry\<close> (\<open>gateway/registry.py\<close>): a node per worker, the operations on nodes and on the
    dictionary of nodes, the health machine and its specification on histories of probes.
  \<^item> \<open>Reservation\<close>: the interface between client and scheduler, the locales \<open>reservations\<close> and
    \<open>ejecting_reservations\<close>, with the ledger of calls in flight proved from their laws.
  \<^item> \<open>Scheduler\<close> (\<open>gateway/scheduler.py\<close>): selection and release, which interpret the interface.
  \<^item> \<open>Client\<close> (\<open>gateway/client.py\<close>): the attempts of one prediction, what its awaits return being an
    environment; \<open>Pollers\<close> (\<open>gateway/registry.py\<close>): the registry's tasks and \<open>stop\<close>, cut at their awaits;
    \<open>Gateway_Tasks\<close>: any number of predictions, pollers and the shutdown interleaved.
  \<^item> \<open>App\<close> (\<open>gateway/app.py\<close>): validation, endpoints, middleware, start and shutdown, each request a function;
    \<open>App_Tasks\<close>: the application as it runs, its requests, pollers and shutdown interleaved.
  \<^item> \<open>Model\<close> (\<open>worker/model.py\<close>): the interface of a model as the locales \<open>batch_model\<close> and
    \<open>rowwise_model\<close>, interpreted on \<open>FakeModel\<close>; the computation of \<open>ONNXModel\<close> around its libraries.
  \<^item> \<open>Batcher\<close> (\<open>worker/batcher.py\<close>): the loop cut at its awaits; \<open>Batcher_Safety\<close> (the invariant),
    \<open>Batcher_Answers\<close> (what may happen to a future), \<open>Batcher_Progress\<close> (the loop drains its queue).
  \<^item> \<open>Worker_Server\<close> (\<open>worker/server.py\<close>): the RPC handlers and the process, with the stages of \<open>serve\<close>;
    \<open>Startup\<close>: how it comes up (the head of \<open>serve\<close>, \<open>ONNXModel\<close>'s constructor, \<open>worker/metrics.py\<close>), over
    the files of a download.
  \<^item> \<open>Rpc\<close> (\<open>generated/inference/v1/inference_pb2_grpc.py\<close>): the stub, the service table and the version
    check, with the fit of the two sides.
  \<^item> \<open>Json\<close>: Python's JSON values, \<open>json.dumps\<close> and \<open>json.loads\<close>, with the round trip that the logger, the
    benchmark files and the request bodies rest on; \<open>Files\<close> and \<open>Csv\<close>: text files, one JSON value to a
    line, and the \<open>csv\<close> module's writer and reader.
  \<^item> \<open>Corpus\<close>, \<open>Benchmark\<close>, \<open>Resources\<close>, \<open>Summary\<close> with \<open>Summary_Report\<close>, \<open>Download\<close> and \<open>Scenario\<close>: the scripts \<open>generate_corpus.py\<close>,
    \<open>benchmark.py\<close>, \<open>sample_resources.py\<close>, \<open>summarize_results.py\<close>, \<open>download_model.py\<close> and
    \<open>failure_scenario.py\<close>. The benchmark's tasks are a transition system like the two above.
  \<^item> \<open>Gateway_Properties\<close>, \<open>App_Properties\<close>, \<open>Worker_Properties\<close>, \<open>Shared_Properties\<close>, \<open>Script_Properties\<close> and
    this theory: the properties, each with an instance at a concrete input when it has hypotheses.
    \<open>Service_Properties\<close> and \<open>Service_Answers\<close>: what the interleaved application counts, and whose answers
    its responses are; \<open>Service_Workers\<close>: the same with worker processes behind it; \<open>Service_Alone\<close>: a task
    left alone is \<open>handle_request\<close>, and leaves reservations and gauge as they were; \<open>Service_Shutdown\<close>: what it refuses while it drains;
    \<open>Service_Progress\<close>: no request is served for ever.
    \<open>Shutdown_Properties\<close>: the end of the gateway's tasks; \<open>Log_Properties\<close>: what its log tells, and what it
    cannot tell; \<open>Worker_Life\<close>: the stages of a worker, and that one that
    drains takes no more work.

  Modelling decisions. State is a record that is passed along; the records extend each other as the
  objects refer to each other (metrics, registry, scheduler, application). Errors are values: an
  application error, another exception, or a cancellation. A coroutine is cut at its awaits, and the code
  from one await to the next is one function; a task system is a step function on states and events,
  and its theorems hold in every reachable state, so in every interleaving. Clock readings, call
  outcomes, parsed JSON and the model's libraries are inputs. One place gives the loop more awaits than
  the code has (a queue that is not empty is still awaited, in the batcher), which only adds
  interleavings. \<open>lifespan_shutdown\<close> runs \<open>stop_registry\<close>, which is the run of \<open>stop\<close> with nothing in
  between, as \<open>stop_alone_is_stop_registry\<close> shows; in \<open>Gateway_Tasks\<close> and \<open>App_Tasks\<close> it is interleaved at its
  awaits. The body is an await of the middleware; \<open>request.json()\<close> in the endpoint reads the body kept by then
  and is none.

  Termination and bounds. All loops but the batcher's are bounded and are structural recursions. The
  batcher's loop serves for ever; \<open>every_request_answered\<close> runs it with fuel
  \<open>load s\<close>, three times the number of waiting envelopes plus the rank of its position, and shows this
  fuel is enough, whatever the clock shows. The JSON reader is given fuel \<open>2 * length + 1\<close>,
  which \<open>loads_fuel\<close> shows is enough for every text it reads, as each value consumes a
  character and each nesting at most two units. \<open>shutdown_ends\<close> bounds the shutdown by two
  resumptions for each worker, and \<open>requests_end\<close> the service of a request by five steps. Python's integers are \<open>int\<close>, uint32 message fields are
  checked, floats are reals (rounding, NaN and infinities are not modelled), strings are lists of code
  points.

  The scripts' surroundings are arguments: the digits of a float (\<open>float_repr\<close>), the printable code
  points (\<open>isprintable\<close>), SHA-256 and the file
  servers, the stream of random draws, docker's output, and the answers the scenario sees.

  Not modelled: the serialized descriptor of \<open>inference_pb2.py\<close> and the wire format, the Prometheus text
  format and the declarations of the metrics, the sockets and signal registration of \<open>serve\<close>, the
  tokenizer and ONNX session (parameters of \<open>onnx_init\<close> and \<open>onnx_predict_batch\<close>) and, of the scripts,
  what they print and the creation of directories other than the result files'.
\<close>

section \<open>Gateway and workers together\<close>

text \<open>
  C30: How a worker's refusal reaches the HTTP client. A call that \<open>Predict\<close> turns away before it queues
  ends the gateway's attempt with the error that belongs to the first check that failed: a worker that
  is not ready gives WORKER_UNAVAILABLE, a bad number of inputs INVALID_REQUEST, another model version
  UNSUPPORTED_MODEL, no time left DEADLINE_EXCEEDED, and a full queue WORKER_QUEUE_FULL.
\<close>

theorem worker_refusals_reach_client:
  assumes "predict_begin wc rq time_remaining now enqueue_now ws = (Inl out, ws')"
  shows "fst (attempt_end c a gw_now k w out s) = Raised (App
    (if service_state ws \<noteq> WORKER_STATE_READY then WorkerUnavailableError_default
     else if rq_inputs rq = [] \<or> 8 < length (rq_inputs rq) then InvalidRequestError_default
     else if rq_model_version rq \<noteq> wc_model_version wc then UnsupportedModelError_default
     else if time_remaining = None \<or> the time_remaining \<le> 0 then DeadlineExceededError_default
     else WorkerQueueFullError_default))"
proof -
  have detail: "py_contains (str ''UNSUPPORTED_MODEL'') (str ''UNSUPPORTED_MODEL'')"
    "\<not> py_contains (str ''UNSUPPORTED_MODEL'') (str ''INVALID_REQUEST'')"
    by (simp_all add: str_def)
  have full: "e = WorkerQueueFullError m \<or> e = WorkerQueueFullError m'"
    if "enqueue b rid inp dl t q = (Inl e, q')" "m = ''Worker is shutting down.''"
      "m' = ''Worker queue capacity reached.''" for b rid inp dl t q e q' m m'
    using that by (auto simp: enqueue_def Let_def split: if_splits)
  show ?thesis
    using assms detail
    by (auto simp: predict_begin_def attempt_end_def handle_outcome_def map_rpc_error_def abort_def Let_def
        handler_error_def split: if_splits option.splits prod.splits sum.splits dest!: full)
qed

lemma starting_refuses:
  "predict_begin documented_worker_config good_request (Some 1) 0 0 (new_worker documented_worker_config)
     = (Inl (abort FAILED_PRECONDITION ''WORKER_NOT_READY''), new_worker documented_worker_config)"
  by (simp add: predict_begin_def new_worker_def)

theorem worker_refusals_reach_client_witness:
  "fst (attempt_end documented_config 1 3 (start_call 2 [] [] [] 1000) w1
     (abort FAILED_PRECONDITION ''WORKER_NOT_READY'') two_healthy) = Raised (App WorkerUnavailableError_default)"
  using worker_refusals_reach_client [OF starting_refuses, of documented_config 1 3
      "start_call 2 [] [] [] 1000" w1 two_healthy]
  by (simp add: new_worker_def)

text \<open>
  How the errors of a queued call reach the HTTP client: a queue that is full or closed gives
  WORKER_QUEUE_FULL (429), an expired deadline DEADLINE_EXCEEDED (504), and every other error of the
  worker INTERNAL_ERROR (500), none of which is retried or ejects the worker.
\<close>

lemma worker_errors_reach_client:
  "attempt_end c a now k w (fst (handler_error (App e) ws)) s =
     (Raised (App (case e of
        WorkerQueueFullError m \<Rightarrow> WorkerQueueFullError_default
      | DeadlineExceededError m \<Rightarrow> DeadlineExceededError_default
      | _ \<Rightarrow> InternalServerError_default)),
      release_worker w (inc_rpc_failures w (case e of
        WorkerQueueFullError m \<Rightarrow> ''RESOURCE_EXHAUSTED''
      | DeadlineExceededError m \<Rightarrow> ''DEADLINE_EXCEEDED''
      | _ \<Rightarrow> ''INTERNAL'') s))"
  by (cases e) (simp_all add: handler_error_def attempt_end_def handle_outcome_def map_rpc_error_def abort_def Let_def)

definition probe_seen :: "worker_config \<Rightarrow> worker \<Rightarrow> probe_result" where
  "probe_seen wc ws = (case fst (get_status wc ws) of None \<Rightarrow> ProbeRaised | Some r \<Rightarrow> ProbeResponse r)"

text \<open>
  What the gateway's probe makes of a worker of its own model: a worker that is starting or ready
  counts as a success, one that drains as draining, and one whose queue capacity does not fit the
  status message's uint32 field (a negative WORKER_QUEUE_CAPACITY) always as a failure.
\<close>

lemma status_probe_classified:
  assumes "wc_model_version wc = model_version c" "wc_model_sha256 wc = model_sha256 c"
    "fits_uint32 (int (queue_depth (batcher_state ws)))"
    "service_state ws \<in> {WORKER_STATE_STARTING, WORKER_STATE_READY, WORKER_STATE_DRAINING}"
  shows "classify c (probe_seen wc ws) =
    (if \<not> fits_uint32 (wc_queue_capacity wc) then Failed
     else if service_state ws = WORKER_STATE_DRAINING then Drains else Succeeded)"
  using assms by (auto simp: probe_seen_def get_status_def classify_def compatible_def Let_def)

theorem status_probe_classified_witness:
  "classify documented_config (probe_seen documented_worker_config (new_worker documented_worker_config)) = Succeeded"
  using status_probe_classified [of documented_worker_config documented_config "new_worker documented_worker_config"]
  by (simp add: documented_worker_config_def documented_config_def new_worker_def fits_uint32_def queue_depth_def
      init_batcher_def)








end
